(* ===== verification/Prelude.thy ===== *)
theory Prelude
  imports Main "HOL-Library.Word"
begin

text \<open>
  Shared vocabulary of the development: the machine integers of the Rust sources, results
  and panics as sums, polls, durations, the checked and saturating integer operations of
  the standard library the sources call, and the generic lemmas the component theories use.

  A Rust \<open>Result<T, E>\<close> is a sum \<open>'e + 'a\<close> with the error on the left; a computation that
  may panic is a sum whose left side names the panic. \<open>and_then\<close> is the sequencing the
  \<open>?\<close> operator and early returns give.
\<close>

named_theorems prog_defs "definitions of the programs, unfolded together in component proofs"
named_theorems state_simps "equations for the state after an operation"

type_synonym usize = "64 word"
type_synonym u64 = "64 word"
type_synonym u32 = "32 word"
type_synonym u16 = "16 word"
type_synonym byte = "8 word"

text \<open>A \<open>std::time::Duration\<close> is its number of nanoseconds.\<close>

type_synonym duration = nat

definition DURATION_MAX :: duration where
  "DURATION_MAX = (2 ^ 64 - 1) * 1000000000 + 999999999"

definition from_secs :: "nat \<Rightarrow> duration" where
  "from_secs n = n * 1000000000"

definition from_millis :: "nat \<Rightarrow> duration" where
  "from_millis n = n * 1000000"

datatype 'a poll = Ready 'a | Pending

text \<open>Awaiting a future: polling it until it is ready. \<open>None\<close> is a future that never is.\<close>

partial_function (option) await :: "('s \<Rightarrow> 'r poll \<times> 's) \<Rightarrow> 's \<Rightarrow> ('r \<times> 's) option" where
  "await poll s = (case poll s of (Ready r, s') \<Rightarrow> Some (r, s') | (Pending, s') \<Rightarrow> await poll s')"

text \<open>What every poll keeps, the awaited future keeps.\<close>

lemma await_invariant:
  assumes run: "await poll s = Some (r, s')" and "I s"
    and step: "\<And>s s'. I s \<Longrightarrow> poll s = (Pending, s') \<Longrightarrow> I s'"
    and ready: "\<And>s r s'. I s \<Longrightarrow> poll s = (Ready r, s') \<Longrightarrow> Q r s'"
  shows "Q r s'"
proof -
  have "poll = poll \<longrightarrow> I s \<longrightarrow> Q (fst (r, s')) (snd (r, s'))"
  proof (rule await.raw_induct [where P = "\<lambda>p s x. p = poll \<longrightarrow> I s \<longrightarrow> Q (fst x) (snd x)", OF _ run])
    fix f p s x
    assume IH: "\<And>p s x. f p s = Some x \<Longrightarrow> p = poll \<longrightarrow> I s \<longrightarrow> Q (fst x) (snd x)"
      and eq: "(case p s of (Ready r, s') \<Rightarrow> Some (r, s') | (Pending, s') \<Rightarrow> f p s') = Some x"
    show "p = poll \<longrightarrow> I s \<longrightarrow> Q (fst x) (snd x)"
    proof (intro impI)
      assume p: "p = poll" and I: "I s"
      obtain r s1 where ps: "poll s = (r, s1)" by fastforce
      show "Q (fst x) (snd x)"
      proof (cases r)
        case (Ready y)
        then show ?thesis using ready [OF I] ps eq p by auto
      next
        case Pending
        then show ?thesis using IH [of p s1 x] step [OF I] ps eq p by auto
      qed
    qed
  qed
  then show ?thesis using \<open>I s\<close> by simp
qed

text \<open>A future that is polled through another one takes as many polls.\<close>

lemma await_simulates:
  assumes run: "await p s = Some (r, s')"
    and pending: "\<And>s s'. p s = (Pending, s') \<Longrightarrow> q (g s) = (Pending, g s')"
    and ready: "\<And>s r s'. p s = (Ready r, s') \<Longrightarrow> q (g s) = (Ready (h r s'), k r s')"
  shows "await q (g s) = Some (h r s', k r s')"
proof -
  have "p = p \<longrightarrow> await q (g s) = Some (h (fst (r, s')) (snd (r, s')), k (fst (r, s')) (snd (r, s')))"
  proof (rule await.raw_induct
      [where P = "\<lambda>p' s x. p' = p \<longrightarrow> await q (g s) = Some (h (fst x) (snd x), k (fst x) (snd x))", OF _ run])
    fix f p' s x
    assume IH: "\<And>p' s x. f p' s = Some x \<Longrightarrow> p' = p \<longrightarrow> await q (g s) = Some (h (fst x) (snd x), k (fst x) (snd x))"
      and eq: "(case p' s of (Ready r, s') \<Rightarrow> Some (r, s') | (Pending, s') \<Rightarrow> f p' s') = Some x"
    show "p' = p \<longrightarrow> await q (g s) = Some (h (fst x) (snd x), k (fst x) (snd x))"
    proof
      assume p': "p' = p"
      obtain r s1 where ps: "p s = (r, s1)" by fastforce
      show "await q (g s) = Some (h (fst x) (snd x), k (fst x) (snd x))"
      proof (cases r)
        case (Ready y)
        then show ?thesis using ready [of s y s1] ps eq p' by (subst await.simps) auto
      next
        case Pending
        then show ?thesis using IH [of p s1 x] pending [of s s1] ps eq p' by (subst await.simps) auto
      qed
    qed
  qed
  then show ?thesis by simp
qed

fun and_then :: "'e + 'a \<Rightarrow> ('a \<Rightarrow> 'e + 'b) \<Rightarrow> 'e + 'b" where
  "and_then (Inl e) f = Inl e"
| "and_then (Inr x) f = f x"

lemma and_then_Inr_iff: "and_then m f = Inr y \<longleftrightarrow> (\<exists>x. m = Inr x \<and> f x = Inr y)"
  by (cases m) auto

lemma and_then_Inl_iff:
  "and_then m f = Inl e \<longleftrightarrow> m = Inl e \<or> (\<exists>x. m = Inr x \<and> f x = Inl e)"
  by (cases m) auto

definition require :: "bool \<Rightarrow> 'e \<Rightarrow> 'e + unit" where
  "require b e = (if b then Inr () else Inl e)"

lemma require_True [simp]: "require True e = Inr ()"
  by (simp add: require_def)

lemma require_Inr_iff [simp]: "require b e = Inr u \<longleftrightarrow> b"
  by (simp add: require_def)

subsection \<open>Integer operations of the standard library\<close>

definition checked_add :: "'a::len word \<Rightarrow> 'a word \<Rightarrow> 'a word option" where
  "checked_add a b = (if unat a + unat b < 2 ^ LENGTH('a) then Some (a + b) else None)"

definition checked_sub :: "'a::len word \<Rightarrow> 'a word \<Rightarrow> 'a word option" where
  "checked_sub a b = (if b \<le> a then Some (a - b) else None)"

definition saturating_add :: "'a::len word \<Rightarrow> 'a word \<Rightarrow> 'a word" where
  "saturating_add a b = (if unat a + unat b < 2 ^ LENGTH('a) then a + b else - 1)"

definition saturating_mul :: "'a::len word \<Rightarrow> 'a word \<Rightarrow> 'a word" where
  "saturating_mul a b = (if unat a * unat b < 2 ^ LENGTH('a) then a * b else - 1)"

lemma unat_less_pow: "unat (a :: 'a::len word) < 2 ^ LENGTH('a)"
  by (rule unsigned_less)

lemma unat_usize_less: "unat (a :: usize) < 18446744073709551616"
  using unat_less_pow [of a] by simp

lemma checked_add_SomeD:
  "checked_add a b = Some c \<Longrightarrow> c = a + b \<and> unat c = unat a + unat b"
  by (auto simp: checked_add_def unat_word_ariths split: if_splits)

lemma checked_sub_SomeD:
  "checked_sub a b = Some c \<Longrightarrow> c = a - b \<and> unat c = unat a - unat b"
  by (auto simp: checked_sub_def unat_sub split: if_splits)

lemma unat_saturating_add:
  "unat (saturating_add a b) = min (unat a + unat b) (2 ^ LENGTH('a) - 1)"
  for a b :: "'a::len word"
  using unat_less_pow [of a] unat_less_pow [of b]
  by (auto simp: saturating_add_def unat_word_ariths unsigned_minus_1_eq_mask mask_eq_exp_minus_1)

lemma unat_saturating_mul:
  "unat (saturating_mul a b) = min (unat a * unat b) (2 ^ LENGTH('a) - 1)"
  for a b :: "'a::len word"
  by (auto simp: saturating_mul_def unat_word_ariths unsigned_minus_1_eq_mask mask_eq_exp_minus_1)

lemma unat_succ_less:
  assumes "(a :: 'a::len word) < b"
  shows "unat (a + 1) = unat a + 1"
proof -
  have "unat a + 1 < 2 ^ LENGTH('a)"
    using assms unat_less_pow [of b] by (simp only: word_less_nat_alt)
  then show ?thesis by (simp add: unat_word_ariths)
qed

lemma unat_pred: "(a :: 'a::len word) \<noteq> 0 \<Longrightarrow> unat (a - 1) = unat a - 1"
  by (simp add: unat_minus_one)

lemma succ_le_of_less: "(a :: 'a::len word) < b \<Longrightarrow> a + 1 \<le> b"
  by (rule inc_le)

end
