(* ===== verification/Semaphore.thy ===== *)
theory Semaphore
  imports Prelude
begin

text \<open>
  The fair semaphore of \<^verbatim>\<open>service/node/limiter/deficit_semaphore.rs\<close>.

  The waiters form an intrusive doubly linked list: an \<^verbatim>\<open>Acquire\<close> future owns its node, the
  list links nodes by raw pointers, and \<^verbatim>\<open>State\<close> holds the head and the tail. The model keeps
  that shape. An address is the pinned address of a future, \<open>nodes\<close> is its \<open>node\<close> field
  (\<open>None\<close> when the future is not queued) and \<open>woken\<close> records the calls of \<^verbatim>\<open>Waker::wake\<close>.
  Every access through a pointer goes through \<open>deref\<close>, which faults on an address that is not
  a node, and the \<^verbatim>\<open>debug_assert\<close>s and overflow checks of a debug build are checks of the
  model: the theorems show that none of them can fail.
\<close>

type_synonym addr = nat
type_synonym waker = nat

datatype sem_fault =
    Dangling addr
  | DebugAssert
  | PermitOverflow
  | PermitUnderflow

record sem_node =
  nd_waker :: "waker option"
  nd_next :: "addr option"
  nd_prev :: "addr option"

record sem =
  total_permits :: usize
  outstanding_permits :: usize
  head :: "addr option"
  tail :: "addr option"
  nodes :: "addr \<rightharpoonup> sem_node"
  woken :: "waker list"

definition sem_new :: "usize \<Rightarrow> sem" where
  "sem_new permits =
     \<lparr>total_permits = permits, outstanding_permits = 0, head = None, tail = None,
      nodes = Map.empty, woken = []\<rparr>"

definition has_permits :: "sem \<Rightarrow> bool" where
  "has_permits s \<longleftrightarrow> total_permits s > outstanding_permits s"

definition deref :: "sem \<Rightarrow> addr \<Rightarrow> sem_fault + sem_node" where
  "deref s a = (case nodes s a of None \<Rightarrow> Inl (Dangling a) | Some nd \<Rightarrow> Inr nd)"

definition set_node :: "addr \<Rightarrow> sem_node \<Rightarrow> sem \<Rightarrow> sem" where
  "set_node a nd s = s\<lparr>nodes := (nodes s)(a \<mapsto> nd)\<rparr>"

definition maybe_wake :: "sem \<Rightarrow> sem_fault + sem" where
  "maybe_wake s =
     (if has_permits s then
        (case head s of
           None \<Rightarrow> Inr s
         | Some h \<Rightarrow>
             and_then (deref s h) (\<lambda>nd.
               (case nd_waker nd of
                  None \<Rightarrow> Inr s
                | Some w \<Rightarrow>
                    Inr ((set_node h (nd\<lparr>nd_waker := None\<rparr>) s)\<lparr>woken := woken s @ [w]\<rparr>))))
      else Inr s)"

definition add_permits :: "usize \<Rightarrow> sem \<Rightarrow> sem_fault + sem" where
  "add_permits permits s =
     (case checked_add (total_permits s) permits of
        None \<Rightarrow> Inl PermitOverflow
      | Some t \<Rightarrow> maybe_wake (s\<lparr>total_permits := t\<rparr>))"

definition remove_permits :: "usize \<Rightarrow> sem \<Rightarrow> sem_fault + sem" where
  "remove_permits permits s =
     (case checked_sub (total_permits s) permits of
        None \<Rightarrow> Inl PermitUnderflow
      | Some t \<Rightarrow> Inr (s\<lparr>total_permits := t\<rparr>))"

definition dequeue :: "addr \<Rightarrow> sem \<Rightarrow> sem_fault + sem" where
  "dequeue a s =
     and_then (deref s a) (\<lambda>self.
     and_then
       (case nd_prev self of
          Some p \<Rightarrow>
            and_then (deref s p) (\<lambda>pn.
            and_then (require (nd_next pn = Some a) DebugAssert) (\<lambda>_.
              Inr (set_node p (pn\<lparr>nd_next := nd_next self\<rparr>) s)))
        | None \<Rightarrow>
            and_then (require (head s = Some a) DebugAssert) (\<lambda>_.
              Inr (s\<lparr>head := nd_next self\<rparr>))) (\<lambda>s1.
     and_then
       (case nd_next self of
          Some n \<Rightarrow>
            and_then (deref s1 n) (\<lambda>nn.
            and_then (require (nd_prev nn = Some a) DebugAssert) (\<lambda>_.
              Inr (set_node n (nn\<lparr>nd_prev := nd_prev self\<rparr>) s1)))
        | None \<Rightarrow>
            and_then (require (tail s1 = Some a) DebugAssert) (\<lambda>_.
              Inr (s1\<lparr>tail := nd_prev self\<rparr>))) (\<lambda>s2.
     and_then (deref s2 a) (\<lambda>self2.
       Inr (set_node a (self2\<lparr>nd_prev := None, nd_next := None\<rparr>) s2)))))"

definition push_back :: "addr \<Rightarrow> sem \<Rightarrow> sem_fault + sem" where
  "push_back a s =
     and_then (deref s a) (\<lambda>self.
     and_then (require (nd_next self = None \<and> nd_prev self = None) DebugAssert) (\<lambda>_.
     and_then
       (case tail s of
          Some t \<Rightarrow>
            and_then (deref s t) (\<lambda>tn.
            and_then (require (nd_next tn = None) DebugAssert) (\<lambda>_.
              Inr (set_node a (self\<lparr>nd_prev := Some t\<rparr>)
                    (set_node t (tn\<lparr>nd_next := Some a\<rparr>) s))))
        | None \<Rightarrow> Inr (s\<lparr>head := Some a\<rparr>)) (\<lambda>s1.
       Inr (s1\<lparr>tail := Some a\<rparr>))))"

text \<open>
  \<open>Waker::will_wake\<close> compares the data pointer and the vtable of two wakers, so a waker is
  modelled by its identity.
\<close>

definition will_wake :: "waker option \<Rightarrow> waker \<Rightarrow> bool" where
  "will_wake o' w \<longleftrightarrow> o' = Some w"

definition acquire_poll :: "addr \<Rightarrow> waker \<Rightarrow> sem \<Rightarrow> sem_fault + (unit poll \<times> sem)" where
  "acquire_poll a w s =
     (if head s = None \<and> has_permits s then
        Inr (Ready (), s\<lparr>outstanding_permits := outstanding_permits s + 1\<rparr>)
      else
        and_then
          (case nodes s a of
             Some _ \<Rightarrow> Inr s
           | None \<Rightarrow>
               push_back a
                 (set_node a \<lparr>nd_waker = None, nd_next = None, nd_prev = None\<rparr> s)) (\<lambda>s1.
        and_then (deref s1 a) (\<lambda>nd.
          if nd_prev nd = None \<and> has_permits s1 then
            and_then (dequeue a s1) (\<lambda>s2.
            and_then
              (maybe_wake
                (s2\<lparr>nodes := (nodes s2)(a := None),
                    outstanding_permits := outstanding_permits s2 + 1\<rparr>)) (\<lambda>s3.
              Inr (Ready (), s3)))
          else
            Inr (Pending,
                 (if \<not> will_wake (nd_waker nd) w
                  then set_node a (nd\<lparr>nd_waker := Some w\<rparr>) s1 else s1)))))"

definition acquire_drop :: "addr \<Rightarrow> sem \<Rightarrow> sem_fault + sem" where
  "acquire_drop a s =
     (case nodes s a of
        None \<Rightarrow> Inr s
      | Some nd \<Rightarrow>
          and_then (dequeue a s) (\<lambda>s1.
          and_then (if nd_prev nd = None then maybe_wake s1 else Inr s1) (\<lambda>s2.
            Inr (s2\<lparr>nodes := (nodes s2)(a := None)\<rparr>))))"

definition permit_drop :: "sem \<Rightarrow> sem_fault + sem" where
  "permit_drop s =
     (case checked_sub (outstanding_permits s) 1 of
        None \<Rightarrow> Inl PermitUnderflow
      | Some n \<Rightarrow> maybe_wake (s\<lparr>outstanding_permits := n\<rparr>))"

lemmas sem_prog_defs [prog_defs] =
  deref_def set_node_def maybe_wake_def add_permits_def remove_permits_def dequeue_def
  push_back_def will_wake_def acquire_poll_def acquire_drop_def permit_drop_def

subsection \<open>The queue a heap represents\<close>

fun first_of :: "addr list \<Rightarrow> addr option \<Rightarrow> addr option" where
  "first_of [] q = q"
| "first_of (a # _) q = Some a"

fun last_of :: "addr option \<Rightarrow> addr list \<Rightarrow> addr option" where
  "last_of p [] = p"
| "last_of p (a # xs) = last_of (Some a) xs"

text \<open>
  \<open>segment h p ws q\<close>: the heap holds the waiters \<open>ws\<close> (address and registered waker) in this
  order, linked both ways, entered from \<open>p\<close> and left to \<open>q\<close>.
\<close>

fun segment ::
  "(addr \<rightharpoonup> sem_node) \<Rightarrow> addr option \<Rightarrow> (addr \<times> waker option) list \<Rightarrow> addr option \<Rightarrow> bool"
where
  "segment h p [] q \<longleftrightarrow> True"
| "segment h p ((a, w) # ws) q \<longleftrightarrow>
     h a = Some \<lparr>nd_waker = w, nd_next = first_of (map fst ws) q, nd_prev = p\<rparr> \<and>
     segment h (Some a) ws q"

definition linked :: "sem \<Rightarrow> (addr \<times> waker option) list \<Rightarrow> bool" where
  "linked s ws \<longleftrightarrow>
     distinct (map fst ws) \<and> segment (nodes s) None ws None \<and>
     head s = first_of (map fst ws) None \<and> tail s = last_of None (map fst ws)"

definition queue_repr :: "sem \<Rightarrow> (addr \<times> waker option) list \<Rightarrow> bool" where
  "queue_repr s ws \<longleftrightarrow> linked s ws \<and> dom (nodes s) = set (map fst ws)"

lemma last_of_append [simp]: "last_of p (xs @ ys) = last_of (last_of p xs) ys"
  by (induction xs arbitrary: p) auto

lemma first_of_append [simp]: "first_of (xs @ ys) q = first_of xs (first_of ys q)"
  by (cases xs) auto

lemma segment_append [simp]:
  "segment h p (xs @ ys) q \<longleftrightarrow>
     segment h p xs (first_of (map fst ys) q) \<and> segment h (last_of p (map fst xs)) ys q"
proof (induction xs arbitrary: p)
  case (Cons x xs)
  then show ?case by (cases x) simp
qed simp

lemma segment_upd [simp]:
  "a \<notin> set (map fst ws) \<Longrightarrow> segment (h(a := v)) p ws q = segment h p ws q"
proof (induction ws arbitrary: p)
  case (Cons x ws)
  then show ?case by (cases x) simp
qed simp

lemma last_of_eq_None [simp]: "last_of p xs = None \<longleftrightarrow> p = None \<and> xs = []"
  by (induction xs arbitrary: p) auto

lemma last_of_snoc: "xs \<noteq> [] \<Longrightarrow> last_of p xs = Some (last xs)"
  by (induction xs arbitrary: p rule: rev_induct) auto

lemma first_of_eq_None [simp]: "first_of xs q = None \<longleftrightarrow> xs = [] \<and> q = None"
  by (cases xs) auto


definition same_counts :: "sem \<Rightarrow> sem \<Rightarrow> bool" where
  "same_counts s s' \<longleftrightarrow>
     total_permits s' = total_permits s \<and> outstanding_permits s' = outstanding_permits s \<and>
     woken s' = woken s"

lemma dequeue_linked:
  assumes "linked s (xs @ (a, w) # ys)"
  shows "\<exists>s'. dequeue a s = Inr s' \<and> linked s' (xs @ ys) \<and>
           dom (nodes s') = dom (nodes s) \<and> same_counts s s'"
proof (cases xs rule: rev_cases)
  case xs: Nil
  show ?thesis
  proof (cases ys)
    case Nil
    with xs assms show ?thesis
      by (auto simp: linked_def dequeue_def deref_def set_node_def same_counts_def)
  next
    case (Cons n ys')
    with xs assms show ?thesis
      by (cases n) (auto simp: linked_def dequeue_def deref_def set_node_def same_counts_def)
  qed
next
  case xs: (snoc xs' p)
  show ?thesis
  proof (cases ys)
    case Nil
    with xs assms show ?thesis
      by (cases p) (auto simp: linked_def dequeue_def deref_def set_node_def same_counts_def)
  next
    case (Cons n ys')
    with xs assms show ?thesis
      by (cases p; cases n)
        (auto simp: linked_def dequeue_def deref_def set_node_def same_counts_def)
  qed
qed

lemma push_back_linked:
  assumes "linked s ws" and "a \<notin> set (map fst ws)"
    and "nodes s a = Some \<lparr>nd_waker = w, nd_next = None, nd_prev = None\<rparr>"
  shows "\<exists>s'. push_back a s = Inr s' \<and> linked s' (ws @ [(a, w)]) \<and>
           dom (nodes s') = dom (nodes s) \<and> same_counts s s'"
proof (cases ws rule: rev_cases)
  case Nil
  with assms show ?thesis
    by (auto simp: linked_def push_back_def deref_def same_counts_def)
next
  case (snoc ws' t)
  with assms show ?thesis
    by (cases t)
      (auto simp: linked_def push_back_def deref_def set_node_def same_counts_def)
qed

subsection \<open>The abstract semaphore\<close>

text \<open>
  What the component promises: a counter of granted permits, a total that can move freely and
  a plain first-in first-out list of waiters. No pointers, no failures.
\<close>

record asem =
  as_total :: usize
  as_out :: usize
  as_queue :: "(addr \<times> waker option) list"
  as_woken :: "waker list"

definition as_has :: "asem \<Rightarrow> bool" where
  "as_has t \<longleftrightarrow> as_out t < as_total t"

definition as_wake :: "asem \<Rightarrow> asem" where
  "as_wake t =
     (case as_queue t of
        (a, Some w) # ws \<Rightarrow>
          if as_has t then t\<lparr>as_queue := (a, None) # ws, as_woken := as_woken t @ [w]\<rparr> else t
      | _ \<Rightarrow> t)"

definition as_enqueue :: "addr \<Rightarrow> asem \<Rightarrow> asem" where
  "as_enqueue a t =
     (if a \<in> set (map fst (as_queue t)) then t
      else t\<lparr>as_queue := as_queue t @ [(a, None)]\<rparr>)"

definition as_register :: "addr \<Rightarrow> waker \<Rightarrow> asem \<Rightarrow> asem" where
  "as_register a w t =
     t\<lparr>as_queue := map (\<lambda>(b, v). (b, if b = a then Some w else v)) (as_queue t)\<rparr>"

definition as_poll :: "addr \<Rightarrow> waker \<Rightarrow> asem \<Rightarrow> unit poll \<times> asem" where
  "as_poll a w t =
     (if as_queue t = [] \<and> as_has t then (Ready (), t\<lparr>as_out := as_out t + 1\<rparr>)
      else
        let t1 = as_enqueue a t in
        if fst (hd (as_queue t1)) = a \<and> as_has t1 then
          (Ready (), as_wake (t1\<lparr>as_queue := tl (as_queue t1), as_out := as_out t1 + 1\<rparr>))
        else (Pending, as_register a w t1))"

definition as_drop :: "addr \<Rightarrow> asem \<Rightarrow> asem" where
  "as_drop a t =
     (if a \<notin> set (map fst (as_queue t)) then t
      else
        let t1 = t\<lparr>as_queue := filter (\<lambda>(b, v). b \<noteq> a) (as_queue t)\<rparr> in
        if fst (hd (as_queue t)) = a then as_wake t1 else t1)"

definition sem_counts :: "sem \<Rightarrow> asem \<Rightarrow> bool" where
  "sem_counts s t \<longleftrightarrow>
     total_permits s = as_total t \<and> outstanding_permits s = as_out t \<and> woken s = as_woken t"

definition sem_abs :: "sem \<Rightarrow> asem \<Rightarrow> bool" where
  "sem_abs s t \<longleftrightarrow> queue_repr s (as_queue t) \<and> sem_counts s t"

lemma has_permits_abs: "sem_counts s t \<Longrightarrow> has_permits s = as_has t"
  by (simp add: sem_counts_def has_permits_def as_has_def)

lemma linked_head: "linked s ws \<Longrightarrow> head s = first_of (map fst ws) None"
  by (simp add: linked_def)

lemma linked_distinct: "linked s ws \<Longrightarrow> distinct (map fst ws)"
  by (simp add: linked_def)

lemma linked_node:
  assumes "linked s (xs @ (a, w) # ys)"
  shows "nodes s a = Some \<lparr>nd_waker = w, nd_next = first_of (map fst ys) None,
                            nd_prev = last_of None (map fst xs)\<rparr>"
  using assms by (simp add: linked_def)

lemma linked_set_waker:
  assumes "linked s (xs @ (a, w) # ys)"
  shows "linked (set_node a \<lparr>nd_waker = v, nd_next = first_of (map fst ys) None,
                              nd_prev = last_of None (map fst xs)\<rparr> s) (xs @ (a, v) # ys)"
  using assms by (auto simp: linked_def set_node_def)

lemma linked_forget:
  "linked s ws \<Longrightarrow> a \<notin> set (map fst ws) \<Longrightarrow> linked (s\<lparr>nodes := (nodes s)(a := v)\<rparr>) ws"
  by (simp add: linked_def)

lemma linked_frame [simp]:
  "linked (s\<lparr>total_permits := x\<rparr>) ws = linked s ws"
  "linked (s\<lparr>outstanding_permits := y\<rparr>) ws = linked s ws"
  "linked (s\<lparr>woken := z\<rparr>) ws = linked s ws"
  by (simp_all add: linked_def)

lemma maybe_wake_linked:
  assumes "linked s (as_queue t)" and "sem_counts s t"
  shows "\<exists>s'. maybe_wake s = Inr s' \<and> linked s' (as_queue (as_wake t)) \<and>
           sem_counts s' (as_wake t) \<and> dom (nodes s') = dom (nodes s)"
proof (cases "as_queue t")
  case Nil
  with assms show ?thesis
    by (auto simp: maybe_wake_def as_wake_def linked_def)
next
  case (Cons aw ws)
  obtain a v where aw: "aw = (a, v)" by (cases aw)
  from assms(1) Cons aw have l: "linked s ([] @ (a, v) # ws)" by simp
  from linked_node [OF l] linked_head [OF l] Cons aw assms linked_set_waker [OF l, of None]
  show ?thesis
    by (cases v)
      (auto simp: maybe_wake_def as_wake_def deref_def has_permits_abs [OF assms(2)]
        set_node_def sem_counts_def as_has_def)
qed

lemma as_wake_queue [simp]: "map fst (as_queue (as_wake t)) = map fst (as_queue t)"
  by (auto simp: as_wake_def split: list.splits option.splits)

lemma as_wake_counts [simp]: "as_total (as_wake t) = as_total t" "as_out (as_wake t) = as_out t"
  by (auto simp: as_wake_def split: list.splits option.splits)

lemma as_enqueue_counts [simp]:
  "as_total (as_enqueue a t) = as_total t" "as_out (as_enqueue a t) = as_out t"
  by (simp_all add: as_enqueue_def)

lemma as_register_counts [simp]:
  "as_total (as_register a w t) = as_total t" "as_out (as_register a w t) = as_out t"
  by (simp_all add: as_register_def)

lemma as_poll_counts:
  "as_total (snd (as_poll a w t)) = as_total t"
  "as_out (snd (as_poll a w t)) =
     (case fst (as_poll a w t) of Ready _ \<Rightarrow> as_out t + 1 | Pending \<Rightarrow> as_out t)"
  by (simp_all add: as_poll_def Let_def)

lemma node_iff_queued: "sem_abs s t \<Longrightarrow> nodes s a = None \<longleftrightarrow> a \<notin> set (map fst (as_queue t))"
  by (auto simp: sem_abs_def queue_repr_def domIff)

lemma enqueue_refines:
  assumes "sem_abs s t"
  shows "\<exists>s1. (case nodes s a of Some nd \<Rightarrow> Inr s
               | None \<Rightarrow> push_back a
                   (set_node a \<lparr>nd_waker = None, nd_next = None, nd_prev = None\<rparr> s)) = Inr s1 \<and>
              sem_abs s1 (as_enqueue a t)"
proof (cases "nodes s a")
  case None
  let ?s = "set_node a \<lparr>nd_waker = None, nd_next = None, nd_prev = None\<rparr> s"
  from None assms have a: "a \<notin> set (map fst (as_queue t))"
    using node_iff_queued by blast
  with assms have l: "linked ?s (as_queue t)"
    by (auto simp: set_node_def sem_abs_def queue_repr_def linked_def)
  obtain s1 where "push_back a ?s = Inr s1" "linked s1 (as_queue t @ [(a, None)])"
    "dom (nodes s1) = dom (nodes ?s)" "same_counts ?s s1"
    using push_back_linked [OF l a] by (auto simp: set_node_def)
  with None a assms show ?thesis
    by (auto simp: as_enqueue_def sem_abs_def queue_repr_def same_counts_def sem_counts_def
        set_node_def)
next
  case (Some nd)
  with assms show ?thesis
    using node_iff_queued [OF assms, of a] by (auto simp: as_enqueue_def)
qed

lemma queued_split:
  assumes "a \<in> set (map fst ws)"
  obtains xs v ys where "ws = xs @ (a, v) # ys"
  using assms by (auto simp: in_set_conv_decomp)

lemma as_enqueue_queued: "a \<in> set (map fst (as_queue (as_enqueue a t)))"
  by (simp add: as_enqueue_def)

lemma hd_split_iff:
  "distinct (map fst (xs @ (a, v) # ys)) \<Longrightarrow> fst (hd (xs @ (a, v) # ys)) = a \<longleftrightarrow> xs = []"
  by (cases xs) auto

lemma take_permit_refines:
  assumes "sem_abs s t" and "as_queue t = (a, v) # ys"
  shows "\<exists>s2 s3. dequeue a s = Inr s2 \<and>
           maybe_wake (s2\<lparr>nodes := (nodes s2)(a := None),
             outstanding_permits := outstanding_permits s2 + 1\<rparr>) = Inr s3 \<and>
           sem_abs s3 (as_wake (t\<lparr>as_queue := ys, as_out := as_out t + 1\<rparr>))"
proof -
  from assms have l: "linked s ([] @ (a, v) # ys)"
    by (simp add: sem_abs_def queue_repr_def)
  obtain s2 where s2: "dequeue a s = Inr s2" "linked s2 ys" "dom (nodes s2) = dom (nodes s)"
    "same_counts s s2"
    using dequeue_linked [OF l] by auto
  let ?u = "s2\<lparr>nodes := (nodes s2)(a := None), outstanding_permits := outstanding_permits s2 + 1\<rparr>"
  let ?t = "t\<lparr>as_queue := ys, as_out := as_out t + 1\<rparr>"
  have a: "a \<notin> set (map fst ys)" using linked_distinct [OF l] by simp
  from s2 a have "linked ?u (as_queue ?t)"
    using linked_forget [OF s2(2) a, of None] by (simp add: linked_def)
  moreover from s2 assms have "sem_counts ?u ?t"
    by (auto simp: sem_counts_def same_counts_def sem_abs_def)
  ultimately obtain s3 where s3: "maybe_wake ?u = Inr s3" "linked s3 (as_queue (as_wake ?t))"
    "sem_counts s3 (as_wake ?t)" "dom (nodes s3) = dom (nodes ?u)"
    using maybe_wake_linked [of ?u ?t] by auto
  from s3 s2 assms a have "sem_abs s3 (as_wake ?t)"
    by (auto simp: sem_abs_def queue_repr_def simp flip: set_map)
  with s2 s3 show ?thesis by blast
qed

lemma register_others:
  "a \<notin> fst ` set xs \<Longrightarrow> map (\<lambda>(b, v). (b, if b = a then Some w else v)) xs = xs"
  by (rule map_idI) force

lemma register_refines:
  assumes "sem_abs s t" and "as_queue t = xs @ (a, v) # ys" and "nodes s a = Some nd"
  shows "sem_abs (if \<not> will_wake (nd_waker nd) w then set_node a (nd\<lparr>nd_waker := Some w\<rparr>) s else s)
           (as_register a w t)"
proof -
  from assms have l: "linked s (xs @ (a, v) # ys)"
    by (simp add: sem_abs_def queue_repr_def)
  have nd: "nd = \<lparr>nd_waker = v, nd_next = first_of (map fst ys) None,
                  nd_prev = last_of None (map fst xs)\<rparr>"
    using linked_node [OF l] assms(3) by simp
  have q: "as_queue (as_register a w t) = xs @ (a, Some w) # ys"
    using linked_distinct [OF l] assms(2) by (simp add: as_register_def register_others)
  show ?thesis
    using linked_set_waker [OF l, of "Some w"] assms(1,2) l q
    by (auto simp: nd will_wake_def sem_abs_def queue_repr_def sem_counts_def as_register_def
        set_node_def)
qed

lemma acquire_poll_refines_abs:
  assumes "sem_abs s t"
  shows "\<exists>s'. acquire_poll a w s = Inr (fst (as_poll a w t), s') \<and>
           sem_abs s' (snd (as_poll a w t))"
proof (cases "as_queue t = [] \<and> as_has t")
  case True
  with assms show ?thesis
    by (auto simp: acquire_poll_def as_poll_def sem_abs_def queue_repr_def sem_counts_def
        has_permits_def as_has_def linked_def)
next
  case False
  have fast: "\<not> (head s = None \<and> has_permits s)"
    using False assms
    by (auto simp: sem_abs_def queue_repr_def linked_def has_permits_def as_has_def sem_counts_def)
  obtain s1 where s1: "(case nodes s a of Some nd \<Rightarrow> Inr s
               | None \<Rightarrow> push_back a
                   (set_node a \<lparr>nd_waker = None, nd_next = None, nd_prev = None\<rparr> s)) = Inr s1"
    and abs1: "sem_abs s1 (as_enqueue a t)"
    using enqueue_refines [OF assms] by blast
  let ?t = "as_enqueue a t"
  obtain xs v ys where q: "as_queue ?t = xs @ (a, v) # ys"
    using queued_split [OF as_enqueue_queued] .
  from abs1 q have l: "linked s1 (xs @ (a, v) # ys)" by (simp add: sem_abs_def queue_repr_def)
  note nd = linked_node [OF l]
  have hp: "has_permits s1 = as_has ?t"
    using abs1 has_permits_abs by (auto simp: sem_abs_def)
  show ?thesis
  proof (cases "xs = [] \<and> as_has ?t")
    case True
    then obtain s2 s3 where "dequeue a s1 = Inr s2"
      "maybe_wake (s2\<lparr>nodes := (nodes s2)(a := None),
             outstanding_permits := outstanding_permits s2 + 1\<rparr>) = Inr s3"
      "sem_abs s3 (as_wake (?t\<lparr>as_queue := ys, as_out := as_out ?t + 1\<rparr>))"
      using take_permit_refines [OF abs1] q by auto
    with True fast False s1 nd hp q show ?thesis
      by (auto simp: acquire_poll_def as_poll_def deref_def Let_def)
  next
    case neg: False
    have "\<not> (fst (hd (as_queue ?t)) = a \<and> as_has ?t)"
      using neg hd_split_iff linked_distinct [OF l] q by metis
    with False have p: "as_poll a w t = (Pending, as_register a w ?t)"
      by (simp add: as_poll_def Let_def)
    show ?thesis
      using register_refines [OF abs1 q nd, of w] neg fast s1 nd hp p
      by (auto simp: acquire_poll_def deref_def)
  qed
qed

lemma filter_others: "a \<notin> fst ` set xs \<Longrightarrow> filter (\<lambda>(b, v). b \<noteq> a) xs = xs"
  by (rule filter_True) force

lemma as_drop_split:
  assumes "distinct (map fst (xs @ (a, v) # ys))"
  shows "filter (\<lambda>(b, v). b \<noteq> a) (xs @ (a, v) # ys) = xs @ ys"
  using assms by (simp add: filter_others)

lemma acquire_drop_refines_abs:
  assumes "sem_abs s t"
  shows "\<exists>s'. acquire_drop a s = Inr s' \<and> sem_abs s' (as_drop a t)"
proof (cases "a \<in> set (map fst (as_queue t))")
  case False
  with assms show ?thesis
    using node_iff_queued [OF assms, of a] by (auto simp: acquire_drop_def as_drop_def)
next
  case True
  then obtain xs v ys where q: "as_queue t = xs @ (a, v) # ys" by (rule queued_split)
  from assms q have l: "linked s (xs @ (a, v) # ys)" and c: "sem_counts s t"
    and d: "dom (nodes s) = set (map fst (xs @ (a, v) # ys))"
    by (auto simp: sem_abs_def queue_repr_def)
  note dist = linked_distinct [OF l]
  obtain s1 where s1: "dequeue a s = Inr s1" "linked s1 (xs @ ys)" "dom (nodes s1) = dom (nodes s)"
    "same_counts s s1"
    using dequeue_linked [OF l] by auto
  let ?t = "t\<lparr>as_queue := xs @ ys\<rparr>"
  have drop: "as_drop a t = (if xs = [] then as_wake ?t else ?t)"
    unfolding as_drop_def Let_def
    using True dist q by (simp only: as_drop_split [OF dist] hd_split_iff [OF dist] q) simp
  have c1: "sem_counts s1 ?t" using s1 c by (auto simp: sem_counts_def same_counts_def)
  have "\<exists>s2. (if xs = [] then maybe_wake s1 else Inr s1) = Inr s2 \<and>
          linked s2 (as_queue (as_drop a t)) \<and> sem_counts s2 (as_drop a t) \<and>
          dom (nodes s2) = dom (nodes s1)"
    using maybe_wake_linked [of s1 ?t] s1 c1 drop by auto
  then obtain s2 where s2: "(if xs = [] then maybe_wake s1 else Inr s1) = Inr s2"
    "linked s2 (as_queue (as_drop a t))" "sem_counts s2 (as_drop a t)"
    "dom (nodes s2) = dom (nodes s1)" by blast
  have m: "map fst (as_queue (as_drop a t)) = map fst (xs @ ys)" using drop by auto
  with dist have a: "a \<notin> set (map fst (as_queue (as_drop a t)))" by simp
  let ?s3 = "s2\<lparr>nodes := (nodes s2)(a := None)\<rparr>"
  have "sem_abs ?s3 (as_drop a t)"
    using linked_forget [OF s2(2) a] s2 s1 d m dist
    by (auto simp: sem_abs_def queue_repr_def sem_counts_def simp flip: set_map)
  moreover have "acquire_drop a s = Inr ?s3"
    using linked_node [OF l] s1 s2(1) by (auto simp: acquire_drop_def split: if_splits)
  ultimately show ?thesis by blast
qed

lemma wake_refines_abs:
  assumes "sem_abs s t"
  shows "\<exists>s'. maybe_wake s = Inr s' \<and> sem_abs s' (as_wake t)"
  using maybe_wake_linked [of s t] assms by (auto simp: sem_abs_def queue_repr_def simp flip: set_map)

lemma sem_abs_total:
  "sem_abs s t \<Longrightarrow> sem_abs (s\<lparr>total_permits := n\<rparr>) (t\<lparr>as_total := n\<rparr>)"
  by (simp add: sem_abs_def queue_repr_def sem_counts_def)

lemma sem_abs_out:
  "sem_abs s t \<Longrightarrow> sem_abs (s\<lparr>outstanding_permits := n\<rparr>) (t\<lparr>as_out := n\<rparr>)"
  by (simp add: sem_abs_def queue_repr_def sem_counts_def)

lemma add_permits_refines_abs:
  assumes "sem_abs s t" and "unat (as_total t) + unat n < 2 ^ 64"
  shows "\<exists>s'. add_permits n s = Inr s' \<and>
           sem_abs s' (as_wake (t\<lparr>as_total := as_total t + n\<rparr>))"
  using wake_refines_abs [OF sem_abs_total [OF assms(1)], of "as_total t + n"] assms
  by (auto simp: add_permits_def checked_add_def sem_abs_def sem_counts_def)

lemma remove_permits_refines_abs:
  assumes "sem_abs s t" and "n \<le> as_total t"
  shows "\<exists>s'. remove_permits n s = Inr s' \<and> sem_abs s' (t\<lparr>as_total := as_total t - n\<rparr>)"
  using sem_abs_total [OF assms(1)] assms
  by (auto simp: remove_permits_def checked_sub_def sem_abs_def sem_counts_def)

lemma permit_drop_refines_abs:
  assumes "sem_abs s t" and "0 < as_out t"
  shows "\<exists>s'. permit_drop s = Inr s' \<and> sem_abs s' (as_wake (t\<lparr>as_out := as_out t - 1\<rparr>))"
proof -
  have "checked_sub (outstanding_permits s) 1 = Some (as_out t - 1)"
    using assms by (auto simp: checked_sub_def sem_abs_def sem_counts_def word_gt_0_no
        word_le_nat_alt word_less_nat_alt)
  then show ?thesis
    using wake_refines_abs [OF sem_abs_out [OF assms(1)], of "as_out t - 1"]
    by (simp add: permit_drop_def)
qed

lemma sem_new_refines_abs:
  "sem_abs (sem_new n) \<lparr>as_total = n, as_out = 0, as_queue = [], as_woken = []\<rparr>"
  by (simp add: sem_abs_def queue_repr_def linked_def sem_counts_def sem_new_def)

end
