(* ===== verification/SemaphoreSystem.thy ===== *)
theory SemaphoreSystem
  imports Semaphore
begin

text \<open>
  The semaphore of \<^verbatim>\<open>deficit_semaphore.rs\<close> in use: any number of \<^verbatim>\<open>Acquire\<close> futures polled
  and dropped in any order, permits released in any order and the total adjusted at any time.
  Every method of the source takes the lock for its whole body, so one step is one method call.

  Next to the semaphore the system keeps what the callers hold and when they came: the number
  of live \<^verbatim>\<open>Permit\<close> values, a clock, the time each queued future was first polled, and the
  waker each future registered last together with the length of the wake log at that moment.
\<close>

record sem_sys =
  sys_sem :: sem
  sys_live :: nat
  sys_clock :: nat
  sys_arrival :: "addr \<Rightarrow> nat"
  sys_reg :: "addr \<rightharpoonup> waker \<times> nat"

datatype sem_event =
    EvGrant addr
  | EvWait addr waker
  | EvCancel addr
  | EvRelease
  | EvAdd usize
  | EvRemove usize

definition sys_init :: "usize \<Rightarrow> sem_sys" where
  "sys_init n =
     \<lparr>sys_sem = sem_new n, sys_live = 0, sys_clock = 0, sys_arrival = (\<lambda>_. 0),
      sys_reg = Map.empty\<rparr>"

inductive sem_step :: "sem_sys \<Rightarrow> sem_event \<Rightarrow> sem_sys \<Rightarrow> bool" where
  grant: "acquire_poll a w (sys_sem \<sigma>) = Inr (Ready (), s') \<Longrightarrow>
     sem_step \<sigma> (EvGrant a) (\<sigma>\<lparr>sys_sem := s', sys_live := sys_live \<sigma> + 1\<rparr>)"
| wait: "acquire_poll a w (sys_sem \<sigma>) = Inr (Pending, s') \<Longrightarrow>
     sem_step \<sigma> (EvWait a w)
       (\<sigma>\<lparr>sys_sem := s', sys_clock := sys_clock \<sigma> + 1,
          sys_arrival :=
            (if nodes (sys_sem \<sigma>) a = None then (sys_arrival \<sigma>)(a := sys_clock \<sigma>)
             else sys_arrival \<sigma>),
          sys_reg := (sys_reg \<sigma>)(a \<mapsto> (w, length (woken s')))\<rparr>)"
| cancel: "acquire_drop a (sys_sem \<sigma>) = Inr s' \<Longrightarrow>
     sem_step \<sigma> (EvCancel a) (\<sigma>\<lparr>sys_sem := s'\<rparr>)"
| release: "0 < sys_live \<sigma> \<Longrightarrow> permit_drop (sys_sem \<sigma>) = Inr s' \<Longrightarrow>
     sem_step \<sigma> EvRelease (\<sigma>\<lparr>sys_sem := s', sys_live := sys_live \<sigma> - 1\<rparr>)"
| add: "add_permits n (sys_sem \<sigma>) = Inr s' \<Longrightarrow>
     sem_step \<sigma> (EvAdd n) (\<sigma>\<lparr>sys_sem := s'\<rparr>)"
| remove: "remove_permits n (sys_sem \<sigma>) = Inr s' \<Longrightarrow>
     sem_step \<sigma> (EvRemove n) (\<sigma>\<lparr>sys_sem := s'\<rparr>)"

inductive_cases grantE: "sem_step \<sigma> (EvGrant a) \<sigma>'"

inductive sem_reachable :: "usize \<Rightarrow> sem_sys \<Rightarrow> bool" for n :: usize where
  sem_reach_init: "sem_reachable n (sys_init n)"
| sem_reach_step: "sem_reachable n \<sigma> \<Longrightarrow> sem_step \<sigma> e \<sigma>' \<Longrightarrow> sem_reachable n \<sigma>'"

subsection \<open>The invariant\<close>

definition woken_ok :: "(addr \<rightharpoonup> waker \<times> nat) \<Rightarrow> asem \<Rightarrow> bool" where
  "woken_ok reg t \<longleftrightarrow>
     (\<forall>(a, v) \<in> set (as_queue t). \<exists>w k. reg a = Some (w, k) \<and> k \<le> length (as_woken t) \<and>
        (v = Some w \<or> v = None \<and> w \<in> set (drop k (as_woken t))))"

definition head_ok :: "asem \<Rightarrow> bool" where
  "head_ok t \<longleftrightarrow> (as_has t \<and> as_queue t \<noteq> [] \<longrightarrow> snd (hd (as_queue t)) = None)"

definition order_ok :: "(addr \<Rightarrow> nat) \<Rightarrow> nat \<Rightarrow> asem \<Rightarrow> bool" where
  "order_ok arr clock t \<longleftrightarrow>
     sorted_wrt (<) (map (arr \<circ> fst) (as_queue t)) \<and> (\<forall>a \<in> set (map fst (as_queue t)). arr a < clock)"

definition sys_inv :: "sem_sys \<Rightarrow> asem \<Rightarrow> bool" where
  "sys_inv \<sigma> t \<longleftrightarrow>
     sem_abs (sys_sem \<sigma>) t \<and> unat (as_out t) = sys_live \<sigma> \<and> head_ok t \<and>
     order_ok (sys_arrival \<sigma>) (sys_clock \<sigma>) t \<and> woken_ok (sys_reg \<sigma>) t"

lemma head_ok_wake [simp]: "head_ok (as_wake t)"
  by (auto simp: head_ok_def as_wake_def as_has_def split: list.splits option.splits)

lemma order_ok_fst: "order_ok arr clock t \<longleftrightarrow>
    sorted_wrt (<) (map arr (map fst (as_queue t))) \<and> (\<forall>a \<in> set (map fst (as_queue t)). arr a < clock)"
  by (simp add: order_ok_def)

lemma order_ok_cong:
  "map fst (as_queue t) = map fst (as_queue t') \<Longrightarrow> order_ok arr clock t = order_ok arr clock t'"
  by (simp only: order_ok_fst)

lemma order_ok_wake [simp]: "order_ok arr clock (as_wake t) = order_ok arr clock t"
  by (rule order_ok_cong) simp

lemma woken_ok_wake:
  assumes "woken_ok reg t"
  shows "woken_ok reg (as_wake t)"
proof (cases "as_wake t = t")
  case False
  then obtain a w ws where q: "as_queue t = (a, Some w) # ws" and
    t: "as_wake t = t\<lparr>as_queue := (a, None) # ws, as_woken := as_woken t @ [w]\<rparr>"
    by (auto simp: as_wake_def split: list.splits option.splits if_splits)
  show ?thesis
    using assms unfolding t woken_ok_def q
    by (fastforce simp: less_Suc_eq_le split: prod.splits)
qed (use assms in simp)

lemma woken_ok_sub:
  "woken_ok reg t \<Longrightarrow> set (as_queue t') \<subseteq> set (as_queue t) \<Longrightarrow> as_woken t' = as_woken t \<Longrightarrow>
   woken_ok reg t'"
  by (auto simp: woken_ok_def)

subsection \<open>Every step keeps the invariant\<close>

lemma order_ok_tl:
  "order_ok arr clock t \<Longrightarrow> as_queue t = x # ws \<Longrightarrow> as_queue t' = ws \<Longrightarrow> order_ok arr clock t'"
  by (auto simp: order_ok_def)

lemma order_ok_filter:
  "order_ok arr clock t \<Longrightarrow> as_queue t' = filter P (as_queue t) \<Longrightarrow> order_ok arr clock t'"
  by (auto simp: order_ok_def sorted_wrt_map sorted_wrt_filter)

lemma as_poll_ReadyD:
  assumes "as_poll a w t = (Ready (), t')"
  shows "as_has t \<and> (as_queue t = [] \<and> t' = t\<lparr>as_out := as_out t + 1\<rparr> \<or>
     (\<exists>v ws. as_queue t = (a, v) # ws \<and> t' = as_wake (t\<lparr>as_queue := ws, as_out := as_out t + 1\<rparr>)))"
proof (cases "as_queue t")
  case Nil
  with assms show ?thesis
    by (auto simp: as_poll_def as_enqueue_def as_has_def Let_def split: if_splits)
next
  case (Cons x ws)
  with assms show ?thesis
    by (cases x) (auto simp: as_poll_def as_enqueue_def as_has_def Let_def split: if_splits)
qed

lemma grant_inv:
  assumes "sys_inv \<sigma> t" and "acquire_poll a w (sys_sem \<sigma>) = Inr (Ready (), s')"
  shows "\<exists>t'. sys_inv (\<sigma>\<lparr>sys_sem := s', sys_live := sys_live \<sigma> + 1\<rparr>) t'"
proof -
  from assms(1) have abs: "sem_abs (sys_sem \<sigma>) t" by (simp add: sys_inv_def)
  obtain t' where t': "as_poll a w t = (Ready (), t')" and abs': "sem_abs s' t'"
    using acquire_poll_refines_abs [OF abs, of a w] assms(2)
    by (cases "as_poll a w t") auto
  note r = as_poll_ReadyD [OF t']
  have "unat (as_out t + 1) = unat (as_out t) + 1"
    using r unat_succ_less by (auto simp: as_has_def)
  moreover have "head_ok t'" "order_ok (sys_arrival \<sigma>) (sys_clock \<sigma>) t'" "woken_ok (sys_reg \<sigma>) t'"
    using r assms(1)
    by (auto simp: sys_inv_def intro!: woken_ok_wake elim: order_ok_tl woken_ok_sub)
      (auto simp: head_ok_def order_ok_def woken_ok_def)
  ultimately have "sys_inv (\<sigma>\<lparr>sys_sem := s', sys_live := sys_live \<sigma> + 1\<rparr>) t'"
    using r assms(1) abs' by (auto simp: sys_inv_def)
  then show ?thesis ..
qed

lemma as_poll_PendingD:
  assumes "as_poll a w t = (Pending, t')"
  shows "t' = as_register a w (as_enqueue a t) \<and>
    \<not> (as_has t \<and> (as_queue t = [] \<or> fst (hd (as_queue t)) = a))"
  using assms
  by (cases "as_queue t") (auto simp: as_poll_def as_enqueue_def as_has_def Let_def split: if_splits)

lemma as_register_fst [simp]: "map fst (as_queue (as_register a w t)) = map fst (as_queue t)"
  by (auto simp: as_register_def)

lemma as_enqueue_simps [simp]:
  "as_total (as_enqueue a t) = as_total t" "as_out (as_enqueue a t) = as_out t"
  "as_woken (as_enqueue a t) = as_woken t" "as_has (as_enqueue a t) = as_has t"
  by (simp_all add: as_enqueue_def as_has_def)

lemma as_register_simps [simp]:
  "as_total (as_register a w t) = as_total t" "as_out (as_register a w t) = as_out t"
  "as_woken (as_register a w t) = as_woken t" "as_has (as_register a w t) = as_has t"
  by (simp_all add: as_register_def as_has_def)

lemma woken_ok_register:
  assumes "woken_ok reg t"
  shows "woken_ok (reg(a \<mapsto> (w, length (as_woken t)))) (as_register a w (as_enqueue a t))"
  using assms
  by (fastforce simp: woken_ok_def as_register_def as_enqueue_def split: if_splits)

lemma order_ok_enqueue:
  assumes "order_ok arr clock t"
  shows "order_ok (if a \<in> set (map fst (as_queue t)) then arr else arr(a := clock)) (Suc clock)
           (as_register a w (as_enqueue a t))"
proof -
  have "sorted_wrt (<) (map (arr(a := clock)) (map fst (as_queue t) @ [a]))"
    if "a \<notin> set (map fst (as_queue t))"
  proof -
    have eq: "map (arr(a := clock)) (map fst (as_queue t)) = map arr (map fst (as_queue t))"
      using that by (intro map_cong) auto
    show ?thesis
      using assms that
      by (simp only: order_ok_fst sorted_wrt_append map_append eq) auto
  qed
  with assms show ?thesis
    by (auto simp: order_ok_fst as_enqueue_def less_Suc_eq)
qed

lemma head_ok_register:
  assumes "head_ok t" and "\<not> (as_has t \<and> (as_queue t = [] \<or> fst (hd (as_queue t)) = a))"
  shows "head_ok (as_register a w (as_enqueue a t))"
  using assms
  by (cases "as_queue t") (auto simp: head_ok_def as_register_def as_enqueue_def as_has_def)

lemma wait_inv:
  assumes "sys_inv \<sigma> t" and "acquire_poll a w (sys_sem \<sigma>) = Inr (Pending, s')"
  shows "\<exists>t'. sys_inv (\<sigma>\<lparr>sys_sem := s', sys_clock := sys_clock \<sigma> + 1,
          sys_arrival := (if nodes (sys_sem \<sigma>) a = None then (sys_arrival \<sigma>)(a := sys_clock \<sigma>)
             else sys_arrival \<sigma>),
          sys_reg := (sys_reg \<sigma>)(a \<mapsto> (w, length (woken s')))\<rparr>) t'"
proof -
  from assms(1) have abs: "sem_abs (sys_sem \<sigma>) t" by (simp add: sys_inv_def)
  obtain t' where t': "as_poll a w t = (Pending, t')" and abs': "sem_abs s' t'"
    using acquire_poll_refines_abs [OF abs, of a w] assms(2)
    by (cases "as_poll a w t") auto
  note p = as_poll_PendingD [OF t']
  have w: "woken s' = as_woken t" using abs' p by (simp add: sem_abs_def sem_counts_def)
  show ?thesis
    using assms(1) abs' p w
      order_ok_enqueue [of "sys_arrival \<sigma>" "sys_clock \<sigma>" t a w]
      head_ok_register [of t a w] woken_ok_register [of "sys_reg \<sigma>" t a w]
      node_iff_queued [OF abs, of a]
    by (intro exI [of _ t']) (auto simp: sys_inv_def split: if_splits)
qed

lemma cancel_inv:
  assumes "sys_inv \<sigma> t" and "acquire_drop a (sys_sem \<sigma>) = Inr s'"
  shows "sys_inv (\<sigma>\<lparr>sys_sem := s'\<rparr>) (as_drop a t)"
proof -
  have abs': "sem_abs s' (as_drop a t)"
    using acquire_drop_refines_abs [of "sys_sem \<sigma>" t a] assms by (auto simp: sys_inv_def)
  let ?t = "t\<lparr>as_queue := filter (\<lambda>(b, v). b \<noteq> a) (as_queue t)\<rparr>"
  have o: "order_ok (sys_arrival \<sigma>) (sys_clock \<sigma>) ?t" and w: "woken_ok (sys_reg \<sigma>) ?t"
    using assms(1)
    by (auto simp: sys_inv_def elim: woken_ok_sub intro: order_ok_filter [of _ _ t])
  have h: "head_ok ?t" if "fst (hd (as_queue t)) \<noteq> a"
    using assms(1) that
    by (cases "as_queue t") (auto simp: sys_inv_def head_ok_def as_has_def)
  show ?thesis
    using abs' o w h assms(1)
    by (auto simp: sys_inv_def as_drop_def Let_def intro: woken_ok_wake)
qed

lemma wake_step_inv:
  assumes "sys_inv \<sigma> t" and "sem_abs s' (as_wake t')" and "unat (as_out t') = live"
    and "as_queue t' = as_queue t" and "as_woken t' = as_woken t"
  shows "sys_inv (\<sigma>\<lparr>sys_sem := s', sys_live := live\<rparr>) (as_wake t')"
  using assms woken_ok_sub [of "sys_reg \<sigma>" t t'] order_ok_cong [of t t']
  by (auto simp: sys_inv_def intro!: woken_ok_wake)

lemma release_inv:
  assumes "sys_inv \<sigma> t" and "0 < sys_live \<sigma>" and "permit_drop (sys_sem \<sigma>) = Inr s'"
  shows "\<exists>t'. sys_inv (\<sigma>\<lparr>sys_sem := s', sys_live := sys_live \<sigma> - 1\<rparr>) t'"
proof -
  have pos: "0 < as_out t"
    using assms(1,2) by (simp add: sys_inv_def word_less_nat_alt)
  have "sem_abs s' (as_wake (t\<lparr>as_out := as_out t - 1\<rparr>))"
    using permit_drop_refines_abs [OF _ pos, of "sys_sem \<sigma>"] assms by (auto simp: sys_inv_def)
  moreover have "unat (as_out t - 1) = sys_live \<sigma> - 1"
    using unat_pred [of "as_out t"] pos assms(1) by (auto simp: sys_inv_def)
  ultimately show ?thesis
    using wake_step_inv [OF assms(1), of s' "t\<lparr>as_out := as_out t - 1\<rparr>"] by auto
qed

lemma add_inv:
  assumes "sys_inv \<sigma> t" and "add_permits n (sys_sem \<sigma>) = Inr s'"
  shows "\<exists>t'. sys_inv (\<sigma>\<lparr>sys_sem := s'\<rparr>) t'"
proof -
  have abs: "sem_abs (sys_sem \<sigma>) t" using assms by (simp add: sys_inv_def)
  then have "unat (as_total t) + unat n < 2 ^ 64"
    using assms(2)
    by (auto simp: add_permits_def checked_add_def sem_abs_def sem_counts_def split: if_splits)
  from add_permits_refines_abs [OF abs this] assms(2)
  have "sem_abs s' (as_wake (t\<lparr>as_total := as_total t + n\<rparr>))" by auto
  then show ?thesis
    using wake_step_inv [OF assms(1), of s' "t\<lparr>as_total := as_total t + n\<rparr>" "sys_live \<sigma>"] assms(1)
    by (auto simp: sys_inv_def)
qed

lemma remove_inv:
  assumes "sys_inv \<sigma> t" and "remove_permits n (sys_sem \<sigma>) = Inr s'"
  shows "\<exists>t'. sys_inv (\<sigma>\<lparr>sys_sem := s'\<rparr>) t'"
proof -
  have abs: "sem_abs (sys_sem \<sigma>) t" using assms by (simp add: sys_inv_def)
  then have le: "n \<le> as_total t"
    using assms(2)
    by (auto simp: remove_permits_def checked_sub_def sem_abs_def sem_counts_def split: if_splits)
  from remove_permits_refines_abs [OF abs this] assms(2)
  have "sem_abs s' (t\<lparr>as_total := as_total t - n\<rparr>)" by auto
  moreover have "as_total t - n \<le> as_total t" using le by (rule word_sub_le)
  ultimately show ?thesis
    using assms(1)
    by (intro exI [of _ "t\<lparr>as_total := as_total t - n\<rparr>"])
      (auto simp: sys_inv_def head_ok_def as_has_def order_ok_def woken_ok_def)
qed

lemma sem_step_inv: "sem_step \<sigma> e \<sigma>' \<Longrightarrow> sys_inv \<sigma> t \<Longrightarrow> \<exists>t'. sys_inv \<sigma>' t'"
proof (induction rule: sem_step.induct)
  case (grant a w \<sigma> s')
  then show ?case by (blast intro: grant_inv)
next
  case (wait a w \<sigma> s')
  then show ?case using wait_inv by blast
next
  case (cancel a \<sigma> s')
  then show ?case by (blast intro: cancel_inv)
next
  case (release \<sigma> s')
  then show ?case by (blast intro: release_inv)
next
  case (add n \<sigma> s')
  then show ?case by (blast intro: add_inv)
next
  case (remove n \<sigma> s')
  then show ?case by (blast intro: remove_inv)
qed

lemma sys_inv_init:
  "sys_inv (sys_init n) \<lparr>as_total = n, as_out = 0, as_queue = [], as_woken = []\<rparr>"
  using sem_new_refines_abs
  by (simp add: sys_inv_def sys_init_def head_ok_def order_ok_def woken_ok_def)

lemma sem_reachable_inv: "sem_reachable n \<sigma> \<Longrightarrow> \<exists>t. sys_inv \<sigma> t"
  by (induction rule: sem_reachable.induct) (blast intro: sys_inv_init sem_step_inv)+

subsection \<open>A run with two waiters\<close>

text \<open>
  One permit: future 5 takes it, futures 6 and 7 queue behind it, the permit is released and
  future 6 is woken. This run witnesses the hypotheses of the theorems below.
\<close>

definition demo_sem :: sem where
  "demo_sem =
     \<lparr>total_permits = 1, outstanding_permits = 0, head = Some 6, tail = Some 7,
      nodes = [6 \<mapsto> \<lparr>nd_waker = None, nd_next = Some 7, nd_prev = None\<rparr>,
               7 \<mapsto> \<lparr>nd_waker = Some 12, nd_next = None, nd_prev = Some 6\<rparr>],
      woken = [11]\<rparr>"

definition demo_sys :: sem_sys where
  "demo_sys =
     \<lparr>sys_sem = demo_sem, sys_live = 0, sys_clock = 2,
      sys_arrival = (\<lambda>_. 0)(6 := 0, 7 := 1), sys_reg = [6 \<mapsto> (11, 0), 7 \<mapsto> (12, 0)]\<rparr>"

definition demo_waiting :: "addr list \<Rightarrow> sem" where
  "demo_waiting as =
     \<lparr>total_permits = 1, outstanding_permits = 1, head = first_of as None, tail = last_of None as,
      nodes = (if as = [] then Map.empty
               else if as = [6] then [6 \<mapsto> \<lparr>nd_waker = Some 11, nd_next = None, nd_prev = None\<rparr>]
               else [6 \<mapsto> \<lparr>nd_waker = Some 11, nd_next = Some 7, nd_prev = None\<rparr>,
                     7 \<mapsto> \<lparr>nd_waker = Some 12, nd_next = None, nd_prev = Some 6\<rparr>]),
      woken = []\<rparr>"

lemma demo_polls:
  "acquire_poll 5 10 (sem_new 1) = Inr (Ready (), demo_waiting [])"
  "acquire_poll 6 11 (demo_waiting []) = Inr (Pending, demo_waiting [6])"
  "acquire_poll 7 12 (demo_waiting [6]) = Inr (Pending, demo_waiting [6, 7])"
  "permit_drop (demo_waiting [6, 7]) = Inr demo_sem"
  by (auto simp: prog_defs sem_new_def has_permits_def demo_waiting_def demo_sem_def
      checked_sub_def fun_upd_twist)

lemma demo_reachable: "sem_reachable 1 demo_sys"
proof -
  let ?w = "\<lambda>s live clock arr reg. \<lparr>sys_sem = s, sys_live = live, sys_clock = clock,
              sys_arrival = arr, sys_reg = reg\<rparr>"
  have 0: "sem_reachable 1 (?w (sem_new 1) 0 0 (\<lambda>_. 0) Map.empty)"
    using sem_reach_init [of 1] by (simp add: sys_init_def)
  have 1: "sem_reachable 1 (?w (demo_waiting []) 1 0 (\<lambda>_. 0) Map.empty)"
    using sem_reach_step [OF 0 sem_step.grant] demo_polls(1) by force
  have 2: "sem_reachable 1 (?w (demo_waiting [6]) 1 1 ((\<lambda>_. 0)(6 := 0)) [6 \<mapsto> (11, 0)])"
    using sem_reach_step [OF 1 sem_step.wait [where a = 6 and w = 11 and s' = "demo_waiting [6]"]]
      demo_polls(2) by (simp add: demo_waiting_def)
  have 3: "sem_reachable 1 (?w (demo_waiting [6, 7]) 1 2 ((\<lambda>_. 0)(6 := 0, 7 := 1))
             [6 \<mapsto> (11, 0), 7 \<mapsto> (12, 0)])"
    using sem_reach_step [OF 2 sem_step.wait [where a = 7 and w = 12 and s' = "demo_waiting [6, 7]"]]
      demo_polls(3) by (simp add: demo_waiting_def numeral_2_eq_2)
  show ?thesis
    using sem_reach_step [OF 3 sem_step.release] demo_polls(4) by (force simp: demo_sys_def)
qed

lemma demo_grant:
  "\<exists>\<sigma>'. sem_step demo_sys (EvGrant 6) \<sigma>' \<and> sys_live \<sigma>' = 1 \<and> total_permits (sys_sem \<sigma>') = 1"
proof -
  obtain s' where "acquire_poll 6 11 demo_sem = Inr (Ready (), s')" "total_permits s' = 1"
    by (simp add: prog_defs has_permits_def demo_sem_def)
  then show ?thesis
    using sem_step.grant [of 6 11 demo_sys s'] by (auto simp: demo_sys_def)
qed

subsection \<open>Correctness of the semaphore\<close>

text \<open>The abstract release and adjustments: they fail when a count would leave its range.\<close>

definition as_release :: "asem \<Rightarrow> sem_fault + asem" where
  "as_release t = (if as_out t = 0 then Inl PermitUnderflow else Inr (as_wake (t\<lparr>as_out := as_out t - 1\<rparr>)))"

definition as_add :: "usize \<Rightarrow> asem \<Rightarrow> sem_fault + asem" where
  "as_add n t =
     (if unat (as_total t) + unat n < 2 ^ 64 then Inr (as_wake (t\<lparr>as_total := as_total t + n\<rparr>)) else Inl PermitOverflow)"

definition as_remove :: "usize \<Rightarrow> asem \<Rightarrow> sem_fault + asem" where
  "as_remove n t = (if n \<le> as_total t then Inr (t\<lparr>as_total := as_total t - n\<rparr>) else Inl PermitUnderflow)"

definition refined :: "sem_fault + sem \<Rightarrow> sem_fault + asem \<Rightarrow> bool" where
  "refined m m' \<longleftrightarrow>
     (case m' of Inl f \<Rightarrow> m = Inl f | Inr t' \<Rightarrow> (\<exists>s'. m = Inr s' \<and> sem_abs s' t'))"

lemma release_refined:
  assumes "sem_abs s t"
  shows "refined (permit_drop s) (as_release t)"
proof (cases "as_out t = 0")
  case True
  then show ?thesis using assms
    by (simp add: refined_def as_release_def permit_drop_def checked_sub_def sem_abs_def sem_counts_def)
next
  case False
  then show ?thesis using permit_drop_refines_abs [OF assms] by (simp add: refined_def as_release_def word_gt_0)
qed

lemma add_refined:
  assumes "sem_abs s t"
  shows "refined (add_permits n s) (as_add n t)"
proof (cases "unat (as_total t) + unat n < 2 ^ 64")
  case True
  then show ?thesis using add_permits_refines_abs [OF assms] by (simp add: refined_def as_add_def)
next
  case False
  then show ?thesis using assms
    by (simp add: refined_def as_add_def add_permits_def checked_add_def sem_abs_def sem_counts_def)
qed

lemma remove_refined:
  assumes "sem_abs s t"
  shows "refined (remove_permits n s) (as_remove n t)"
proof (cases "n \<le> as_total t")
  case True
  then show ?thesis using remove_permits_refines_abs [OF assms] by (simp add: refined_def as_remove_def)
next
  case False
  then show ?thesis using assms
    by (simp add: refined_def as_remove_def remove_permits_def checked_sub_def sem_abs_def sem_counts_def)
qed

text \<open>C2: The linked-list semaphore refines the abstract first-in first-out semaphore. From related states
  every poll of a future succeeds without a fault with the abstract poll's answer, and every drop of a
  future succeeds; a release and an adjustment of the total fault exactly when the abstract operation
  does, with the same fault: a release when no permit is out, an addition when the total would overflow, a
  removal when more is removed than there is. Every operation that succeeds ends in a state related to
  the abstract operation's, so it dereferences no dangling pointer and breaks no assertion.\<close>

theorem semaphore_refines_fifo_spec:
  assumes "sem_abs s t"
  shows "(\<exists>s'. acquire_poll a w s = Inr (fst (as_poll a w t), s') \<and> sem_abs s' (snd (as_poll a w t))) \<and>
         refined (acquire_drop a s) (Inr (as_drop a t)) \<and>
         refined (permit_drop s) (as_release t) \<and>
         refined (add_permits n s) (as_add n t) \<and>
         refined (remove_permits n s) (as_remove n t)"
  using acquire_poll_refines_abs [OF assms] acquire_drop_refines_abs [OF assms]
    release_refined [OF assms] add_refined [OF assms] remove_refined [OF assms]
  by (simp add: refined_def)

lemma demo_abs:
  "sem_abs demo_sem
     \<lparr>as_total = 1, as_out = 0, as_queue = [(6, None), (7, Some 12)], as_woken = [11]\<rparr>"
  by (auto simp: sem_abs_def queue_repr_def linked_def sem_counts_def demo_sem_def)

theorem semaphore_refines_fifo_spec_witness:
  "(\<exists>s'. acquire_poll 6 11 demo_sem = Inr (Ready (), s') \<and>
      sem_abs s' \<lparr>as_total = 1, as_out = 1, as_queue = [(7, Some 12)], as_woken = [11]\<rparr>) \<and>
   permit_drop demo_sem = Inl PermitUnderflow \<and> remove_permits 2 demo_sem = Inl PermitUnderflow \<and>
   (\<exists>s'. remove_permits 1 demo_sem = Inr s')"
proof -
  let ?t = "\<lparr>as_total = 1, as_out = 0, as_queue = [(6, None), (7, Some 12)], as_woken = [11]\<rparr>"
  have "as_poll 6 11 ?t =
    (Ready (), \<lparr>as_total = 1, as_out = 1, as_queue = [(7, Some 12)], as_woken = [11]\<rparr>)"
    by (simp add: as_poll_def as_enqueue_def as_has_def as_wake_def)
  moreover have "as_release ?t = Inl PermitUnderflow" "as_remove 2 ?t = Inl PermitUnderflow"
    "\<exists>t'. as_remove 1 ?t = Inr t'"
    by (simp_all add: as_release_def as_remove_def word_le_nat_alt)
  ultimately show ?thesis
    using semaphore_refines_fifo_spec [OF demo_abs, of 6 11 2] semaphore_refines_fifo_spec [OF demo_abs, of 6 11 1]
    by (auto simp: refined_def)
qed

text \<open>C3: Memory safety of the intrusive list: in every reachable state, polling or dropping any
  future and releasing any live permit dereferences no dangling pointer, breaks no
  \<^verbatim>\<open>debug_assert\<close> and underflows no counter; \<^verbatim>\<open>add_permits\<close> fails exactly when the total would
  overflow and \<^verbatim>\<open>remove_permits\<close> exactly when it would become negative.\<close>

theorem semaphore_never_faults:
  assumes "sem_reachable n \<sigma>"
  shows "(\<exists>r. acquire_poll a w (sys_sem \<sigma>) = Inr r) \<and>
         (\<exists>s'. acquire_drop a (sys_sem \<sigma>) = Inr s') \<and>
         (0 < sys_live \<sigma> \<longrightarrow> (\<exists>s'. permit_drop (sys_sem \<sigma>) = Inr s')) \<and>
         ((\<exists>s'. add_permits m (sys_sem \<sigma>) = Inr s') \<longleftrightarrow>
            unat (total_permits (sys_sem \<sigma>)) + unat m < 2 ^ 64) \<and>
         ((\<exists>s'. remove_permits m (sys_sem \<sigma>) = Inr s') \<longleftrightarrow> m \<le> total_permits (sys_sem \<sigma>))"
proof -
  obtain t where inv: "sys_inv \<sigma> t" using sem_reachable_inv [OF assms] by blast
  then have abs: "sem_abs (sys_sem \<sigma>) t" by (simp add: sys_inv_def)
  have "0 < as_out t" if "0 < sys_live \<sigma>"
    using inv that by (simp add: sys_inv_def word_less_nat_alt)
  moreover have "total_permits (sys_sem \<sigma>) = as_total t"
    using abs by (simp add: sem_abs_def sem_counts_def)
  moreover have "(\<exists>s'. add_permits m (sys_sem \<sigma>) = Inr s') \<Longrightarrow> unat (as_total t) + unat m < 2 ^ 64"
    "(\<exists>s'. remove_permits m (sys_sem \<sigma>) = Inr s') \<Longrightarrow> m \<le> as_total t"
    using calculation(2)
    by (auto simp: add_permits_def checked_add_def remove_permits_def checked_sub_def split: if_splits)
  ultimately show ?thesis
    using acquire_poll_refines_abs [OF abs, of a w] acquire_drop_refines_abs [OF abs, of a]
      permit_drop_refines_abs [OF abs] add_permits_refines_abs [OF abs]
      remove_permits_refines_abs [OF abs]
    by metis
qed

theorem semaphore_never_faults_witness:
  "(\<exists>r. acquire_poll 7 12 (sys_sem demo_sys) = Inr r) \<and>
   (\<exists>s'. acquire_drop 6 (sys_sem demo_sys) = Inr s')"
  using semaphore_never_faults [OF demo_reachable, of 7 12]
    semaphore_never_faults [OF demo_reachable, of 6] by blast

text \<open>C4: Absolute fairness: whenever a poll hands out a permit, no other queued future began
  waiting before the future that gets it (and a future that was not queued gets one only when
  nobody waits).\<close>

theorem semaphore_is_fifo:
  assumes "sem_reachable n \<sigma>" and "sem_step \<sigma> (EvGrant a) \<sigma>'"
    and "nodes (sys_sem \<sigma>) b \<noteq> None" and "b \<noteq> a"
  shows "nodes (sys_sem \<sigma>) a \<noteq> None \<and> sys_arrival \<sigma> a < sys_arrival \<sigma> b"
proof -
  obtain t where inv: "sys_inv \<sigma> t" using sem_reachable_inv [OF assms(1)] by blast
  then have abs: "sem_abs (sys_sem \<sigma>) t" by (simp add: sys_inv_def)
  from assms(2) obtain w s' where "acquire_poll a w (sys_sem \<sigma>) = Inr (Ready (), s')"
    by (elim grantE)
  then obtain t' where "as_poll a w t = (Ready (), t')"
    using acquire_poll_refines_abs [OF abs, of a w] by (cases "as_poll a w t") auto
  from as_poll_ReadyD [OF this] assms(3) node_iff_queued [OF abs]
  obtain v ws where q: "as_queue t = (a, v) # ws" by auto
  with assms(3,4) node_iff_queued [OF abs] have "b \<in> set (map fst ws)" by auto
  then have "sys_arrival \<sigma> a < sys_arrival \<sigma> b"
    using inv q by (auto simp: sys_inv_def order_ok_def)
  with q node_iff_queued [OF abs, of a] show ?thesis by auto
qed

theorem semaphore_is_fifo_witness:
  "\<exists>\<sigma>'. sem_step demo_sys (EvGrant 6) \<sigma>' \<and> nodes (sys_sem demo_sys) 6 \<noteq> None \<and>
     sys_arrival demo_sys 6 < sys_arrival demo_sys 7"
proof -
  obtain \<sigma>' where g: "sem_step demo_sys (EvGrant 6) \<sigma>'" using demo_grant by blast
  have "nodes (sys_sem demo_sys) 7 \<noteq> None" by (simp add: demo_sys_def demo_sem_def)
  from semaphore_is_fifo [OF demo_reachable g this] g show ?thesis by auto
qed

text \<open>C5: No wakeup is lost: in every reachable state with a free permit, the future at the head
  of the queue has had the waker it registered last woken since it registered it, and polling it
  again yields the permit at once.\<close>

theorem semaphore_no_lost_wakeup:
  assumes "sem_reachable n \<sigma>" and "has_permits (sys_sem \<sigma>)" and "head (sys_sem \<sigma>) = Some h"
  shows "(\<exists>w k. sys_reg \<sigma> h = Some (w, k) \<and> w \<in> set (drop k (woken (sys_sem \<sigma>)))) \<and>
         (\<forall>w. \<exists>s'. acquire_poll h w (sys_sem \<sigma>) = Inr (Ready (), s'))"
proof -
  obtain t where inv: "sys_inv \<sigma> t" using sem_reachable_inv [OF assms(1)] by blast
  then have abs: "sem_abs (sys_sem \<sigma>) t" by (simp add: sys_inv_def)
  have has: "as_has t" using assms(2) has_permits_abs abs by (auto simp: sem_abs_def)
  obtain v ws where q: "as_queue t = (h, v) # ws"
    using abs assms(3) by (cases "as_queue t") (auto simp: sem_abs_def queue_repr_def linked_def)
  with inv has have "v = None" by (auto simp: sys_inv_def head_ok_def)
  with inv q have "\<exists>w k. sys_reg \<sigma> h = Some (w, k) \<and> w \<in> set (drop k (as_woken t))"
    by (auto simp: sys_inv_def woken_ok_def)
  moreover have "as_woken t = woken (sys_sem \<sigma>)" using abs by (simp add: sem_abs_def sem_counts_def)
  moreover have "fst (as_poll h w t) = Ready ()" for w
    using q has by (simp add: as_poll_def as_enqueue_def)
  ultimately show ?thesis
    using acquire_poll_refines_abs [OF abs, of h] by metis
qed

theorem semaphore_no_lost_wakeup_witness:
  "has_permits (sys_sem demo_sys) \<and>
   (\<exists>w k. sys_reg demo_sys 6 = Some (w, k) \<and> w \<in> set (drop k (woken (sys_sem demo_sys))))"
proof -
  have h: "has_permits (sys_sem demo_sys)" "head (sys_sem demo_sys) = Some 6"
    by (simp_all add: demo_sys_def demo_sem_def has_permits_def)
  from semaphore_no_lost_wakeup [OF demo_reachable h] h show ?thesis by blast
qed

text \<open>Accounting: in every reachable state the outstanding count is the number of live
  permits, and a permit is only ever handed out while the live permits stay within the current
  total (the total itself may later drop below the number checked out).\<close>

theorem semaphore_permit_accounting:
  assumes "sem_reachable n \<sigma>"
  shows "unat (outstanding_permits (sys_sem \<sigma>)) = sys_live \<sigma> \<and>
         (sem_step \<sigma> (EvGrant a) \<sigma>' \<longrightarrow> sys_live \<sigma>' \<le> unat (total_permits (sys_sem \<sigma>')))"
proof -
  obtain t where inv: "sys_inv \<sigma> t" using sem_reachable_inv [OF assms] by blast
  then have abs: "sem_abs (sys_sem \<sigma>) t" by (simp add: sys_inv_def)
  have "sys_live \<sigma>' \<le> unat (total_permits (sys_sem \<sigma>'))" if "sem_step \<sigma> (EvGrant a) \<sigma>'"
  proof -
    from that obtain w s' where p: "acquire_poll a w (sys_sem \<sigma>) = Inr (Ready (), s')"
      and s': "\<sigma>' = \<sigma>\<lparr>sys_sem := s', sys_live := sys_live \<sigma> + 1\<rparr>"
      by (auto elim: grantE)
    then obtain t' where t': "as_poll a w t = (Ready (), t')" and abs': "sem_abs s' t'"
      using acquire_poll_refines_abs [OF abs, of a w] by (cases "as_poll a w t") auto
    from as_poll_ReadyD [OF t'] have "as_has t" "as_total t' = as_total t" by auto
    with inv s' abs' show ?thesis
      by (auto simp: sys_inv_def as_has_def word_less_nat_alt sem_abs_def sem_counts_def)
  qed
  moreover have "outstanding_permits (sys_sem \<sigma>) = as_out t"
    using abs by (simp add: sem_abs_def sem_counts_def)
  ultimately show ?thesis using inv by (auto simp: sys_inv_def)
qed

theorem semaphore_permit_accounting_witness:
  "unat (outstanding_permits (sys_sem demo_sys)) = sys_live demo_sys \<and>
   (\<exists>\<sigma>'. sem_step demo_sys (EvGrant 6) \<sigma>' \<and> sys_live \<sigma>' \<le> unat (total_permits (sys_sem \<sigma>')))"
  using semaphore_permit_accounting [OF demo_reachable] demo_grant by blast

subsection \<open>The interface the limiter relies on\<close>

text \<open>
  A pool of permits whose size can be moved: what \<^verbatim>\<open>ciad.rs\<close> needs of the semaphore when it
  follows its limit.
\<close>

locale permit_pool =
  fixes pool_ok :: "'s \<Rightarrow> bool"
    and total :: "'s \<Rightarrow> usize"
    and out :: "'s \<Rightarrow> usize"
    and grow :: "usize \<Rightarrow> 's \<Rightarrow> 'f + 's"
    and shrink :: "usize \<Rightarrow> 's \<Rightarrow> 'f + 's"
    and give_back :: "'s \<Rightarrow> 'f + 's"
  assumes grow_law: "pool_ok s \<Longrightarrow> unat (total s) + unat n < 2 ^ 64 \<Longrightarrow>
      \<exists>s'. grow n s = Inr s' \<and> pool_ok s' \<and> total s' = total s + n \<and> out s' = out s"
    and shrink_law: "pool_ok s \<Longrightarrow> n \<le> total s \<Longrightarrow>
      \<exists>s'. shrink n s = Inr s' \<and> pool_ok s' \<and> total s' = total s - n \<and> out s' = out s"
    and give_back_law: "pool_ok s \<Longrightarrow> 0 < out s \<Longrightarrow>
      \<exists>s'. give_back s = Inr s' \<and> pool_ok s' \<and> total s' = total s \<and> out s' = out s - 1"
begin

lemma resize:
  assumes "pool_ok s" and "total s = old"
  shows "\<exists>s'. (if new > old then grow (new - old) s
               else if old > new then shrink (old - new) s else Inr s) = Inr s' \<and>
           pool_ok s' \<and> total s' = new \<and> out s' = out s"
proof -
  consider "new > old" | "old > new" | "new = old" by (meson linorder_less_linear)
  then show ?thesis
  proof cases
    case 1
    then have "unat old + unat (new - old) < 2 ^ 64"
      using unat_less_pow [of new]
      by (simp add: unat_sub [OF less_imp_le] word_less_nat_alt less_imp_le_nat)
    with 1 show ?thesis using grow_law [OF assms(1), of "new - old"] assms(2) by auto
  next
    case 2
    then have "old - new \<le> total s" using assms(2) by (simp add: word_sub_le)
    with 2 show ?thesis using shrink_law [OF assms(1), of "old - new"] assms(2) by auto
  qed (use assms in auto)
qed

end

definition sem_ok :: "sem \<Rightarrow> bool" where
  "sem_ok s \<longleftrightarrow> (\<exists>t. sem_abs s t)"

lemma sem_abs_ok: "sem_abs s t \<Longrightarrow> sem_ok s"
  by (auto simp: sem_ok_def)

lemma sem_abs_counts:
  "sem_abs s t \<Longrightarrow> total_permits s = as_total t \<and> outstanding_permits s = as_out t"
  by (simp add: sem_abs_def sem_counts_def)

interpretation pool: permit_pool sem_ok total_permits outstanding_permits add_permits
  remove_permits permit_drop
proof
  fix s :: sem and n :: usize
  assume "sem_ok s" "unat (total_permits s) + unat n < 2 ^ 64"
  then obtain t where t: "sem_abs s t" "unat (as_total t) + unat n < 2 ^ 64"
    using sem_abs_counts by (fastforce simp: sem_ok_def)
  then obtain s' where s': "add_permits n s = Inr s'" "sem_abs s' (as_wake (t\<lparr>as_total := as_total t + n\<rparr>))"
    using add_permits_refines_abs by blast
  from s' sem_abs_counts [OF t(1)] sem_abs_counts [OF s'(2)] sem_abs_ok [OF s'(2)]
  show "\<exists>s'. add_permits n s = Inr s' \<and> sem_ok s' \<and> total_permits s' = total_permits s + n \<and>
          outstanding_permits s' = outstanding_permits s"
    by simp
next
  fix s :: sem and n :: usize
  assume "sem_ok s" "n \<le> total_permits s"
  then obtain t where t: "sem_abs s t" "n \<le> as_total t"
    using sem_abs_counts by (fastforce simp: sem_ok_def)
  then obtain s' where s': "remove_permits n s = Inr s'" "sem_abs s' (t\<lparr>as_total := as_total t - n\<rparr>)"
    using remove_permits_refines_abs by blast
  from s' sem_abs_counts [OF t(1)] sem_abs_counts [OF s'(2)] sem_abs_ok [OF s'(2)]
  show "\<exists>s'. remove_permits n s = Inr s' \<and> sem_ok s' \<and> total_permits s' = total_permits s - n \<and>
          outstanding_permits s' = outstanding_permits s"
    by simp
next
  fix s :: sem
  assume "sem_ok s" "0 < outstanding_permits s"
  then obtain t where t: "sem_abs s t" "0 < as_out t"
    using sem_abs_counts by (fastforce simp: sem_ok_def)
  then obtain s' where s': "permit_drop s = Inr s'" "sem_abs s' (as_wake (t\<lparr>as_out := as_out t - 1\<rparr>))"
    using permit_drop_refines_abs by blast
  from s' sem_abs_counts [OF t(1)] sem_abs_counts [OF s'(2)] sem_abs_ok [OF s'(2)]
  show "\<exists>s'. permit_drop s = Inr s' \<and> sem_ok s' \<and> total_permits s' = total_permits s \<and>
          outstanding_permits s' = outstanding_permits s - 1"
    by simp
qed

end
