(* ===== verification/Float64.thy ===== *)
theory Float64
  imports Prelude Complex_Main
begin

text \<open>
  The \<^verbatim>\<open>f64\<close> arithmetic the sources use. A finite double is the rational number it denotes and
  every operation rounds its exact result to the nearest double, ties to even, with 53 bits of
  precision and gradual underflow (\<open>f64_round\<close>). The sources never leave the finite range, so
  neither the infinities nor NaN are represented. The laws of rounding that the limiter and the
  reservoir rely on are the locale \<open>f64_arith\<close>, interpreted on \<open>f64_round\<close>.
\<close>

type_synonym f64 = rat

fun ilog2 :: "nat \<Rightarrow> nat" where
  "ilog2 n = (if n < 2 then 0 else Suc (ilog2 (n div 2)))"

declare ilog2.simps [simp del]

definition binade :: "rat \<Rightarrow> int" where
  "binade x =
     (let (p, q) = quotient_of x; k = int (ilog2 (nat p)) - int (ilog2 (nat q))
      in if 2 powi k \<le> x then k else k - 1)"

definition quantum :: "rat \<Rightarrow> int" where
  "quantum x = max (binade x - 52) (- 1074)"

definition round_half_even :: "rat \<Rightarrow> int" where
  "round_half_even y =
     (let f = \<lfloor>y\<rfloor>; r = y - of_int f
      in if r < 1 / 2 then f else if 1 / 2 < r then f + 1 else if even f then f else f + 1)"

definition round_pos :: "rat \<Rightarrow> f64" where
  "round_pos x = of_int (round_half_even (x / 2 powi quantum x)) * 2 powi quantum x"

definition f64_round :: "rat \<Rightarrow> f64" where
  "f64_round x = (if x = 0 then 0 else if x < 0 then - round_pos (- x) else round_pos x)"

definition f64_add :: "f64 \<Rightarrow> f64 \<Rightarrow> f64" where
  "f64_add x y = f64_round (x + y)"

definition f64_mul :: "f64 \<Rightarrow> f64 \<Rightarrow> f64" where
  "f64_mul x y = f64_round (x * y)"

definition f64_div :: "f64 \<Rightarrow> f64 \<Rightarrow> f64" where
  "f64_div x y = f64_round (x / y)"

definition f64_floor :: "f64 \<Rightarrow> f64" where
  "f64_floor x = of_int \<lfloor>x\<rfloor>"

definition f64_of_usize :: "usize \<Rightarrow> f64" where
  "f64_of_usize n = f64_round (of_nat (unat n))"

text \<open>The cast \<^verbatim>\<open>as usize\<close> truncates and saturates.\<close>

definition f64_to_usize :: "f64 \<Rightarrow> usize" where
  "f64_to_usize x = (if x < 0 then 0 else if 2 ^ 64 \<le> x then - 1 else of_int \<lfloor>x\<rfloor>)"

subsection \<open>Rounding\<close>

lemma ilog2_bounds: "0 < n \<Longrightarrow> 2 ^ ilog2 n \<le> n \<and> n < 2 ^ (ilog2 n + 1)"
proof (induction n rule: ilog2.induct)
  case (1 n)
  show ?case
  proof (cases "n < 2")
    case True
    with 1 show ?thesis by (simp add: ilog2.simps [of n])
  next
    case False
    with 1 have "2 ^ ilog2 (n div 2) \<le> n div 2 \<and> n div 2 < 2 ^ (ilog2 (n div 2) + 1)" by simp
    then have "2 * 2 ^ ilog2 (n div 2) \<le> n \<and> n < 4 * 2 ^ ilog2 (n div 2)" by auto
    with False show ?thesis by (simp add: ilog2.simps [of n])
  qed
qed

lemma two_powi_pos [simp]: "0 < (2 :: rat) powi k"
  by simp

lemma binade_bounds:
  assumes "0 < x"
  shows "2 powi binade x \<le> x" "x < 2 powi (binade x + 1)"
proof -
  obtain p q where pq: "quotient_of x = (p, q)" by (cases "quotient_of x")
  then have x: "x = of_int p / of_int q" and q: "0 < q"
    using quotient_of_div quotient_of_denom_pos by blast+
  with assms have p: "0 < p" by (simp add: zero_less_divide_iff)
  define a b where "a = ilog2 (nat p)" and "b = ilog2 (nat q)"
  have na: "(2::int) ^ a \<le> p" "p < 2 ^ (a + 1)" and nb: "(2::int) ^ b \<le> q" "q < 2 ^ (b + 1)"
    using ilog2_bounds [of "nat p"] ilog2_bounds [of "nat q"] p q
    by (simp_all add: a_def b_def nat_less_iff le_nat_iff)
  have A: "(2::rat) ^ a \<le> of_int p" "of_int p < (2::rat) ^ (a + 1)"
    using na by (metis of_int_le_iff of_int_numeral of_int_power,
        metis of_int_less_iff of_int_numeral of_int_power)
  have B: "(2::rat) ^ b \<le> of_int q" "of_int q < (2::rat) ^ (b + 1)"
    using nb by (metis of_int_le_iff of_int_numeral of_int_power,
        metis of_int_less_iff of_int_numeral of_int_power)
  have k: "(2::rat) powi (int a - int b) = 2 ^ a / 2 ^ b"
    by (simp add: power_int_diff)
  have up: "x < 2 ^ (a + 1) / 2 ^ b"
    unfolding x using A B q p by (intro frac_less) auto
  have lo: "2 ^ a / 2 ^ (b + 1) < x"
    unfolding x using A B q p by (intro frac_less2) auto
  have bin: "binade x = (if 2 powi (int a - int b) \<le> x then int a - int b else int a - int b - 1)"
    by (simp add: binade_def pq a_def b_def Let_def)
  have up': "x < 2 powi (int a - int b + 1)" using up by (simp add: power_int_diff power_int_add mult.commute)
  have lo': "2 powi (int a - int b - 1) < x" using lo by (simp add: power_int_diff)
  show "2 powi binade x \<le> x" "x < 2 powi (binade x + 1)"
    using up' lo' by (auto simp: bin)
qed

lemma round_half_even_mono:
  assumes "x \<le> y"
  shows "round_half_even x \<le> round_half_even y"
proof (cases "\<lfloor>x\<rfloor> = \<lfloor>y\<rfloor>")
  case True
  with assms show ?thesis by (auto simp: round_half_even_def Let_def)
next
  case False
  with floor_mono [OF assms] have "\<lfloor>x\<rfloor> + 1 \<le> \<lfloor>y\<rfloor>" by linarith
  then show ?thesis by (auto simp: round_half_even_def Let_def)
qed

lemma round_half_even_int [simp]: "round_half_even (of_int n) = n"
  by (simp add: round_half_even_def)

lemma round_half_even_0 [simp]: "round_half_even 0 = 0"
  by (simp add: round_half_even_def)

lemma two_powi_le_iff: "(2::rat) powi i \<le> 2 powi j \<longleftrightarrow> i \<le> j"
  by (metis less_imp_le linorder_not_le one_less_numeral_iff power_int_strict_increasing
      power_int_increasing one_le_numeral semiring_norm(76))

lemma powi_nat: "0 \<le> k \<Longrightarrow> (2::rat) powi k = of_int (2 ^ nat k)"
  by (simp add: power_int_def)

lemma binade_mono:
  assumes "0 < x" "x \<le> y"
  shows "binade x \<le> binade y"
proof -
  have "2 powi binade x < (2::rat) powi (binade y + 1)"
    using binade_bounds [of x] binade_bounds [of y] assms by linarith
  then have "\<not> binade y + 1 \<le> binade x" using two_powi_le_iff by (metis linorder_not_le)
  then show ?thesis by simp
qed

lemma binade_unique:
  assumes "2 powi k \<le> x" "x < 2 powi (k + 1)"
  shows "binade x = k"
proof -
  have pos: "0 < x" using assms(1) two_powi_pos [of k] by linarith
  have "2 powi k < (2::rat) powi (binade x + 1)" "2 powi binade x < (2::rat) powi (k + 1)"
    using assms binade_bounds [OF pos] by linarith+
  then have "\<not> binade x + 1 \<le> k" "\<not> k + 1 \<le> binade x"
    using two_powi_le_iff by (metis linorder_not_le)+
  then show ?thesis by simp
qed

lemma round_pos_ge_int:
  "of_int n * 2 powi quantum x \<le> x \<Longrightarrow> of_int n * 2 powi quantum x \<le> round_pos x"
  unfolding round_pos_def
  using round_half_even_mono [of "of_int n" "x / 2 powi quantum x"]
  by (simp add: pos_le_divide_eq mult_right_mono)

lemma round_pos_le_int:
  "x \<le> of_int n * 2 powi quantum x \<Longrightarrow> round_pos x \<le> of_int n * 2 powi quantum x"
  unfolding round_pos_def
  using round_half_even_mono [of "x / 2 powi quantum x" "of_int n"]
  by (simp add: pos_divide_le_eq mult_right_mono)

lemma powi_split: "q \<le> e \<Longrightarrow> (2::rat) powi e = of_int (2 ^ nat (e - q)) * 2 powi q"
  using power_int_add [of "2::rat" "e - q" q] powi_nat [of "e - q"] by simp

lemma round_pos_mono:
  assumes "0 < x" "x \<le> y"
  shows "round_pos x \<le> round_pos y"
proof (cases "quantum x = quantum y")
  case True
  with assms show ?thesis
    unfolding round_pos_def
    by (simp add: round_half_even_mono divide_right_mono mult_right_mono)
next
  case False
  let ?e = "binade y"
  from False binade_mono [OF assms]
  have lt: "binade x + 1 \<le> ?e" "quantum y = ?e - 52" "quantum x \<le> ?e"
    by (auto simp: quantum_def)
  have "x \<le> 2 powi ?e"
    using binade_bounds(2) [OF assms(1)] lt(1) two_powi_le_iff
    by (meson less_imp_le order.trans)
  then have "round_pos x \<le> 2 powi ?e"
    using round_pos_le_int [of x "2 ^ nat (?e - quantum x)"] powi_split [OF lt(3)] by simp
  also have "2 powi ?e \<le> round_pos y"
    using round_pos_ge_int [of "2 ^ nat (?e - quantum y)" y] powi_split [of "quantum y" ?e]
      binade_bounds(1) [of y] assms lt by simp
  finally show ?thesis .
qed

lemma round_pos_exact_aux:
  assumes "0 < k" "k < 2 ^ 53" "- 1074 \<le> q"
  shows "round_pos (of_int k * 2 powi q) = of_int k * 2 powi q"
proof -
  let ?x = "of_int k * 2 powi q :: rat"
  have pos: "0 < ?x" using assms by simp
  have "of_int k < (2::rat) powi 53" using assms(2) by (simp add: power_int_def)
  then have "?x < 2 powi (q + 53)" by (simp add: power_int_add mult.commute)
  then have "(2::rat) powi binade ?x < 2 powi (q + 53)"
    using binade_bounds(1) [OF pos] by linarith
  then have "\<not> q + 53 \<le> binade ?x" using two_powi_le_iff by (metis linorder_not_le)
  then have le: "quantum ?x \<le> q" using assms by (auto simp: quantum_def)
  have "?x = of_int (k * 2 ^ nat (q - quantum ?x)) * 2 powi quantum ?x"
    using powi_split [OF le] by simp
  then show ?thesis
    using round_pos_le_int [of ?x] round_pos_ge_int [of _ ?x] by (metis order.antisym order.refl)
qed

lemma round_pos_exact:
  assumes "0 < k" "k \<le> 2 ^ 53" "- 1074 \<le> q"
  shows "round_pos (of_int k * 2 powi q) = of_int k * 2 powi q"
proof (cases "k = 2 ^ 53")
  case True
  have "of_int k * (2::rat) powi q = of_int (2 ^ 52) * 2 powi (q + 1)"
    using True by (simp add: power_int_add)
  then show ?thesis
    using round_pos_exact_aux [of "2 ^ 52" "q + 1"] assms by (simp only:) simp
qed (use assms round_pos_exact_aux in auto)

lemma round_pos_repr:
  assumes "0 < x"
  shows "\<exists>k. 0 \<le> k \<and> k \<le> 2 ^ 53 \<and> round_pos x = of_int k * 2 powi quantum x"
proof -
  let ?k = "round_half_even (x / 2 powi quantum x)"
  have "0 \<le> ?k" using round_half_even_mono [of "of_int 0" "x / 2 powi quantum x"] assms
    by simp
  moreover have "x \<le> of_int (2 ^ 53) * 2 powi quantum x"
  proof -
    have "x \<le> 2 powi (binade x + 1)" using binade_bounds(2) [OF assms] by simp
    also have "\<dots> \<le> 2 powi (quantum x + 53)" by (simp add: two_powi_le_iff quantum_def)
    also have "\<dots> = of_int (2 ^ 53) * 2 powi quantum x" by (simp add: power_int_add)
    finally show ?thesis .
  qed
  then have "?k \<le> 2 ^ 53"
    using round_half_even_mono [of "x / 2 powi quantum x" "of_int (2 ^ 53)"]
    by (simp only: pos_divide_le_eq two_powi_pos round_half_even_int)
  ultimately show ?thesis by (auto simp: round_pos_def)
qed

lemma round_pos_idem:
  assumes "0 < x" "round_pos x \<noteq> 0"
  shows "round_pos (round_pos x) = round_pos x"
proof -
  obtain k where k: "0 \<le> k" "k \<le> 2 ^ 53" "round_pos x = of_int k * 2 powi quantum x"
    using round_pos_repr [OF assms(1)] by blast
  with assms(2) have "0 < k" by (cases "k = 0") auto
  with k show ?thesis using round_pos_exact [of k "quantum x"] by (simp add: quantum_def)
qed

lemma round_pos_nonneg: "0 < x \<Longrightarrow> 0 \<le> round_pos x"
  using round_pos_repr by fastforce

lemma f64_round_neg: "f64_round (- x) = - f64_round x"
  by (auto simp: f64_round_def)

lemma f64_round_mono_nonneg: "0 \<le> x \<Longrightarrow> x \<le> y \<Longrightarrow> f64_round x \<le> f64_round y"
  using round_pos_mono round_pos_nonneg by (auto simp: f64_round_def)

lemma f64_round_nonneg: "0 \<le> x \<Longrightarrow> 0 \<le> f64_round x"
  using round_pos_nonneg by (auto simp: f64_round_def)

lemma f64_round_mono: "x \<le> y \<Longrightarrow> f64_round x \<le> f64_round y"
proof -
  assume le: "x \<le> y"
  consider "0 \<le> x" | "y \<le> 0" | "x < 0" "0 < y" by linarith
  then show ?thesis
  proof cases
    case 2
    then show ?thesis
      using f64_round_mono_nonneg [of "- y" "- x"] le by (simp add: f64_round_neg)
  next
    case 3
    then show ?thesis
      using f64_round_nonneg [of "- x"] f64_round_nonneg [of y] by (simp add: f64_round_neg)
  qed (use le f64_round_mono_nonneg in auto)
qed

lemma f64_round_idem: "f64_round (f64_round x) = f64_round x"
proof -
  have pos: "f64_round (f64_round x) = f64_round x" if "0 < x" for x
    using that round_pos_idem [OF that] round_pos_nonneg [OF that] by (auto simp: f64_round_def)
  consider "0 < x" | "x = 0" | "0 < - x" by linarith
  then show ?thesis
  proof cases
    case 3
    then show ?thesis using pos [OF 3] by (simp add: f64_round_neg)
  qed (auto simp: pos, simp add: f64_round_def)
qed

lemma f64_round_sixteenth:
  assumes "\<bar>k\<bar> \<le> 2 ^ 53"
  shows "f64_round (of_int k / 16) = of_int k / 16"
proof -
  have pos: "f64_round (of_int k / 16) = of_int k / 16" if "0 < k" "k \<le> 2 ^ 53" for k
    using round_pos_exact [of k "- 4"] that by (simp add: f64_round_def power_int_def field_simps)
  consider "0 < k" | "k = 0" | "0 < - k" by linarith
  then show ?thesis
  proof cases
    case 3
    then show ?thesis using pos [of "- k"] assms f64_round_neg [of "of_int k / 16"] by simp
  qed (use pos assms in \<open>auto simp: f64_round_def\<close>)
qed

subsection \<open>The laws the clients use\<close>

locale f64_arith =
  fixes rnd :: "rat \<Rightarrow> rat"
  assumes rnd_mono: "x \<le> y \<Longrightarrow> rnd x \<le> rnd y"
    and rnd_idem: "rnd (rnd x) = rnd x"
    and rnd_sixteenth: "\<bar>k\<bar> \<le> 2 ^ 53 \<Longrightarrow> rnd (of_int k / 16) = of_int k / 16"
begin

lemma rnd_int:
  assumes "\<bar>n\<bar> \<le> 2 ^ 49"
  shows "rnd (of_int n) = of_int n"
  using rnd_sixteenth [of "16 * n"] assms by simp

lemma rnd_0: "rnd 0 = 0"
  using rnd_int [of 0] by simp

lemma rnd_1: "rnd 1 = 1"
  using rnd_int [of 1] by simp

lemma rnd_nonneg: "0 \<le> x \<Longrightarrow> 0 \<le> rnd x"
  using rnd_mono [of 0 x] rnd_0 by simp

lemma rnd_ge: "rnd y = y \<Longrightarrow> y \<le> x \<Longrightarrow> y \<le> rnd x"
  using rnd_mono [of y x] by simp

lemma rnd_le: "rnd y = y \<Longrightarrow> x \<le> y \<Longrightarrow> rnd x \<le> y"
  using rnd_mono [of x y] by simp

lemma rnd_add_ge: "rnd x = x \<Longrightarrow> 0 \<le> y \<Longrightarrow> x \<le> rnd (x + y)"
  by (rule rnd_ge) auto

lemma floor_rnd:
  assumes "of_int m \<le> x" "x \<le> of_int m + 15 / 16" "0 \<le> m" "m \<le> 2 ^ 40"
  shows "\<lfloor>rnd x\<rfloor> = m"
proof -
  have "rnd (of_int m) = of_int m" using assms(3,4) by (intro rnd_int) simp
  then have "of_int m \<le> rnd x" using assms(1) by (rule rnd_ge)
  moreover have "rnd (of_int (16 * m + 15) / 16) = of_int (16 * m + 15) / 16"
    using assms(3,4) by (intro rnd_sixteenth) simp
  then have "rnd x \<le> of_int (16 * m + 15) / 16" using assms(2) by (intro rnd_le) auto
  ultimately show ?thesis by (intro floor_unique) auto
qed

text \<open>Adding the rounded reciprocal never moves the integer part by two.\<close>

lemma rnd_add_recip:
  assumes "1 \<le> x" "x \<le> 2 ^ 40"
  shows "rnd (x + rnd (1 / x)) < of_int (\<lfloor>x\<rfloor> + 2)"
proof -
  let ?n = "\<lfloor>x\<rfloor>"
  have n: "1 \<le> ?n" "?n \<le> 2 ^ 40" "of_int ?n \<le> x" "x < of_int ?n + 1"
    using assms by (auto simp: le_floor_iff floor_le_iff, linarith+)
  consider "x \<le> of_int ?n + 1 / 2" | "of_int ?n + 1 / 2 < x" by linarith
  then have lim: "x + rnd (1 / x) \<le> of_int (16 * ?n + 28) / 16"
  proof cases
    case 1
    have "rnd (1 / x) \<le> 1" using assms rnd_1 by (intro rnd_le) auto
    with 1 show ?thesis by simp
  next
    case 2
    then have "3 / 2 \<le> x" using n by linarith
    then have "1 / x \<le> 3 / 4" by (simp add: field_simps)
    then have "rnd (1 / x) \<le> 3 / 4" using rnd_sixteenth [of 12] by (intro rnd_le) auto
    with n show ?thesis by simp
  qed
  have room: "\<bar>16 * m + 28\<bar> \<le> 2 ^ 53" if "1 \<le> m" "m \<le> 2 ^ 40" for m :: int
    using that by simp
  have "rnd (of_int (16 * ?n + 28) / 16) = of_int (16 * ?n + 28) / 16"
    using room [OF n(1,2)] by (rule rnd_sixteenth)
  with lim have "rnd (x + rnd (1 / x)) \<le> of_int (16 * ?n + 28) / 16" using rnd_le by blast
  then show ?thesis by simp
qed

end

interpretation f64: f64_arith f64_round
  by unfold_locales (rule f64_round_mono f64_round_idem f64_round_sixteenth; assumption)+

lemma unat_f64_to_usize:
  assumes "0 \<le> x" "x < 2 ^ 64"
  shows "unat (f64_to_usize x) = nat \<lfloor>x\<rfloor>"
proof -
  have "0 \<le> \<lfloor>x\<rfloor>" "\<lfloor>x\<rfloor> < 2 ^ 64" using assms by (simp_all add: floor_less_iff)
  then show ?thesis using assms
    by (simp add: f64_to_usize_def unat_eq_nat_uint uint_word_of_int_eq take_bit_int_eq_self)
qed

lemma f64_round_nat: "n \<le> 2 ^ 49 \<Longrightarrow> f64_round (of_nat n) = of_nat n"
  using f64.rnd_int [of "int n"] by simp

lemma f64_of_usize_small: "unat n \<le> 2 ^ 49 \<Longrightarrow> f64_of_usize n = of_nat (unat n)"
  unfolding f64_of_usize_def by (rule f64_round_nat)

end
