(* ===== verification/Errors.thy ===== *)
theory Errors
  imports Prelude
begin

text \<open>
  Errors and HTTP values as the layers see them.

  \<open>cause\<close> collects the error types the crate itself declares (\<^verbatim>\<open>errors.rs\<close>, \<^verbatim>\<open>service/map_error.rs\<close>,
  \<^verbatim>\<open>service/raw/body.rs\<close>); an error of any other type is \<open>Foreign\<close> with its message and its source.
  \<^verbatim>\<open>conjure_error::Error\<close> and the \<^verbatim>\<open>http\<close> crate are not part of the repository: the operations the
  sources call on them are the fields of \<open>error_api\<close> and \<open>http_api\<close>, which the models take as an
  argument, and \<open>error_ok\<close> and \<open>http_ok\<close> state their documented behaviour. \<open>std_errors\<close> and
  \<open>std_http\<close> are instances on which the witnesses run.
\<close>

type_synonym status = nat

abbreviation PERMANENT_REDIRECT :: status where "PERMANENT_REDIRECT \<equiv> 308"
abbreviation TOO_MANY_REQUESTS :: status where "TOO_MANY_REQUESTS \<equiv> 429"
abbreviation INTERNAL_SERVER_ERROR :: status where "INTERNAL_SERVER_ERROR \<equiv> 500"
abbreviation SERVICE_UNAVAILABLE :: status where "SERVICE_UNAVAILABLE \<equiv> 503"

record serializable_error =
  error_code :: string
  error_name :: string
  error_instance_id :: string
  error_parameters :: "(string \<times> string) list"

datatype cause =
    ThrottledError "duration option"
  | UnavailableError
  | RemoteError status "serializable_error option"
  | RawClientError cause
  | RequestBodyError
  | Foreign string "cause option"

text \<open>\<open>std::error::Error::source\<close> of each type.\<close>

fun source :: "cause \<Rightarrow> cause option" where
  "source (RawClientError c) = Some c"
| "source (Foreign _ s) = s"
| "source _ = None"

definition remote_status :: "cause \<Rightarrow> status option" where
  "remote_status c = (case c of RemoteError s _ \<Rightarrow> Some s | _ \<Rightarrow> None)"

definition remote_error :: "cause \<Rightarrow> serializable_error option" where
  "remote_error c = (case c of RemoteError _ e \<Rightarrow> e | _ \<Rightarrow> None)"

definition is_raw_client_error :: "cause \<Rightarrow> bool" where
  "is_raw_client_error c \<longleftrightarrow> (case c of RawClientError _ \<Rightarrow> True | _ \<Rightarrow> False)"

definition is_unavailable_error :: "cause \<Rightarrow> bool" where
  "is_unavailable_error c \<longleftrightarrow> (case c of UnavailableError \<Rightarrow> True | _ \<Rightarrow> False)"

text \<open>The \<open>Display\<close> implementations; \<open>show_status\<close> prints a status code.\<close>

fun display :: "(status \<Rightarrow> string) \<Rightarrow> cause \<Rightarrow> string" where
  "display show_status (ThrottledError _) = ''got a 429 from the remote service''"
| "display show_status UnavailableError = ''got a 503 from the remote service''"
| "display show_status (RemoteError s (Some e)) =
     ''remote error: '' @ error_code e @ '' ('' @ error_name e @ '') with instance ID '' @
     error_instance_id e"
| "display show_status (RemoteError s None) = ''remote error: '' @ show_status s"
| "display show_status (RawClientError _) = ''raw HTTP client error''"
| "display show_status RequestBodyError = ''error writing body''"
| "display show_status (Foreign msg _) = msg"

subsection \<open>The error and HTTP crates\<close>

datatype error_kind =
    Service serializable_error
  | Throttle "duration option"
  | Unavailable

record 'e error_api =
  kind :: "'e \<Rightarrow> error_kind"
  cause_of :: "'e \<Rightarrow> cause"
  internal :: "cause \<Rightarrow> 'e"
  internal_safe :: "cause \<Rightarrow> 'e"
  service_safe_with_instance_id :: "cause \<Rightarrow> string \<Rightarrow> 'e"
  propagated_service_safe :: "cause \<Rightarrow> serializable_error \<Rightarrow> 'e"
  throttle_safe :: "cause \<Rightarrow> 'e"
  throttle_for_safe :: "cause \<Rightarrow> duration \<Rightarrow> 'e"
  unavailable_safe :: "cause \<Rightarrow> 'e"
  with_unsafe_param :: "'e \<Rightarrow> string \<Rightarrow> string \<Rightarrow> 'e"
  with_safe_param :: "'e \<Rightarrow> string \<Rightarrow> string \<Rightarrow> 'e"

definition is_service :: "error_kind \<Rightarrow> bool" where
  "is_service k \<longleftrightarrow> (case k of Service _ \<Rightarrow> True | _ \<Rightarrow> False)"

definition error_ok :: "'e error_api \<Rightarrow> bool" where
  "error_ok E \<longleftrightarrow>
     (\<forall>c. cause_of E (internal E c) = c \<and> is_service (kind E (internal E c))) \<and>
     (\<forall>c. cause_of E (internal_safe E c) = c \<and> is_service (kind E (internal_safe E c))) \<and>
     (\<forall>c i. cause_of E (service_safe_with_instance_id E c i) = c \<and>
        (\<exists>s. kind E (service_safe_with_instance_id E c i) = Service s \<and> error_instance_id s = i)) \<and>
     (\<forall>c s. cause_of E (propagated_service_safe E c s) = c \<and>
        kind E (propagated_service_safe E c s) = Service s) \<and>
     (\<forall>c. cause_of E (throttle_safe E c) = c \<and> kind E (throttle_safe E c) = Throttle None) \<and>
     (\<forall>c d. cause_of E (throttle_for_safe E c d) = c \<and>
        kind E (throttle_for_safe E c d) = Throttle (Some d)) \<and>
     (\<forall>c. cause_of E (unavailable_safe E c) = c \<and> kind E (unavailable_safe E c) = Unavailable) \<and>
     (\<forall>e k v. cause_of E (with_unsafe_param E e k v) = cause_of E e \<and>
        kind E (with_unsafe_param E e k v) = kind E e) \<and>
     (\<forall>e k v. cause_of E (with_safe_param E e k v) = cause_of E e \<and>
        kind E (with_safe_param E e k v) = kind E e)"

named_theorems error_laws "what the error crate promises"

lemma error_okD [error_laws]:
  assumes "error_ok E"
  shows "cause_of E (internal E c) = c" "is_service (kind E (internal E c))"
    "cause_of E (internal_safe E c) = c" "is_service (kind E (internal_safe E c))"
    "cause_of E (service_safe_with_instance_id E c i) = c"
    "cause_of E (propagated_service_safe E c s) = c"
    "kind E (propagated_service_safe E c s) = Service s"
    "cause_of E (throttle_safe E c) = c" "kind E (throttle_safe E c) = Throttle None"
    "cause_of E (throttle_for_safe E c d) = c" "kind E (throttle_for_safe E c d) = Throttle (Some d)"
    "cause_of E (unavailable_safe E c) = c" "kind E (unavailable_safe E c) = Unavailable"
    "cause_of E (with_unsafe_param E e k v) = cause_of E e"
    "kind E (with_unsafe_param E e k v) = kind E e"
    "cause_of E (with_safe_param E e k v) = cause_of E e"
    "kind E (with_safe_param E e k v) = kind E e"
  using assms by (auto simp only: error_ok_def)

lemma error_ok_instance:
  "error_ok E \<Longrightarrow> \<exists>s. kind E (service_safe_with_instance_id E c i) = Service s \<and>
     error_instance_id s = i"
  by (simp add: error_ok_def)

lemma error_ok_instance_service [error_laws]:
  "error_ok E \<Longrightarrow> is_service (kind E (service_safe_with_instance_id E c i))"
  using error_ok_instance [of E c i] by (auto simp: is_service_def)

record http_api =
  is_success :: "status \<Rightarrow> bool"
  is_client_error :: "status \<Rightarrow> bool"
  is_server_error :: "status \<Rightarrow> bool"
  is_idempotent :: "string \<Rightarrow> bool"

definition http_ok :: "http_api \<Rightarrow> bool" where
  "http_ok H \<longleftrightarrow>
     (\<forall>s. is_success H s \<longleftrightarrow> 200 \<le> s \<and> s < 300) \<and>
     (\<forall>s. is_client_error H s \<longleftrightarrow> 400 \<le> s \<and> s < 500) \<and>
     (\<forall>s. is_server_error H s \<longleftrightarrow> 500 \<le> s \<and> s < 600)"

subsection \<open>Instances\<close>

record std_error =
  std_kind :: error_kind
  std_cause :: cause
  std_params :: "(string \<times> string) list"

definition internal_error :: "string \<Rightarrow> serializable_error" where
  "internal_error i =
     \<lparr>error_code = ''INTERNAL'', error_name = ''Default:Internal'', error_instance_id = i,
      error_parameters = []\<rparr>"

definition std_errors :: "std_error error_api" where
  "std_errors =
     \<lparr>kind = std_kind, cause_of = std_cause,
      internal = (\<lambda>c. \<lparr>std_kind = Service (internal_error ''''), std_cause = c, std_params = []\<rparr>),
      internal_safe =
        (\<lambda>c. \<lparr>std_kind = Service (internal_error ''''), std_cause = c, std_params = []\<rparr>),
      service_safe_with_instance_id =
        (\<lambda>c i. \<lparr>std_kind = Service (internal_error i), std_cause = c, std_params = []\<rparr>),
      propagated_service_safe =
        (\<lambda>c s. \<lparr>std_kind = Service s, std_cause = c, std_params = []\<rparr>),
      throttle_safe = (\<lambda>c. \<lparr>std_kind = Throttle None, std_cause = c, std_params = []\<rparr>),
      throttle_for_safe =
        (\<lambda>c d. \<lparr>std_kind = Throttle (Some d), std_cause = c, std_params = []\<rparr>),
      unavailable_safe = (\<lambda>c. \<lparr>std_kind = Unavailable, std_cause = c, std_params = []\<rparr>),
      with_unsafe_param = (\<lambda>e k v. e\<lparr>std_params := std_params e @ [(k, v)]\<rparr>),
      with_safe_param = (\<lambda>e k v. e\<lparr>std_params := std_params e @ [(k, v)]\<rparr>)\<rparr>"

lemma std_errors_ok: "error_ok std_errors"
  by (simp add: error_ok_def std_errors_def is_service_def internal_error_def)

definition std_http :: http_api where
  "std_http =
     \<lparr>is_success = (\<lambda>s. 200 \<le> s \<and> s < 300), is_client_error = (\<lambda>s. 400 \<le> s \<and> s < 500),
      is_server_error = (\<lambda>s. 500 \<le> s \<and> s < 600),
      is_idempotent = (\<lambda>m. m \<in> {''GET'', ''HEAD'', ''OPTIONS'', ''TRACE'', ''PUT'', ''DELETE''})\<rparr>"

lemma std_http_ok: "http_ok std_http"
  by (simp add: http_ok_def std_http_def)

subsection \<open>The map-error layer\<close>

text \<open>
  A service takes a request and the state of the world to a result and the next state.
  \<open>map_error_call\<close> is \<open>MapErrorService::call\<close> around the raw client, whose errors are causes.
\<close>

type_synonym ('req, 'w, 'e, 'resp) service = "'req \<Rightarrow> 'w \<Rightarrow> ('e + 'resp) \<times> 'w"

definition map_error_call ::
  "'e error_api \<Rightarrow> ('req, 'w, cause, 'resp) service \<Rightarrow> ('req, 'w, 'e, 'resp) service" where
  "map_error_call E inner req w =
     (case inner req w of
        (Inl c, w') \<Rightarrow> (Inl (internal_safe E (RawClientError c)), w')
      | (Inr r, w') \<Rightarrow> (Inr r, w'))"

end
