(* ===== verification/Ciad.thy ===== *)
theory Ciad
  imports SemaphoreSystem Float64 Errors
begin

text \<open>
  The adaptive concurrency limiter of \<^verbatim>\<open>service/node/limiter/ciad.rs\<close> ("cautious increase,
  aggressive decrease") on top of the semaphore: a fractional limit that responses move up and
  down, and a semaphore whose total follows the integer part of the limit.

  \<open>update_limit\<close> of the source is a loop around an atomic compare-and-exchange followed by an
  adjustment of the semaphore. \<open>upd_step\<close> performs one atomic action of it, so that the last
  part of the theory can interleave the drops of any number of permits; \<open>update_limit\<close> is the
  sequence of these actions when nobody interferes.
\<close>

definition INITIAL_LIMIT :: usize where "INITIAL_LIMIT = 20"
definition BACKOFF_RATIO :: f64 where "BACKOFF_RATIO = f64_round (9 / 10)"
definition MIN_LIMIT :: usize where "MIN_LIMIT = 1"
definition MAX_LIMIT :: usize where "MAX_LIMIT = 1000000"

datatype mode = Ignore | Success | Dropped

datatype behavior = HostLevel | EndpointLevel

record ciad =
  semaphore :: sem
  limit :: f64
  in_flight :: usize

record ciad_permit =
  in_flight_snapshot :: usize
  permit_mode :: mode

definition ciad_new :: ciad where
  "ciad_new =
     \<lparr>semaphore = sem_new INITIAL_LIMIT, limit = f64_of_usize INITIAL_LIMIT, in_flight = 0\<rparr>"

definition ciad_enter :: "ciad \<Rightarrow> ciad_permit \<times> ciad" where
  "ciad_enter c =
     (\<lparr>in_flight_snapshot = in_flight c + 1, permit_mode = Ignore\<rparr>,
      c\<lparr>in_flight := in_flight c + 1\<rparr>)"

definition ciad_acquire_poll ::
  "addr \<Rightarrow> waker \<Rightarrow> ciad \<Rightarrow> sem_fault + (ciad_permit poll \<times> ciad)" where
  "ciad_acquire_poll a w c =
     and_then (acquire_poll a w (semaphore c)) (\<lambda>(r, s).
       Inr (case r of
              Pending \<Rightarrow> (Pending, c\<lparr>semaphore := s\<rparr>)
            | Ready _ \<Rightarrow> (let (p, c') = ciad_enter (c\<lparr>semaphore := s\<rparr>) in (Ready p, c'))))"

fun on_success :: "http_api \<Rightarrow> behavior \<Rightarrow> status \<Rightarrow> mode" where
  "on_success H HostLevel code =
     (if code = INTERNAL_SERVER_ERROR \<or> code = TOO_MANY_REQUESTS then Ignore
      else if is_server_error H code then Dropped
      else Success)"
| "on_success H EndpointLevel code =
     (if code = INTERNAL_SERVER_ERROR \<or> code = TOO_MANY_REQUESTS then Dropped
      else if is_server_error H code then Ignore
      else Success)"

fun on_failure :: "'e error_api \<Rightarrow> behavior \<Rightarrow> 'e \<Rightarrow> mode" where
  "on_failure E HostLevel e =
     (if is_raw_client_error (cause_of E e) then Dropped else Ignore)"
| "on_failure E EndpointLevel e = Ignore"

definition on_response ::
  "http_api \<Rightarrow> 'e error_api \<Rightarrow> behavior \<Rightarrow> 'e + status \<Rightarrow> ciad_permit \<Rightarrow> ciad_permit" where
  "on_response H E b r p =
     p\<lparr>permit_mode := (case r of Inr code \<Rightarrow> on_success H b code | Inl e \<Rightarrow> on_failure E b e)\<rparr>"

definition success_update :: "usize \<Rightarrow> f64 \<Rightarrow> f64 option" where
  "success_update snapshot original_limit =
     (if f64_to_usize (f64_mul original_limit BACKOFF_RATIO) \<le> snapshot
      then Some (min (f64_of_usize MAX_LIMIT) (f64_add original_limit (f64_div 1 original_limit)))
      else None)"

definition dropped_update :: "f64 \<Rightarrow> f64 option" where
  "dropped_update original_limit =
     Some (max (f64_of_usize MIN_LIMIT) (f64_floor (f64_mul original_limit BACKOFF_RATIO)))"

datatype upd_pc =
    UpdStart
  | UpdTry f64
  | UpdAdjust f64 f64
  | UpdDone

definition adjust_permits :: "f64 \<Rightarrow> f64 \<Rightarrow> ciad \<Rightarrow> sem_fault + ciad" where
  "adjust_permits old_limit new_limit c =
     (let old = f64_to_usize old_limit; new = f64_to_usize new_limit
      in and_then
           (if new > old then add_permits (new - old) (semaphore c)
            else if old > new then remove_permits (old - new) (semaphore c)
            else Inr (semaphore c)) (\<lambda>s.
         Inr (c\<lparr>semaphore := s\<rparr>)))"

fun upd_step :: "(f64 \<Rightarrow> f64 option) \<Rightarrow> upd_pc \<Rightarrow> ciad \<Rightarrow> sem_fault + (upd_pc \<times> ciad)" where
  "upd_step f UpdStart c = Inr (UpdTry (limit c), c)"
| "upd_step f (UpdTry old) c =
     (case f old of
        None \<Rightarrow> Inr (UpdDone, c)
      | Some new \<Rightarrow>
          if limit c = old then Inr (UpdAdjust old new, c\<lparr>limit := new\<rparr>)
          else Inr (UpdTry (limit c), c))"
| "upd_step f (UpdAdjust old new) c =
     and_then (adjust_permits old new c) (\<lambda>c'. Inr (UpdDone, c'))"
| "upd_step f UpdDone c = Inr (UpdDone, c)"

definition update_limit :: "(f64 \<Rightarrow> f64 option) \<Rightarrow> ciad \<Rightarrow> sem_fault + ciad" where
  "update_limit f c =
     and_then (upd_step f UpdStart c) (\<lambda>(p1, c1).
     and_then (upd_step f p1 c1) (\<lambda>(p2, c2).
     and_then (upd_step f p2 c2) (\<lambda>(p3, c3). Inr c3)))"

definition permit_update :: "ciad_permit \<Rightarrow> f64 \<Rightarrow> f64 option" where
  "permit_update p =
     (case permit_mode p of
        Ignore \<Rightarrow> (\<lambda>_. None)
      | Success \<Rightarrow> success_update (in_flight_snapshot p)
      | Dropped \<Rightarrow> dropped_update)"

definition ciad_permit_drop :: "ciad_permit \<Rightarrow> ciad \<Rightarrow> sem_fault + ciad" where
  "ciad_permit_drop p c =
     (let c1 = c\<lparr>in_flight := in_flight c - 1\<rparr>
      in and_then
           (case permit_mode p of
              Ignore \<Rightarrow> Inr c1
            | Success \<Rightarrow> update_limit (success_update (in_flight_snapshot p)) c1
            | Dropped \<Rightarrow> update_limit dropped_update c1) (\<lambda>c2.
         and_then (permit_drop (semaphore c2)) (\<lambda>s.
           Inr (c2\<lparr>semaphore := s\<rparr>))))"

subsection \<open>The two updates\<close>

definition limit_ok :: "f64 \<Rightarrow> bool" where
  "limit_ok l \<longleftrightarrow> 1 \<le> l \<and> l \<le> 1000000 \<and> f64_round l = l"

lemma limit_consts:
  "f64_of_usize MAX_LIMIT = 1000000" "f64_of_usize MIN_LIMIT = 1" "f64_of_usize INITIAL_LIMIT = 20"
  by (simp_all add: f64_of_usize_small MAX_LIMIT_def MIN_LIMIT_def INITIAL_LIMIT_def)

lemma f64_round_of_int: "\<bar>n\<bar> \<le> 2 ^ 49 \<Longrightarrow> f64_round (of_int n) = of_int n"
  by (rule f64.rnd_int)

lemma backoff_ratio_bounds: "9 / 10 \<le> BACKOFF_RATIO" "BACKOFF_RATIO \<le> 9 / 10 + 1 / 1000000000"
proof -
  have "binade (9 / 10) = - 1" by (rule binade_unique) (simp_all add: power_int_def)
  then have "BACKOFF_RATIO = of_int (round_half_even (9 / 10 * 2 ^ 53)) / 2 ^ 53"
    by (simp add: BACKOFF_RATIO_def f64_round_def round_pos_def quantum_def power_int_def
        power_divide)
  moreover have "\<lfloor>9 / 10 * 2 ^ 53 :: rat\<rfloor> = 8106479329266892" by (rule floor_unique) simp_all
  then have "round_half_even (9 / 10 * 2 ^ 53) = 8106479329266893"
    by (simp add: round_half_even_def Let_def)
  ultimately have "BACKOFF_RATIO = 8106479329266893 / 9007199254740992" by simp
  then show "9 / 10 \<le> BACKOFF_RATIO" "BACKOFF_RATIO \<le> 9 / 10 + 1 / 1000000000" by simp_all
qed

lemma success_update_ok:
  assumes "limit_ok l" "success_update n l = Some l'"
  shows "limit_ok l'" "l \<le> l'" "\<lfloor>l'\<rfloor> \<le> \<lfloor>l\<rfloor> + 1"
proof -
  let ?x = "f64_round (l + f64_round (1 / l))"
  have l: "1 \<le> l" "l \<le> 1000000" "f64_round l = l" using assms(1) by (simp_all add: limit_ok_def)
  have l': "l' = min 1000000 ?x"
    using assms(2) by (auto simp: success_update_def f64_add_def f64_div_def limit_consts
        split: if_splits)
  have "l \<le> ?x" using l by (intro f64.rnd_add_ge f64.rnd_nonneg) auto
  then show "l \<le> l'" using l l' by simp
  have "f64_round l' = l'"
    unfolding l' using f64_round_of_int [of 1000000] f64_round_idem by (simp add: min_def)
  then show "limit_ok l'" using l l' \<open>l \<le> ?x\<close> by (auto simp: limit_ok_def)
  have "?x < of_int (\<lfloor>l\<rfloor> + 2)" using l by (intro f64.rnd_add_recip) auto
  then have "l' < of_int (\<lfloor>l\<rfloor> + 2)" using l' by linarith
  then show "\<lfloor>l'\<rfloor> \<le> \<lfloor>l\<rfloor> + 1" by (simp only: floor_less_iff [symmetric])
qed

lemma f64_round_backoff_le:
  assumes "limit_ok l"
  shows "0 \<le> f64_round (l * BACKOFF_RATIO)" "f64_round (l * BACKOFF_RATIO) \<le> l"
proof -
  have r: "0 \<le> BACKOFF_RATIO" "BACKOFF_RATIO \<le> 1" using backoff_ratio_bounds by simp_all
  with assms show "0 \<le> f64_round (l * BACKOFF_RATIO)"
    by (intro f64.rnd_nonneg) (auto simp: limit_ok_def)
  have "l * BACKOFF_RATIO \<le> l * 1"
    using assms r by (intro mult_left_mono) (auto simp: limit_ok_def)
  then show "f64_round (l * BACKOFF_RATIO) \<le> l"
    using assms by (intro f64.rnd_le) (auto simp: limit_ok_def)
qed

lemma limit_ok_int:
  assumes "1 \<le> k" "of_int k \<le> l" "limit_ok l"
  shows "limit_ok (of_int k)"
proof -
  have le: "of_int k \<le> (of_int 1000000 :: rat)" using assms(2,3) by (simp add: limit_ok_def)
  then have "f64_round (of_int k) = of_int k"
    using assms(1) by (intro f64_round_of_int) (simp only: of_int_le_iff, simp)
  with assms(1) le show ?thesis by (simp add: limit_ok_def)
qed

lemma dropped_update_eq:
  "dropped_update l = Some (of_int (max 1 \<lfloor>f64_round (l * BACKOFF_RATIO)\<rfloor>))"
  by (simp add: dropped_update_def f64_floor_def f64_mul_def limit_consts of_int_max)

lemma dropped_update_ok:
  assumes "limit_ok l" "dropped_update l = Some l'"
  shows "limit_ok l'" "l' \<le> l" "l' = of_int \<lfloor>l'\<rfloor>"
proof -
  define k where "k = max 1 \<lfloor>f64_round (l * BACKOFF_RATIO)\<rfloor>"
  have l': "l' = of_int k" using assms(2) by (simp add: dropped_update_eq k_def)
  have k: "1 \<le> k" "of_int k \<le> l"
    using f64_round_backoff_le [OF assms(1)] assms(1)
    by (auto simp: k_def limit_ok_def max_def) linarith
  with assms show "limit_ok l'" "l' \<le> l" "l' = of_int \<lfloor>l'\<rfloor>"
    unfolding l' by (auto intro: limit_ok_int)
qed

lemma permit_update_ok:
  "limit_ok l \<Longrightarrow> permit_update p l = Some l' \<Longrightarrow> limit_ok l'"
  by (cases "permit_mode p")
    (simp add: permit_update_def, (simp add: permit_update_def,
      erule (1) success_update_ok(1) dropped_update_ok(1))+)

subsection \<open>The limiter used by one thread at a time\<close>

definition ciad_ok :: "ciad \<Rightarrow> bool" where
  "ciad_ok c \<longleftrightarrow>
     sem_ok (semaphore c) \<and> limit_ok (limit c) \<and>
     total_permits (semaphore c) = f64_to_usize (limit c)"

lemma update_limit_eq:
  "update_limit f c =
     (case f (limit c) of
        None \<Rightarrow> Inr c
      | Some l \<Rightarrow> adjust_permits (limit c) l (c\<lparr>limit := l\<rparr>))"
proof (cases "f (limit c)")
  case (Some l)
  then show ?thesis
    by (cases "adjust_permits (limit c) l (c\<lparr>limit := l\<rparr>)") (simp_all add: update_limit_def)
qed (simp add: update_limit_def)

lemma adjust_permits_ok:
  assumes "sem_ok (semaphore c)" "total_permits (semaphore c) = f64_to_usize old"
  shows "\<exists>s. adjust_permits old new c = Inr (c\<lparr>semaphore := s\<rparr>) \<and> sem_ok s \<and>
           total_permits s = f64_to_usize new \<and>
           outstanding_permits s = outstanding_permits (semaphore c)"
proof -
  from pool.resize [OF assms, of "f64_to_usize new"]
  obtain s where "(if f64_to_usize new > f64_to_usize old
      then add_permits (f64_to_usize new - f64_to_usize old) (semaphore c)
      else if f64_to_usize old > f64_to_usize new
      then remove_permits (f64_to_usize old - f64_to_usize new) (semaphore c)
      else Inr (semaphore c)) = Inr s" "sem_ok s" "total_permits s = f64_to_usize new"
      "outstanding_permits s = outstanding_permits (semaphore c)" by blast
  then show ?thesis by (auto simp: adjust_permits_def Let_def)
qed

lemma update_limit_ok:
  assumes "ciad_ok c" "\<And>l. f (limit c) = Some l \<Longrightarrow> limit_ok l"
  shows "\<exists>c'. update_limit f c = Inr c' \<and> ciad_ok c' \<and> in_flight c' = in_flight c \<and>
           outstanding_permits (semaphore c') = outstanding_permits (semaphore c) \<and>
           limit c' = (case f (limit c) of None \<Rightarrow> limit c | Some l \<Rightarrow> l)"
proof (cases "f (limit c)")
  case None
  with assms(1) show ?thesis by (simp add: update_limit_eq)
next
  case (Some l)
  with assms adjust_permits_ok [of "c\<lparr>limit := l\<rparr>" "limit c" l] show ?thesis
    by (auto simp: update_limit_eq ciad_ok_def)
qed

lemma ciad_permit_drop_eq:
  "ciad_permit_drop p c =
     and_then (update_limit (permit_update p) (c\<lparr>in_flight := in_flight c - 1\<rparr>)) (\<lambda>c2.
     and_then (permit_drop (semaphore c2)) (\<lambda>s. Inr (c2\<lparr>semaphore := s\<rparr>)))"
  by (simp add: ciad_permit_drop_def permit_update_def update_limit_eq Let_def
      split: mode.split)

lemma ciad_permit_drop_ok:
  assumes "ciad_ok c" "0 < outstanding_permits (semaphore c)"
  shows "\<exists>c'. ciad_permit_drop p c = Inr c' \<and> ciad_ok c' \<and> in_flight c' = in_flight c - 1 \<and>
           outstanding_permits (semaphore c') = outstanding_permits (semaphore c) - 1 \<and>
           limit c' = (case permit_update p (limit c) of None \<Rightarrow> limit c | Some l \<Rightarrow> l)"
proof -
  let ?c = "c\<lparr>in_flight := in_flight c - 1\<rparr>"
  have "ciad_ok ?c" using assms by (simp add: ciad_ok_def)
  moreover have "limit_ok l" if "permit_update p (limit ?c) = Some l" for l
    using that assms(1) permit_update_ok by (auto simp: ciad_ok_def)
  ultimately obtain c2 where c2: "update_limit (permit_update p) ?c = Inr c2" "ciad_ok c2"
    "in_flight c2 = in_flight c - 1"
    "outstanding_permits (semaphore c2) = outstanding_permits (semaphore c)"
    "limit c2 = (case permit_update p (limit c) of None \<Rightarrow> limit c | Some l \<Rightarrow> l)"
    using update_limit_ok [of ?c "permit_update p"] by (auto cong: option.case_cong)
  moreover from c2 assms obtain s where "permit_drop (semaphore c2) = Inr s" "sem_ok s"
    "total_permits s = total_permits (semaphore c2)"
    "outstanding_permits s = outstanding_permits (semaphore c2) - 1"
    using pool.give_back_law [of "semaphore c2"] by (auto simp: ciad_ok_def)
  ultimately show ?thesis by (simp add: ciad_permit_drop_eq ciad_ok_def)
qed

lemma acquire_poll_sem_ok:
  assumes "sem_ok s"
  shows "\<exists>r s'. acquire_poll a w s = Inr (r, s') \<and> sem_ok s' \<and>
           total_permits s' = total_permits s"
proof -
  obtain t where t: "sem_abs s t" using assms by (auto simp: sem_ok_def)
  then obtain s' where "acquire_poll a w s = Inr (fst (as_poll a w t), s')"
    "sem_abs s' (snd (as_poll a w t))"
    using acquire_poll_refines_abs by blast
  moreover have "as_total (snd (as_poll a w t)) = as_total t" by (rule as_poll_counts)
  ultimately show ?thesis using t sem_abs_counts sem_abs_ok by metis
qed

lemma ciad_acquire_poll_ok:
  assumes "ciad_ok c"
  shows "\<exists>r c'. ciad_acquire_poll a w c = Inr (r, c') \<and> ciad_ok c' \<and> limit c' = limit c"
proof -
  from assms acquire_poll_sem_ok [of "semaphore c" a w]
  obtain r s where "acquire_poll a w (semaphore c) = Inr (r, s)" "sem_ok s"
    "total_permits s = total_permits (semaphore c)" by (auto simp: ciad_ok_def)
  with assms show ?thesis
    by (cases r) (auto simp: ciad_acquire_poll_def ciad_enter_def ciad_ok_def)
qed

lemma ciad_new_ok: "ciad_ok ciad_new"
proof -
  have "f64_to_usize 20 = 20" by (simp add: f64_to_usize_def)
  moreover have "f64_round 20 = 20" using f64_round_of_int [of 20] by simp
  ultimately show ?thesis
    using sem_abs_ok [OF sem_new_refines_abs, of INITIAL_LIMIT]
    by (simp add: ciad_ok_def ciad_new_def limit_consts limit_ok_def)
      (simp add: sem_new_def INITIAL_LIMIT_def)
qed

text \<open>Used by one thread at a time, the limiter keeps its invariant: the limit is a double
  between 1 and one million and the semaphore's total is exactly its integer part. No poll and no
  drop of a permit panics, whatever mode the permit carries.\<close>

theorem ciad_permits_follow_limit:
  assumes "ciad_ok c"
  shows "(\<exists>r c'. ciad_acquire_poll a w c = Inr (r, c') \<and> ciad_ok c' \<and> limit c' = limit c) \<and>
    (0 < outstanding_permits (semaphore c) \<longrightarrow>
       (\<exists>c'. ciad_permit_drop p c = Inr c' \<and> ciad_ok c' \<and> in_flight c' = in_flight c - 1 \<and>
          outstanding_permits (semaphore c') = outstanding_permits (semaphore c) - 1))"
  using ciad_acquire_poll_ok [OF assms] ciad_permit_drop_ok [OF assms] by blast

theorem ciad_permits_follow_limit_witness:
  "\<exists>r c'. ciad_acquire_poll 0 0 ciad_new = Inr (r, c') \<and> ciad_ok c' \<and> limit c' = limit ciad_new"
  using ciad_permits_follow_limit [OF ciad_new_ok] by blast

text \<open>Cautious increase, aggressive decrease: dropping a permit in mode \<open>Ignore\<close> leaves the
  limit alone; \<open>Success\<close> never lowers it and adds at most one permit; \<open>Dropped\<close> never raises it and
  leaves an integer, at least 1, whose value is the rounded-down nine tenths.\<close>

theorem ciad_cautious_increase:
  assumes "ciad_ok c" "0 < outstanding_permits (semaphore c)" "ciad_permit_drop p c = Inr c'"
  shows "case permit_mode p of
      Ignore \<Rightarrow> limit c' = limit c
    | Success \<Rightarrow> limit c \<le> limit c' \<and>
        unat (total_permits (semaphore c')) \<le> unat (total_permits (semaphore c)) + 1
    | Dropped \<Rightarrow> 1 \<le> limit c' \<and> limit c' \<le> limit c \<and>
        limit c' = of_int (max 1 \<lfloor>f64_round (limit c * BACKOFF_RATIO)\<rfloor>)"
proof -
  from ciad_permit_drop_ok [OF assms(1,2), of p] assms(3)
  have ok': "ciad_ok c'" and lim: "limit c' = (case permit_update p (limit c) of
      None \<Rightarrow> limit c | Some l \<Rightarrow> l)" by auto
  have ok: "limit_ok (limit c)" using assms(1) by (simp add: ciad_ok_def)
  have tot: "unat (total_permits (semaphore d)) = nat \<lfloor>limit d\<rfloor>" if "ciad_ok d" for d
    using that unat_f64_to_usize [of "limit d"] by (simp add: ciad_ok_def limit_ok_def)
  show ?thesis
  proof (cases "permit_mode p")
    case Ignore
    with lim show ?thesis by (simp add: permit_update_def)
  next
    case Success
    have "limit c \<le> limit c' \<and> \<lfloor>limit c'\<rfloor> \<le> \<lfloor>limit c\<rfloor> + 1"
    proof (cases "success_update (in_flight_snapshot p) (limit c)")
      case None
      with lim Success show ?thesis by (simp add: permit_update_def)
    next
      case (Some l)
      with lim Success success_update_ok [OF ok Some] show ?thesis
        by (simp add: permit_update_def)
    qed
    moreover have "0 \<le> \<lfloor>limit c\<rfloor>" using ok by (simp add: limit_ok_def)
    then have "nat \<lfloor>limit c'\<rfloor> \<le> nat \<lfloor>limit c\<rfloor> + 1" using calculation by arith
    ultimately show ?thesis using Success tot [OF assms(1)] tot [OF ok'] by simp
  next
    case Dropped
    then have l: "dropped_update (limit c) = Some (limit c')"
      using lim by (simp add: permit_update_def dropped_update_eq)
    from dropped_update_ok [OF ok l] show ?thesis
      using Dropped l by (simp add: limit_ok_def dropped_update_eq)
  qed
qed

definition busy_ciad :: ciad where
  "busy_ciad = ciad_new\<lparr>semaphore := (sem_new INITIAL_LIMIT)\<lparr>outstanding_permits := 1\<rparr>, in_flight := 1\<rparr>"

lemma busy_ciad_poll:
  "ciad_acquire_poll 0 0 ciad_new =
     Inr (Ready \<lparr>in_flight_snapshot = 1, permit_mode = Ignore\<rparr>, busy_ciad)"
  by (simp add: busy_ciad_def ciad_acquire_poll_def acquire_poll_def ciad_new_def ciad_enter_def
      sem_new_def has_permits_def INITIAL_LIMIT_def)

lemma busy_ciad_ok: "ciad_ok busy_ciad" "0 < outstanding_permits (semaphore busy_ciad)"
  using ciad_acquire_poll_ok [OF ciad_new_ok, of 0 0] busy_ciad_poll
  by (simp_all add: busy_ciad_def)

theorem ciad_cautious_increase_witness:
  "\<exists>c'. ciad_permit_drop \<lparr>in_flight_snapshot = 1, permit_mode = Dropped\<rparr> busy_ciad = Inr c' \<and>
     1 \<le> limit c' \<and> limit c' \<le> limit busy_ciad"
proof -
  let ?p = "\<lparr>in_flight_snapshot = 1, permit_mode = Dropped\<rparr>"
  obtain c' where c': "ciad_permit_drop ?p busy_ciad = Inr c'"
    using ciad_permit_drop_ok [OF busy_ciad_ok] by blast
  from ciad_cautious_increase [OF busy_ciad_ok c'] c' show ?thesis by simp
qed

end
