(* ===== verification/CiadSystem.thy ===== *)
theory CiadSystem
  imports Ciad
begin

text \<open>
  The limiter of \<^verbatim>\<open>ciad.rs\<close> shared by any number of threads. One step is one atomic action: a
  poll of the semaphore under its lock, the \<^verbatim>\<open>fetch_add\<close> on entry, the \<^verbatim>\<open>fetch_sub\<close> on exit, the
  load of the limit, one compare-and-exchange, one adjustment of the semaphore, and the release
  of the inner permit. \<open>holders\<close> maps a thread to its permit and to where its drop has got to.
\<close>

datatype drop_pc =
    Granted
  | Held
  | Updating upd_pc
  | Releasing

record ciad_sys =
  cs_ciad :: ciad
  holders :: "nat \<rightharpoonup> ciad_permit \<times> drop_pc"

datatype ciad_event =
    CPoll addr waker nat
  | CCancel addr
  | CEnter nat
  | CRespond nat mode
  | CDrop nat
  | CUpdate nat
  | CRelease nat

definition ciad_init :: ciad_sys where
  "ciad_init = \<lparr>cs_ciad = ciad_new, holders = Map.empty\<rparr>"

definition blank_permit :: ciad_permit where
  "blank_permit = \<lparr>in_flight_snapshot = 0, permit_mode = Ignore\<rparr>"

fun ciad_step :: "ciad_event \<Rightarrow> ciad_sys \<Rightarrow> (sem_fault + ciad_sys) option" where
  "ciad_step (CPoll a w i) \<sigma> =
     (if i \<in> dom (holders \<sigma>) then None
      else Some (and_then (acquire_poll a w (semaphore (cs_ciad \<sigma>))) (\<lambda>(r, s).
        let \<sigma>' = \<sigma>\<lparr>cs_ciad := (cs_ciad \<sigma>)\<lparr>semaphore := s\<rparr>\<rparr>
        in Inr (case r of
                  Pending \<Rightarrow> \<sigma>'
                | Ready _ \<Rightarrow> \<sigma>'\<lparr>holders := (holders \<sigma>)(i \<mapsto> (blank_permit, Granted))\<rparr>))))"
| "ciad_step (CCancel a) \<sigma> =
     Some (and_then (acquire_drop a (semaphore (cs_ciad \<sigma>))) (\<lambda>s.
       Inr (\<sigma>\<lparr>cs_ciad := (cs_ciad \<sigma>)\<lparr>semaphore := s\<rparr>\<rparr>)))"
| "ciad_step (CEnter i) \<sigma> =
     (case holders \<sigma> i of
        Some (_, Granted) \<Rightarrow>
          (let (p, c) = ciad_enter (cs_ciad \<sigma>)
           in Some (Inr (\<sigma>\<lparr>cs_ciad := c, holders := (holders \<sigma>)(i \<mapsto> (p, Held))\<rparr>)))
      | _ \<Rightarrow> None)"
| "ciad_step (CRespond i m) \<sigma> =
     (case holders \<sigma> i of
        Some (p, Held) \<Rightarrow>
          Some (Inr (\<sigma>\<lparr>holders := (holders \<sigma>)(i \<mapsto> (p\<lparr>permit_mode := m\<rparr>, Held))\<rparr>))
      | _ \<Rightarrow> None)"
| "ciad_step (CDrop i) \<sigma> =
     (case holders \<sigma> i of
        Some (p, Held) \<Rightarrow>
          Some (Inr (\<sigma>\<lparr>cs_ciad := (cs_ciad \<sigma>)\<lparr>in_flight := in_flight (cs_ciad \<sigma>) - 1\<rparr>,
            holders := (holders \<sigma>)(i \<mapsto>
              (p, if permit_mode p = Ignore then Releasing else Updating UpdStart))\<rparr>))
      | _ \<Rightarrow> None)"
| "ciad_step (CUpdate i) \<sigma> =
     (case holders \<sigma> i of
        Some (p, Updating pc) \<Rightarrow>
          Some (and_then (upd_step (permit_update p) pc (cs_ciad \<sigma>)) (\<lambda>(pc', c).
            Inr (\<sigma>\<lparr>cs_ciad := c, holders := (holders \<sigma>)(i \<mapsto>
              (p, if pc' = UpdDone then Releasing else Updating pc'))\<rparr>)))
      | _ \<Rightarrow> None)"
| "ciad_step (CRelease i) \<sigma> =
     (case holders \<sigma> i of
        Some (p, Releasing) \<Rightarrow>
          Some (and_then (permit_drop (semaphore (cs_ciad \<sigma>))) (\<lambda>s.
            Inr (\<sigma>\<lparr>cs_ciad := (cs_ciad \<sigma>)\<lparr>semaphore := s\<rparr>, holders := (holders \<sigma>)(i := None)\<rparr>)))
      | _ \<Rightarrow> None)"

inductive ciad_reachable :: "ciad_sys \<Rightarrow> bool" where
  ciad_reach_init: "ciad_reachable ciad_init"
| ciad_reach_step:
    "ciad_reachable \<sigma> \<Longrightarrow> ciad_step e \<sigma> = Some (Inr \<sigma>') \<Longrightarrow> ciad_reachable \<sigma>'"

subsection \<open>Conservation of permits\<close>

fun owed_pc :: "drop_pc \<Rightarrow> int" where
  "owed_pc (Updating (UpdAdjust old new)) = \<lfloor>new\<rfloor> - \<lfloor>old\<rfloor>"
| "owed_pc _ = 0"

lemma owed_pc_nonzero: "owed_pc pc \<noteq> 0 \<Longrightarrow> \<exists>old new. pc = Updating (UpdAdjust old new)"
  by (cases pc rule: owed_pc.cases) auto

definition owed :: "ciad_sys \<Rightarrow> int" where
  "owed \<sigma> = (\<Sum>i \<in> dom (holders \<sigma>). owed_pc (snd (the (holders \<sigma> i))))"

fun pc_ok :: "drop_pc \<Rightarrow> bool" where
  "pc_ok (Updating (UpdAdjust old new)) \<longleftrightarrow> limit_ok old \<and> limit_ok new"
| "pc_ok (Updating (UpdTry old)) \<longleftrightarrow> limit_ok old"
| "pc_ok _ \<longleftrightarrow> True"

definition ciad_inv :: "ciad_sys \<Rightarrow> bool" where
  "ciad_inv \<sigma> \<longleftrightarrow>
     finite (dom (holders \<sigma>)) \<and> sem_ok (semaphore (cs_ciad \<sigma>)) \<and> limit_ok (limit (cs_ciad \<sigma>)) \<and>
     (\<forall>i p pc. holders \<sigma> i = Some (p, pc) \<longrightarrow> pc_ok pc) \<and>
     int (unat (total_permits (semaphore (cs_ciad \<sigma>)))) + owed \<sigma> = \<lfloor>limit (cs_ciad \<sigma>)\<rfloor> \<and>
     unat (outstanding_permits (semaphore (cs_ciad \<sigma>))) = card (dom (holders \<sigma>))"

lemma owed_upd:
  assumes "finite (dom h)" "h i = Some (p, pc)"
  shows "(\<Sum>j \<in> dom (h(i \<mapsto> (q, pc'))). owed_pc (snd (the ((h(i \<mapsto> (q, pc'))) j)))) =
         (\<Sum>j \<in> dom h. owed_pc (snd (the (h j)))) - owed_pc pc + owed_pc pc'"
proof -
  let ?D = "dom h - {i}"
  have i: "i \<in> dom h" using assms(2) by auto
  have d: "dom (h(i \<mapsto> (q, pc'))) = insert i ?D" "dom h = insert i ?D" using i by auto
  have "(\<Sum>j \<in> ?D. owed_pc (snd (the ((h(i \<mapsto> (q, pc'))) j)))) =
        (\<Sum>j \<in> ?D. owed_pc (snd (the (h j))))"
    by (rule sum.cong) auto
  then show ?thesis
    using assms sum.insert [of ?D i "\<lambda>j. owed_pc (snd (the ((h(i \<mapsto> (q, pc'))) j)))"]
      sum.insert [of ?D i "\<lambda>j. owed_pc (snd (the (h j)))"]
    unfolding d(1) by (subst d(2)) simp
qed

lemma owed_new:
  assumes "finite (dom h)" "h i = None"
  shows "(\<Sum>j \<in> dom (h(i \<mapsto> (q, pc))). owed_pc (snd (the ((h(i \<mapsto> (q, pc))) j)))) =
         (\<Sum>j \<in> dom h. owed_pc (snd (the (h j)))) + owed_pc pc"
proof -
  have "i \<notin> dom h" using assms(2) by auto
  moreover have "(\<Sum>j \<in> dom h. owed_pc (snd (the ((h(i \<mapsto> (q, pc))) j)))) =
        (\<Sum>j \<in> dom h. owed_pc (snd (the (h j))))"
    using assms by (intro sum.cong) auto
  ultimately show ?thesis using assms by simp
qed

lemma owed_del:
  assumes "finite (dom h)" "h i = Some (p, pc)"
  shows "(\<Sum>j \<in> dom (h(i := None)). owed_pc (snd (the ((h(i := None)) j)))) =
         (\<Sum>j \<in> dom h. owed_pc (snd (the (h j)))) - owed_pc pc"
proof -
  have i: "i \<in> dom h" using assms(2) by auto
  have "(\<Sum>j \<in> dom h - {i}. owed_pc (snd (the ((h(i := None)) j)))) =
        (\<Sum>j \<in> dom h - {i}. owed_pc (snd (the (h j))))"
    by (rule sum.cong) auto
  with assms i show ?thesis by (simp add: sum_diff1)
qed

lemma unat_limit: "limit_ok l \<Longrightarrow> int (unat (f64_to_usize l)) = \<lfloor>l\<rfloor>"
  using unat_f64_to_usize [of l] by (simp add: limit_ok_def)

lemma adjust_permits_effect:
  assumes "adjust_permits old new c = Inr c'" "sem_ok (semaphore c)" "limit_ok old" "limit_ok new"
  shows "sem_ok (semaphore c') \<and> limit c' = limit c \<and>
         outstanding_permits (semaphore c') = outstanding_permits (semaphore c) \<and>
         int (unat (total_permits (semaphore c'))) =
           int (unat (total_permits (semaphore c))) + (\<lfloor>new\<rfloor> - \<lfloor>old\<rfloor>)"
proof -
  let ?o = "f64_to_usize old" and ?n = "f64_to_usize new" and ?s = "semaphore c"
  note un = unat_limit [OF assms(3)] unat_limit [OF assms(4)]
  consider "?o < ?n" | "?n < ?o" | "?n = ?o" by (meson linorder_less_linear)
  then show ?thesis
  proof cases
    case 1
    with assms(1) obtain s where s: "add_permits (?n - ?o) ?s = Inr s" "c' = c\<lparr>semaphore := s\<rparr>"
      by (auto simp: adjust_permits_def Let_def and_then_Inr_iff)
    then have room: "unat (total_permits ?s) + unat (?n - ?o) < 2 ^ 64"
      by (auto simp: add_permits_def checked_add_def split: if_splits)
    have d: "int (unat (?n - ?o)) = \<lfloor>new\<rfloor> - \<lfloor>old\<rfloor>"
      using 1 un by (simp add: unat_sub [OF less_imp_le] word_less_nat_alt)
    have "unat (total_permits ?s + (?n - ?o)) = unat (total_permits ?s) + unat (?n - ?o)"
      using room by (simp add: unat_word_ariths)
    with pool.grow_law [OF assms(2) room] s d show ?thesis by auto
  next
    case 2
    then have "\<not> ?o < ?n" by simp
    with 2 assms(1) obtain s where s: "remove_permits (?o - ?n) ?s = Inr s" "c' = c\<lparr>semaphore := s\<rparr>"
      by (auto simp: adjust_permits_def Let_def and_then_Inr_iff)
    then have room: "?o - ?n \<le> total_permits ?s"
      by (auto simp: remove_permits_def checked_sub_def split: if_splits)
    have d: "int (unat (?o - ?n)) = \<lfloor>old\<rfloor> - \<lfloor>new\<rfloor>"
      using 2 un by (simp add: unat_sub [OF less_imp_le] word_less_nat_alt)
    have "int (unat (total_permits ?s - (?o - ?n))) =
          int (unat (total_permits ?s)) - int (unat (?o - ?n))"
      using room by (simp add: unat_sub word_le_nat_alt)
    with pool.shrink_law [OF assms(2) room] s d show ?thesis by auto
  next
    case 3
    with assms un show ?thesis by (auto simp: adjust_permits_def Let_def)
  qed
qed

subsection \<open>Every step keeps the invariant\<close>

lemma acquire_poll_Inr_counts:
  assumes "sem_ok s" "acquire_poll a w s = Inr (r, s')"
  shows "sem_ok s'" "total_permits s' = total_permits s"
    "unat (outstanding_permits s') =
       unat (outstanding_permits s) + (case r of Ready _ \<Rightarrow> 1 | Pending \<Rightarrow> 0)"
proof -
  obtain t where t: "sem_abs s t" using assms(1) by (auto simp: sem_ok_def)
  let ?t = "snd (as_poll a w t)"
  from acquire_poll_refines_abs [OF t, of a w] assms(2)
  have r: "r = fst (as_poll a w t)" and t': "sem_abs s' ?t" by auto
  show "sem_ok s'" by (rule sem_abs_ok [OF t'])
  show "total_permits s' = total_permits s"
    using sem_abs_counts [OF t] sem_abs_counts [OF t'] as_poll_counts by metis
  have "unat (as_out ?t) = unat (as_out t) + (case r of Ready _ \<Rightarrow> 1 | Pending \<Rightarrow> 0)"
  proof (cases r)
    case (Ready u)
    then obtain t1 where "as_poll a w t = (Ready (), t1)" using r by (cases "as_poll a w t") auto
    then have "as_has t" using as_poll_ReadyD by blast
    then have "unat (as_out t + 1) = unat (as_out t) + 1"
      unfolding as_has_def by (rule unat_succ_less)
    then show ?thesis using Ready r as_poll_counts(2) [of a w t] by simp
  next
    case Pending
    then show ?thesis using r as_poll_counts(2) [of a w t] by simp
  qed
  then show "unat (outstanding_permits s') =
       unat (outstanding_permits s) + (case r of Ready _ \<Rightarrow> 1 | Pending \<Rightarrow> 0)"
    using sem_abs_counts [OF t] sem_abs_counts [OF t'] by simp
qed

lemma as_drop_counts: "as_total (as_drop a t) = as_total t" "as_out (as_drop a t) = as_out t"
  by (simp_all add: as_drop_def Let_def)

lemma acquire_drop_Inr_counts:
  assumes "sem_ok s" "acquire_drop a s = Inr s'"
  shows "sem_ok s' \<and> total_permits s' = total_permits s \<and>
         outstanding_permits s' = outstanding_permits s"
proof -
  obtain t where t: "sem_abs s t" using assms(1) by (auto simp: sem_ok_def)
  from acquire_drop_refines_abs [OF t, of a] assms(2) have t': "sem_abs s' (as_drop a t)" by auto
  show ?thesis
    using sem_abs_counts [OF t] sem_abs_counts [OF t'] sem_abs_ok [OF t'] as_drop_counts by simp
qed

lemma inv_pc: "ciad_inv \<sigma> \<Longrightarrow> holders \<sigma> i = Some (p, pc) \<Longrightarrow> pc_ok pc"
  by (simp add: ciad_inv_def)

lemma inv_move:
  assumes "ciad_inv \<sigma>" "holders \<sigma> i = Some (p, pc)" "pc_ok pc'" "limit_ok (limit c)"
    and "sem_ok (semaphore c)"
    and "outstanding_permits (semaphore c) = outstanding_permits (semaphore (cs_ciad \<sigma>))"
    and "int (unat (total_permits (semaphore c))) + owed_pc pc' - \<lfloor>limit c\<rfloor> =
         int (unat (total_permits (semaphore (cs_ciad \<sigma>)))) + owed_pc pc - \<lfloor>limit (cs_ciad \<sigma>)\<rfloor>"
  shows "ciad_inv (\<sigma>\<lparr>cs_ciad := c, holders := (holders \<sigma>)(i \<mapsto> (q, pc'))\<rparr>)"
proof -
  have fin: "finite (dom (holders \<sigma>))" using assms(1) by (simp add: ciad_inv_def)
  have "card (insert i (dom (holders \<sigma>))) = card (dom (holders \<sigma>))"
    using assms(2) by (simp add: insert_absorb domI)
  with assms owed_upd [OF fin assms(2), of q pc'] show ?thesis
    by (auto simp: ciad_inv_def owed_def)
qed

lemma upd_step_inv:
  assumes inv: "ciad_inv \<sigma>" and h: "holders \<sigma> i = Some (p, Updating pc)"
    and st: "upd_step (permit_update p) pc (cs_ciad \<sigma>) = Inr (pc', c)"
  shows "ciad_inv (\<sigma>\<lparr>cs_ciad := c, holders := (holders \<sigma>)(i \<mapsto>
           (p, if pc' = UpdDone then Releasing else Updating pc'))\<rparr>)"
proof -
  note ok = inv_pc [OF inv h]
  have sem: "sem_ok (semaphore (cs_ciad \<sigma>))" and lim: "limit_ok (limit (cs_ciad \<sigma>))"
    using inv by (simp_all add: ciad_inv_def)
  show ?thesis
  proof (cases pc)
    case UpdStart
    with st lim sem show ?thesis by (auto intro!: inv_move [OF inv h])
  next
    case (UpdTry old)
    show ?thesis
    proof (cases "permit_update p old")
      case None
      with UpdTry st lim sem show ?thesis by (auto intro!: inv_move [OF inv h])
    next
      case (Some new)
      have "limit_ok new" using ok UpdTry permit_update_ok [OF _ Some] by simp
      with UpdTry Some st lim sem show ?thesis
        by (auto intro!: inv_move [OF inv h] split: if_splits)
    qed
  next
    case (UpdAdjust old new)
    with st ok have "adjust_permits old new (cs_ciad \<sigma>) = Inr c" "pc' = UpdDone"
      "limit_ok old" "limit_ok new"
      by (auto simp: and_then_Inr_iff)
    with adjust_permits_effect [OF this(1) sem] UpdAdjust lim show ?thesis
      by (auto intro!: inv_move [OF inv h])
  next
    case UpdDone
    with st lim sem show ?thesis by (auto intro!: inv_move [OF inv h])
  qed
qed

lemma ciad_release_inv:
  assumes inv: "ciad_inv \<sigma>" and h: "holders \<sigma> i = Some (p, Releasing)"
    and st: "permit_drop (semaphore (cs_ciad \<sigma>)) = Inr s"
  shows "ciad_inv (\<sigma>\<lparr>cs_ciad := (cs_ciad \<sigma>)\<lparr>semaphore := s\<rparr>, holders := (holders \<sigma>)(i := None)\<rparr>)"
proof -
  let ?s = "semaphore (cs_ciad \<sigma>)"
  have fin: "finite (dom (holders \<sigma>))" and i: "i \<in> dom (holders \<sigma>)"
    and out: "unat (outstanding_permits ?s) = card (dom (holders \<sigma>))"
    using inv h by (auto simp: ciad_inv_def)
  then have "card (dom (holders \<sigma>)) \<noteq> 0" by auto
  with out have pos: "outstanding_permits ?s \<noteq> 0" by (metis unat_0)
  then have "0 < outstanding_permits ?s" by (simp add: word_neq_0_conv)
  with pool.give_back_law [of ?s] st inv
  have s: "sem_ok s" "total_permits s = total_permits ?s"
    "outstanding_permits s = outstanding_permits ?s - 1"
    by (auto simp: ciad_inv_def)
  have "unat (outstanding_permits s) = card (dom (holders \<sigma>) - {i})"
    using s(3) out i unat_pred [OF pos] by (simp add: card_Diff_singleton)
  with s inv owed_del [OF fin h] show ?thesis
    by (auto simp: ciad_inv_def owed_def)
qed

lemma poll_inv:
  assumes inv: "ciad_inv \<sigma>" and h: "holders \<sigma> i = None"
    and st: "acquire_poll a w (semaphore (cs_ciad \<sigma>)) = Inr (r, s)"
  shows "ciad_inv (case r of
      Pending \<Rightarrow> \<sigma>\<lparr>cs_ciad := (cs_ciad \<sigma>)\<lparr>semaphore := s\<rparr>\<rparr>
    | Ready _ \<Rightarrow> \<sigma>\<lparr>cs_ciad := (cs_ciad \<sigma>)\<lparr>semaphore := s\<rparr>,
                   holders := (holders \<sigma>)(i \<mapsto> (blank_permit, Granted))\<rparr>)"
proof -
  have sem: "sem_ok (semaphore (cs_ciad \<sigma>))" and fin: "finite (dom (holders \<sigma>))"
    using inv by (simp_all add: ciad_inv_def)
  have "card (insert i (dom (holders \<sigma>))) = card (dom (holders \<sigma>)) + 1"
    using fin h by (simp add: domIff)
  with acquire_poll_Inr_counts [OF sem st] inv owed_new [OF fin h, of blank_permit Granted]
  show ?thesis
    by (cases r) (auto simp: ciad_inv_def owed_def)
qed

lemma ciad_step_inv:
  assumes inv: "ciad_inv \<sigma>" and st: "ciad_step e \<sigma> = Some (Inr \<sigma>')"
  shows "ciad_inv \<sigma>'"
proof (cases e)
  case (CPoll a w i)
  with st obtain r s where "holders \<sigma> i = None"
    "acquire_poll a w (semaphore (cs_ciad \<sigma>)) = Inr (r, s)"
    "\<sigma>' = (case r of
      Pending \<Rightarrow> \<sigma>\<lparr>cs_ciad := (cs_ciad \<sigma>)\<lparr>semaphore := s\<rparr>\<rparr>
    | Ready _ \<Rightarrow> \<sigma>\<lparr>cs_ciad := (cs_ciad \<sigma>)\<lparr>semaphore := s\<rparr>,
                   holders := (holders \<sigma>)(i \<mapsto> (blank_permit, Granted))\<rparr>)"
    by (cases "holders \<sigma> i") (auto simp: and_then_Inr_iff Let_def split: if_splits)
  with poll_inv [OF inv] show ?thesis by simp
next
  case (CCancel a)
  with st obtain s where "acquire_drop a (semaphore (cs_ciad \<sigma>)) = Inr s"
    "\<sigma>' = \<sigma>\<lparr>cs_ciad := (cs_ciad \<sigma>)\<lparr>semaphore := s\<rparr>\<rparr>"
    by (auto simp: and_then_Inr_iff)
  with acquire_drop_Inr_counts [of "semaphore (cs_ciad \<sigma>)" a s] inv show ?thesis
    by (auto simp: ciad_inv_def owed_def)
next
  case (CEnter i)
  then obtain p where h: "holders \<sigma> i = Some (p, Granted)"
    and s': "\<sigma>' = \<sigma>\<lparr>cs_ciad := snd (ciad_enter (cs_ciad \<sigma>)),
            holders := (holders \<sigma>)(i \<mapsto> (fst (ciad_enter (cs_ciad \<sigma>)), Held))\<rparr>"
    using st by (auto simp: ciad_enter_def split: option.splits drop_pc.splits)
  show ?thesis unfolding s' using inv
    by (intro inv_move [OF inv h]) (auto simp: ciad_inv_def ciad_enter_def)
next
  case (CRespond i m)
  then obtain p where h: "holders \<sigma> i = Some (p, Held)"
    and s': "\<sigma>' = \<sigma>\<lparr>cs_ciad := cs_ciad \<sigma>, holders := (holders \<sigma>)(i \<mapsto> (p\<lparr>permit_mode := m\<rparr>, Held))\<rparr>"
    using st by (auto split: option.splits drop_pc.splits)
  show ?thesis unfolding s' using inv by (intro inv_move [OF inv h]) (auto simp: ciad_inv_def)
next
  case (CDrop i)
  then obtain p where h: "holders \<sigma> i = Some (p, Held)"
    and s': "\<sigma>' = \<sigma>\<lparr>cs_ciad := (cs_ciad \<sigma>)\<lparr>in_flight := in_flight (cs_ciad \<sigma>) - 1\<rparr>,
            holders := (holders \<sigma>)(i \<mapsto>
              (p, if permit_mode p = Ignore then Releasing else Updating UpdStart))\<rparr>"
    using st by (auto split: option.splits drop_pc.splits)
  show ?thesis unfolding s' using inv by (intro inv_move [OF inv h]) (auto simp: ciad_inv_def)
next
  case (CUpdate i)
  with st obtain p pc pc' c where "holders \<sigma> i = Some (p, Updating pc)"
    "upd_step (permit_update p) pc (cs_ciad \<sigma>) = Inr (pc', c)"
    "\<sigma>' = \<sigma>\<lparr>cs_ciad := c, holders := (holders \<sigma>)(i \<mapsto>
           (p, if pc' = UpdDone then Releasing else Updating pc'))\<rparr>"
    by (auto simp: and_then_Inr_iff split: option.splits drop_pc.splits)
  with upd_step_inv [OF inv] show ?thesis by simp
next
  case (CRelease i)
  with st obtain p s where "holders \<sigma> i = Some (p, Releasing)"
    "permit_drop (semaphore (cs_ciad \<sigma>)) = Inr s"
    "\<sigma>' = \<sigma>\<lparr>cs_ciad := (cs_ciad \<sigma>)\<lparr>semaphore := s\<rparr>, holders := (holders \<sigma>)(i := None)\<rparr>"
    by (auto simp: and_then_Inr_iff split: option.splits drop_pc.splits)
  with ciad_release_inv [OF inv] show ?thesis by simp
qed

lemma ciad_init_inv: "ciad_inv ciad_init"
  using ciad_new_ok unat_limit [of "limit ciad_new"]
  by (auto simp: ciad_inv_def ciad_init_def owed_def ciad_ok_def)
    (simp add: ciad_new_def sem_new_def)

lemma ciad_reachable_inv: "ciad_reachable \<sigma> \<Longrightarrow> ciad_inv \<sigma>"
  by (induction rule: ciad_reachable.induct) (auto intro: ciad_init_inv ciad_step_inv)

text \<open>C15: Conservation of permits under every interleaving: in each reachable state of any number
  of threads the semaphore's total plus the adjustments still to be made is the integer part of the
  limit, which stays between 1 and one million. So once no thread stands between its
  compare-and-exchange and its adjustment, the total is exactly the integer part of the limit.\<close>

theorem ciad_conserves_permits:
  assumes "ciad_reachable \<sigma>"
  shows "int (unat (total_permits (semaphore (cs_ciad \<sigma>)))) + owed \<sigma> = \<lfloor>limit (cs_ciad \<sigma>)\<rfloor> \<and>
    1 \<le> limit (cs_ciad \<sigma>) \<and> limit (cs_ciad \<sigma>) \<le> 1000000 \<and>
    ((\<forall>i p old new. holders \<sigma> i \<noteq> Some (p, Updating (UpdAdjust old new))) \<longrightarrow>
       int (unat (total_permits (semaphore (cs_ciad \<sigma>)))) = \<lfloor>limit (cs_ciad \<sigma>)\<rfloor>)"
proof -
  have inv: "ciad_inv \<sigma>" by (rule ciad_reachable_inv [OF assms])
  moreover have "owed \<sigma> = 0"
    if quiet: "\<forall>i p old new. holders \<sigma> i \<noteq> Some (p, Updating (UpdAdjust old new))"
  proof -
    have "owed_pc (snd (the (holders \<sigma> i))) = 0" if i: "i \<in> dom (holders \<sigma>)" for i
    proof -
      obtain v where v: "holders \<sigma> i = Some v" using i by blast
      then show ?thesis using quiet owed_pc_nonzero [of "snd v"] by (cases v) fastforce
    qed
    then show ?thesis by (simp add: owed_def)
  qed
  ultimately show ?thesis by (auto simp: ciad_inv_def limit_ok_def)
qed

theorem ciad_conserves_permits_witness:
  "int (unat (total_permits (semaphore (cs_ciad ciad_init)))) = \<lfloor>limit (cs_ciad ciad_init)\<rfloor>"
  using ciad_conserves_permits [OF ciad_reach_init] by (simp add: ciad_init_def)

subsection \<open>Overlapping updates\<close>

lemma owed_single:
  assumes "ciad_inv \<sigma>" "holders \<sigma> i = Some (p, pc)"
    and "\<And>j q pc'. j \<noteq> i \<Longrightarrow> holders \<sigma> j = Some (q, pc') \<Longrightarrow> owed_pc pc' = 0"
  shows "owed \<sigma> = owed_pc pc"
proof -
  have fin: "finite (dom (holders \<sigma>))" and i: "i \<in> dom (holders \<sigma>)"
    using assms by (auto simp: ciad_inv_def)
  have "owed_pc (snd (the (holders \<sigma> j))) = 0" if "j \<in> dom (holders \<sigma>) - {i}" for j
    using that assms(3) by fastforce
  then have "(\<Sum>j \<in> dom (holders \<sigma>) - {i}. owed_pc (snd (the (holders \<sigma> j)))) = 0"
    by (simp add: sum.neutral)
  with sum.remove [OF fin i, of "\<lambda>j. owed_pc (snd (the (holders \<sigma> j)))"] assms(2)
  show ?thesis by (simp add: owed_def)
qed

lemma adjust_permits_single:
  assumes inv: "ciad_inv \<sigma>" and h: "holders \<sigma> i = Some (p, Updating (UpdAdjust old new))"
    and one: "owed \<sigma> = \<lfloor>new\<rfloor> - \<lfloor>old\<rfloor>"
  shows "\<exists>c'. adjust_permits old new (cs_ciad \<sigma>) = Inr c'"
proof -
  let ?o = "f64_to_usize old" and ?n = "f64_to_usize new" and ?s = "semaphore (cs_ciad \<sigma>)"
  have ok: "limit_ok old" "limit_ok new" using inv_pc [OF inv h] by auto
  have tot: "int (unat (total_permits ?s)) + (\<lfloor>new\<rfloor> - \<lfloor>old\<rfloor>) = \<lfloor>limit (cs_ciad \<sigma>)\<rfloor>"
    and sem: "sem_ok ?s" and lim: "1 \<le> \<lfloor>limit (cs_ciad \<sigma>)\<rfloor>" "\<lfloor>limit (cs_ciad \<sigma>)\<rfloor> \<le> 1000000"
    using inv one by (auto simp: ciad_inv_def limit_ok_def le_floor_iff floor_le_iff)
  note un = unat_limit [OF ok(1)] unat_limit [OF ok(2)]
  have "unat (total_permits ?s) + unat (?n - ?o) < 2 ^ 64" if "?o < ?n"
  proof -
    have "int (unat (?n - ?o)) = \<lfloor>new\<rfloor> - \<lfloor>old\<rfloor>"
      using that un by (simp add: unat_sub [OF less_imp_le] word_less_nat_alt)
    then have "unat (total_permits ?s) + unat (?n - ?o) \<le> 1000000" using tot lim by linarith
    then show ?thesis by simp
  qed
  moreover have "?o - ?n \<le> total_permits ?s" if "?n < ?o"
  proof -
    have "int (unat (?o - ?n)) = \<lfloor>old\<rfloor> - \<lfloor>new\<rfloor>"
      using that un by (simp add: unat_sub [OF less_imp_le] word_less_nat_alt)
    then have "unat (?o - ?n) \<le> unat (total_permits ?s)" using tot lim by linarith
    then show ?thesis by (simp add: word_le_nat_alt)
  qed
  ultimately show ?thesis
    using pool.grow_law [OF sem, of "?n - ?o"] pool.shrink_law [OF sem, of "?o - ?n"]
    by (auto simp: adjust_permits_def Let_def)
qed

lemma upd_step_single:
  assumes inv: "ciad_inv \<sigma>" and h: "holders \<sigma> i = Some (p, Updating pc)"
    and alone: "\<And>j q pc'. j \<noteq> i \<Longrightarrow> holders \<sigma> j = Some (q, Updating pc') \<Longrightarrow> owed_pc (Updating pc) \<noteq> 0 \<Longrightarrow>
      owed_pc (Updating pc') = 0"
  shows "upd_step (permit_update p) pc (cs_ciad \<sigma>) \<noteq> Inl f"
proof
  assume "upd_step (permit_update p) pc (cs_ciad \<sigma>) = Inl f"
  then obtain old new where pc: "pc = UpdAdjust old new" and adj: "adjust_permits old new (cs_ciad \<sigma>) = Inl f"
    by (cases pc) (auto simp: and_then_Inl_iff split: option.splits if_splits)
  have ne: "\<lfloor>new\<rfloor> \<noteq> \<lfloor>old\<rfloor>"
  proof
    assume "\<lfloor>new\<rfloor> = \<lfloor>old\<rfloor>"
    with inv_pc [OF inv h] pc unat_limit [of old] unat_limit [of new]
    have "f64_to_usize new = f64_to_usize old" by (simp add: word_uint_eq_iff)
    with adj show False by (simp add: adjust_permits_def)
  qed
  have "owed_pc pc' = 0" if "j \<noteq> i" "holders \<sigma> j = Some (q, pc')" for j q pc'
    using alone [OF that(1)] that(2) owed_pc_nonzero [of pc'] ne pc by force
  from owed_single [OF inv h this] pc have "owed \<sigma> = \<lfloor>new\<rfloor> - \<lfloor>old\<rfloor>" by simp
  then show False using adjust_permits_single [OF inv h [unfolded pc]] adj by simp
qed

lemma release_step_ok:
  assumes inv: "ciad_inv \<sigma>" and h: "holders \<sigma> i = Some (p, Releasing)"
  shows "permit_drop (semaphore (cs_ciad \<sigma>)) \<noteq> Inl f"
proof -
  have "dom (holders \<sigma>) \<noteq> {}" using h by auto
  with inv have "0 < unat (outstanding_permits (semaphore (cs_ciad \<sigma>)))"
    by (auto simp: ciad_inv_def card_gt_0_iff)
  then have "0 < outstanding_permits (semaphore (cs_ciad \<sigma>))" by (simp add: word_less_nat_alt)
  moreover have "sem_ok (semaphore (cs_ciad \<sigma>))" using inv by (simp add: ciad_inv_def)
  ultimately show ?thesis using pool.give_back_law by force
qed

text \<open>C16: Updates of the limit that do not overlap never panic: in a reachable state in which at
  most one thread stands between its compare-and-exchange and an adjustment that is not zero, no step of any
  thread faults, that adjustment included.\<close>

theorem ciad_safe_without_overlap:
  assumes "ciad_reachable \<sigma>"
    and "\<forall>i p pc j q pc'. holders \<sigma> i = Some (p, Updating pc) \<longrightarrow>
           holders \<sigma> j = Some (q, Updating pc') \<longrightarrow>
           owed_pc (Updating pc) \<noteq> 0 \<longrightarrow> owed_pc (Updating pc') \<noteq> 0 \<longrightarrow> i = j"
  shows "ciad_step e \<sigma> \<noteq> Some (Inl f)"
proof
  assume bad: "ciad_step e \<sigma> = Some (Inl f)"
  have inv: "ciad_inv \<sigma>" by (rule ciad_reachable_inv [OF assms(1)])
  then have sem: "sem_ok (semaphore (cs_ciad \<sigma>))" by (simp add: ciad_inv_def)
  show False
  proof (cases e)
    case (CPoll a w i)
    with bad acquire_poll_sem_ok [OF sem, of a w] show False
      by (auto simp: Let_def split: if_splits)
  next
    case (CCancel a)
    obtain t where t: "sem_abs (semaphore (cs_ciad \<sigma>)) t" using sem by (auto simp: sem_ok_def)
    with bad CCancel acquire_drop_refines_abs [OF t, of a] show False by auto
  next
    case (CUpdate i)
    with bad obtain p pc where h: "holders \<sigma> i = Some (p, Updating pc)"
      and st: "upd_step (permit_update p) pc (cs_ciad \<sigma>) = Inl f"
      by (auto simp: and_then_Inl_iff split: option.splits drop_pc.splits prod.splits)
    have "upd_step (permit_update p) pc (cs_ciad \<sigma>) \<noteq> Inl f"
      by (rule upd_step_single [OF inv h]) (use assms(2) h in blast)
    with st show False by blast
  next
    case (CRelease i)
    with bad obtain p where "holders \<sigma> i = Some (p, Releasing)" "permit_drop (semaphore (cs_ciad \<sigma>)) = Inl f"
      by (auto simp: and_then_Inl_iff split: option.splits drop_pc.splits)
    with release_step_ok [OF inv] show False by blast
  qed (use bad in \<open>auto simp: ciad_enter_def split: option.splits drop_pc.splits\<close>)
qed

subsection \<open>What overlapping updates can do\<close>

definition idle_sem :: "usize \<Rightarrow> usize \<Rightarrow> sem" where
  "idle_sem n k =
     \<lparr>total_permits = n, outstanding_permits = k, head = None, tail = None, nodes = Map.empty,
      woken = []\<rparr>"

definition lim_state :: "f64 \<Rightarrow> usize \<Rightarrow> nat set \<Rightarrow> ciad_sys \<Rightarrow> bool" where
  "lim_state l n A \<sigma> \<longleftrightarrow>
     ciad_reachable \<sigma> \<and> semaphore (cs_ciad \<sigma>) = idle_sem n 18 \<and> limit (cs_ciad \<sigma>) = l \<and>
     (\<forall>i \<in> A. \<exists>p. holders \<sigma> i = Some (p, Held))"

fun ciad_run :: "ciad_event list \<Rightarrow> ciad_sys \<Rightarrow> (sem_fault + ciad_sys) option" where
  "ciad_run [] \<sigma> = Some (Inr \<sigma>)"
| "ciad_run (e # es) \<sigma> =
     (case ciad_step e \<sigma> of Some (Inr \<sigma>') \<Rightarrow> ciad_run es \<sigma>' | r \<Rightarrow> r)"

lemma ciad_run_reachable:
  "ciad_reachable \<sigma> \<Longrightarrow> ciad_run es \<sigma> = Some (Inr \<sigma>') \<Longrightarrow> ciad_reachable \<sigma>'"
  by (induction es arbitrary: \<sigma>)
    (auto split: option.splits sum.splits intro: ciad_reach_step)

lemma reach_held:
  "k \<le> 18 \<Longrightarrow> \<exists>\<sigma>. ciad_reachable \<sigma> \<and> semaphore (cs_ciad \<sigma>) = idle_sem 20 (of_nat k) \<and>
     limit (cs_ciad \<sigma>) = 20 \<and> (\<forall>i < k. \<exists>p. holders \<sigma> i = Some (p, Held)) \<and>
     (\<forall>i \<ge> k. holders \<sigma> i = None)"
proof (induction k)
  case 0
  show ?case
    using ciad_reach_init
    by (intro exI [of _ ciad_init])
      (simp add: ciad_init_def ciad_new_def sem_new_def idle_sem_def limit_consts,
       simp add: INITIAL_LIMIT_def)
next
  case (Suc k)
  then obtain \<sigma> where s: "ciad_reachable \<sigma>" "semaphore (cs_ciad \<sigma>) = idle_sem 20 (of_nat k)"
    "limit (cs_ciad \<sigma>) = 20" "\<forall>i < k. \<exists>p. holders \<sigma> i = Some (p, Held)"
    "\<forall>i \<ge> k. holders \<sigma> i = None" by auto
  have "(of_nat k :: usize) < 20" using Suc.prems by (simp add: word_less_nat_alt unat_of_nat)
  with s have "\<exists>\<sigma>'. ciad_run [CPoll 0 0 k, CEnter k] \<sigma> = Some (Inr \<sigma>') \<and>
      semaphore (cs_ciad \<sigma>') = idle_sem 20 (of_nat (Suc k)) \<and> limit (cs_ciad \<sigma>') = 20 \<and>
      (\<forall>i < Suc k. \<exists>p. holders \<sigma>' i = Some (p, Held)) \<and> (\<forall>i \<ge> Suc k. holders \<sigma>' i = None)"
    by (auto simp: acquire_poll_def idle_sem_def has_permits_def ciad_enter_def domIff less_Suc_eq
        add.commute)
  with ciad_run_reachable [OF s(1)] show ?case by blast
qed

lemma reach_cas:
  assumes "lim_state l n A \<sigma>" "i \<in> A" "m \<noteq> Ignore"
    and "\<And>p. permit_mode p = m \<Longrightarrow> permit_update p l = Some l'"
  shows "\<exists>\<sigma>' p. lim_state l' n (A - {i}) \<sigma>' \<and>
           holders \<sigma>' i = Some (p, Updating (UpdAdjust l l')) \<and>
           (\<forall>j. j \<noteq> i \<longrightarrow> holders \<sigma>' j = holders \<sigma> j)"
proof -
  obtain p where p: "holders \<sigma> i = Some (p, Held)" using assms by (auto simp: lim_state_def)
  let ?p = "p\<lparr>permit_mode := m\<rparr>"
  have "permit_update ?p l = Some l'" using assms(4) [of ?p] by simp
  with p assms have "\<exists>\<sigma>'. ciad_run [CRespond i m, CDrop i, CUpdate i, CUpdate i] \<sigma> = Some (Inr \<sigma>') \<and>
      semaphore (cs_ciad \<sigma>') = idle_sem n 18 \<and> limit (cs_ciad \<sigma>') = l' \<and>
      holders \<sigma>' = (holders \<sigma>)(i \<mapsto> (?p, Updating (UpdAdjust l l')))"
    by (auto simp: lim_state_def)
  then show ?thesis
    using ciad_run_reachable [of \<sigma>] assms(1) by (fastforce simp: lim_state_def)
qed

lemma reach_remove:
  assumes "lim_state l n A \<sigma>" "holders \<sigma> i = Some (p, Updating (UpdAdjust old new))" "i \<notin> A"
    and "f64_to_usize new < f64_to_usize old" "f64_to_usize old - f64_to_usize new \<le> n"
  shows "\<exists>\<sigma>'. lim_state l (n - (f64_to_usize old - f64_to_usize new)) A \<sigma>' \<and>
           (\<forall>j. j \<noteq> i \<longrightarrow> holders \<sigma>' j = holders \<sigma> j)"
proof -
  from assms have "\<not> f64_to_usize old < f64_to_usize new" by simp
  with assms have "\<exists>\<sigma>'. ciad_run [CUpdate i] \<sigma> = Some (Inr \<sigma>') \<and>
      semaphore (cs_ciad \<sigma>') = idle_sem (n - (f64_to_usize old - f64_to_usize new)) 18 \<and>
      limit (cs_ciad \<sigma>') = l \<and> holders \<sigma>' = (holders \<sigma>)(i \<mapsto> (p, Releasing))"
    by (simp add: lim_state_def adjust_permits_def remove_permits_def checked_sub_def Let_def
        idle_sem_def)
  then show ?thesis
    using ciad_run_reachable [of \<sigma>] assms(1,3) by (fastforce simp: lim_state_def)
qed

lemma reach_drop:
  assumes "lim_state l n A \<sigma>" "i \<in> A" "dropped_update l = Some l'"
    and "f64_to_usize l = n" "f64_to_usize l' = n'" "n' < n"
  shows "\<exists>\<sigma>'. lim_state l' n' (A - {i}) \<sigma>'"
proof -
  have "permit_update p l = Some l'" if "permit_mode p = Dropped" for p
    using that assms(3) by (simp add: permit_update_def)
  then obtain \<sigma>1 p where s1: "lim_state l' n (A - {i}) \<sigma>1"
    "holders \<sigma>1 i = Some (p, Updating (UpdAdjust l l'))"
    using reach_cas [OF assms(1,2), of Dropped l'] by auto
  have "n - n' \<le> n" using assms(6) by (simp add: word_sub_le)
  with reach_remove [OF s1] assms show ?thesis by auto
qed

lemma f64_to_usize_nat: "n < 2 ^ 64 \<Longrightarrow> f64_to_usize (of_nat n) = of_nat n"
  by (simp add: f64_to_usize_def)

lemma dropped_update_nat:
  assumes "of_nat m \<le> of_nat n * (9 / 10 :: rat)" "of_nat n * (9 / 10) \<le> of_nat m + (14 / 16 :: rat)"
    and "1 \<le> m" "n \<le> 20"
  shows "dropped_update (of_nat n) = Some (of_nat m)"
proof -
  let ?x = "of_nat n * BACKOFF_RATIO :: rat"
  have "of_nat m \<le> of_nat n * (9 / 10 :: rat)" by (rule assms(1))
  also have "\<dots> \<le> ?x" using backoff_ratio_bounds by (intro mult_left_mono) auto
  finally have lo: "of_int (int m) \<le> ?x" by simp
  have "?x \<le> of_nat n * (9 / 10 + 1 / 1000000000)"
    using backoff_ratio_bounds by (intro mult_left_mono) auto
  also have "\<dots> = of_nat n * (9 / 10) + of_nat n / 1000000000" by (simp add: algebra_simps)
  also have "\<dots> \<le> of_nat m + 14 / 16 + 20 / 1000000000"
    using assms(2,4) by (intro add_mono divide_right_mono) auto
  finally have hi: "?x \<le> of_int (int m) + 15 / 16" by simp
  have "of_nat m \<le> (of_nat 20 :: rat)" using assms(1,4) by linarith
  then have "m \<le> 20" by (simp only: of_nat_le_iff)
  then have "\<lfloor>f64_round ?x\<rfloor> = int m" using lo hi by (intro f64.floor_rnd) auto
  with assms(3) show ?thesis by (simp add: dropped_update_eq)
qed

lemma success_update_one: "success_update k 1 = Some 2"
proof -
  have "\<lfloor>f64_round (1 * BACKOFF_RATIO)\<rfloor> = 0"
    using backoff_ratio_bounds by (intro f64.floor_rnd) auto
  then have "unat (f64_to_usize (f64_round BACKOFF_RATIO)) = 0"
    using backoff_ratio_bounds by (subst unat_f64_to_usize) (auto intro: f64.rnd_nonneg
      simp: floor_eq_iff)
  then have "f64_to_usize (f64_round BACKOFF_RATIO) = 0" by (simp add: unat_eq_zero)
  moreover have "f64_round 1 = 1" "f64_round 2 = 2"
    using f64_round_of_int [of 1] f64_round_of_int [of 2] by simp_all
  ultimately show ?thesis
    by (simp add: success_update_def f64_mul_def f64_add_def f64_div_def limit_consts)
qed

text \<open>A state in which thread 0 stands between its compare-and-exchange and its adjustment, thread 1 is
  about to begin its update, and sixteen more permits are held.\<close>

lemma reach_one_updating:
  "\<exists>\<sigma> p q. ciad_reachable \<sigma> \<and> holders \<sigma> 0 = Some (p, Updating (UpdAdjust 20 18)) \<and>
     holders \<sigma> 1 = Some (q, Updating UpdStart) \<and> (\<forall>i \<in> {2..17}. \<exists>p. holders \<sigma> i = Some (p, Held)) \<and>
     (\<forall>i \<ge> 18. holders \<sigma> i = None)"
proof -
  obtain \<sigma> where s: "ciad_reachable \<sigma>" "semaphore (cs_ciad \<sigma>) = idle_sem 20 (of_nat 18)"
    "limit (cs_ciad \<sigma>) = 20" "\<forall>i < 18. \<exists>p. holders \<sigma> i = Some (p, Held)" "\<forall>i \<ge> 18. holders \<sigma> i = None"
    using reach_held [of 18] by auto
  then have l: "lim_state 20 20 {0..17} \<sigma>" by (simp add: lim_state_def)
  have "permit_update p 20 = Some 18" if "permit_mode p = Dropped" for p
    using that dropped_update_nat [of 18 20] by (simp add: permit_update_def)
  then obtain \<sigma>1 p where s1: "lim_state 18 20 ({0..17} - {0}) \<sigma>1"
    "holders \<sigma>1 0 = Some (p, Updating (UpdAdjust 20 18))" "\<forall>j. j \<noteq> 0 \<longrightarrow> holders \<sigma>1 j = holders \<sigma> j"
    using reach_cas [OF l, of 0 Dropped 18] by auto
  obtain q where "holders \<sigma> 1 = Some (q, Held)" using s(4) [rule_format, of 1] by auto
  then have q: "holders \<sigma>1 1 = Some (q, Held)" using s1(3) by simp
  then obtain \<sigma>2 where s2: "ciad_run [CRespond 1 Dropped, CDrop 1] \<sigma>1 = Some (Inr \<sigma>2)"
    "holders \<sigma>2 = (holders \<sigma>1)(1 \<mapsto> (q\<lparr>permit_mode := Dropped\<rparr>, Updating UpdStart))"
    by simp
  have "ciad_reachable \<sigma>2" using ciad_run_reachable [OF _ s2(1)] s1(1) by (simp add: lim_state_def)
  with s s1 s2(2) show ?thesis by (intro exI [of _ \<sigma>2]) auto
qed

theorem ciad_safe_without_overlap_witness:
  "\<exists>\<sigma> \<sigma>' p q. ciad_reachable \<sigma> \<and> holders \<sigma> 0 = Some (p, Updating (UpdAdjust 20 18)) \<and>
     holders \<sigma> 1 = Some (q, Updating UpdStart) \<and> ciad_step (CUpdate 0) \<sigma> = Some (Inr \<sigma>')"
proof -
  obtain \<sigma> p q where s: "ciad_reachable \<sigma>" "holders \<sigma> 0 = Some (p, Updating (UpdAdjust 20 18))"
    "holders \<sigma> 1 = Some (q, Updating UpdStart)" "\<forall>i \<in> {2..17}. \<exists>p. holders \<sigma> i = Some (p, Held)"
    "\<forall>i \<ge> 18. holders \<sigma> i = None"
    using reach_one_updating by blast
  have "i = 0" if "holders \<sigma> i = Some (r, Updating pc)" "owed_pc (Updating pc) \<noteq> 0" for i r pc
  proof -
    consider "i = 0" | "i = 1" | "i \<in> {2..17}" | "18 \<le> i" by fastforce
    then show ?thesis using that s by cases (auto dest!: bspec [of _ _ i])
  qed
  then have "\<forall>i p pc j q pc'. holders \<sigma> i = Some (p, Updating pc) \<longrightarrow> holders \<sigma> j = Some (q, Updating pc') \<longrightarrow>
      owed_pc (Updating pc) \<noteq> 0 \<longrightarrow> owed_pc (Updating pc') \<noteq> 0 \<longrightarrow> i = j" by blast
  from ciad_safe_without_overlap [OF s(1) this, of "CUpdate 0"]
  have ok: "ciad_step (CUpdate 0) \<sigma> \<noteq> Some (Inl f)" for f by blast
  obtain m where m: "ciad_step (CUpdate 0) \<sigma> = Some m" using s(2) by simp
  with ok obtain \<sigma>' where "m = Inr \<sigma>'" by (cases m) auto
  with m s(1-3) show ?thesis by blast
qed

lemma reach_down:
  assumes "\<exists>\<sigma>. lim_state (of_nat n) (of_nat n) {i..17} \<sigma>" "i \<le> 17"
    and "of_nat m \<le> of_nat n * (9 / 10 :: rat)" "of_nat n * (9 / 10) \<le> of_nat m + (14 / 16 :: rat)"
    and "1 \<le> m" "m < n" "n \<le> 20"
  shows "\<exists>\<sigma>. lim_state (of_nat m) (of_nat m) {Suc i..17} \<sigma>"
proof -
  obtain \<sigma> where s: "lim_state (of_nat n) (of_nat n) {i..17} \<sigma>" using assms(1) by blast
  have "(of_nat m :: usize) < of_nat n" using assms(6,7)
    by (simp add: word_less_nat_alt unat_of_nat)
  moreover have "{i..17} - {i} = {Suc i..17}" by auto
  ultimately show ?thesis
    using reach_drop [OF s, of i "of_nat m" "of_nat m"] dropped_update_nat [OF assms(3,4,5,7)]
      assms f64_to_usize_nat [of n] f64_to_usize_nat [of m] by simp
qed

lemma reach_bottom: "\<exists>\<sigma>. lim_state 1 1 {14..17} \<sigma>"
proof -
  obtain \<sigma> where "ciad_reachable \<sigma>" "semaphore (cs_ciad \<sigma>) = idle_sem 20 (of_nat 18)"
    "limit (cs_ciad \<sigma>) = 20" "\<forall>i < 18. \<exists>p. holders \<sigma> i = Some (p, Held)"
    using reach_held [of 18] by auto
  then have "\<exists>\<sigma>. lim_state (of_nat 20) (of_nat 20) {0..17} \<sigma>"
    by (intro exI [of _ \<sigma>]) (simp add: lim_state_def)
  then have "\<exists>\<sigma>. lim_state (of_nat 18) (of_nat 18) {Suc 0..17} \<sigma>" by (rule reach_down) simp_all
  then have "\<exists>\<sigma>. lim_state (of_nat 16) (of_nat 16) {Suc (Suc 0)..17} \<sigma>" by (rule reach_down) simp_all
  then have "\<exists>\<sigma>. lim_state (of_nat 14) (of_nat 14) {3..17} \<sigma>"
    using reach_down [of 16 2 14] by (simp add: numeral_eq_Suc)
  then have "\<exists>\<sigma>. lim_state (of_nat 12) (of_nat 12) {4..17} \<sigma>" using reach_down [of 14 3 12] by simp
  then have "\<exists>\<sigma>. lim_state (of_nat 10) (of_nat 10) {5..17} \<sigma>" using reach_down [of 12 4 10] by simp
  then have "\<exists>\<sigma>. lim_state (of_nat 9) (of_nat 9) {6..17} \<sigma>" using reach_down [of 10 5 9] by simp
  then have "\<exists>\<sigma>. lim_state (of_nat 8) (of_nat 8) {7..17} \<sigma>" using reach_down [of 9 6 8] by simp
  then have "\<exists>\<sigma>. lim_state (of_nat 7) (of_nat 7) {8..17} \<sigma>" using reach_down [of 8 7 7] by simp
  then have "\<exists>\<sigma>. lim_state (of_nat 6) (of_nat 6) {9..17} \<sigma>" using reach_down [of 7 8 6] by simp
  then have "\<exists>\<sigma>. lim_state (of_nat 5) (of_nat 5) {10..17} \<sigma>" using reach_down [of 6 9 5] by simp
  then have "\<exists>\<sigma>. lim_state (of_nat 4) (of_nat 4) {11..17} \<sigma>" using reach_down [of 5 10 4] by simp
  then have "\<exists>\<sigma>. lim_state (of_nat 3) (of_nat 3) {12..17} \<sigma>" using reach_down [of 4 11 3] by simp
  then have "\<exists>\<sigma>. lim_state (of_nat 2) (of_nat 2) {13..17} \<sigma>" using reach_down [of 3 12 2] by simp
  then show ?thesis using reach_down [of 2 13 1] by simp
qed

text \<open>C17: The compare-and-exchange of the limit and the adjustment of the semaphore are not one
  atomic action, and overlapping updates can panic: a state is reachable in which two successful
  and two throttled requests finish together and a thread's \<^verbatim>\<open>remove_permits\<close> underflows.\<close>

theorem ciad_overlap_underflow:
  "\<exists>\<sigma> i. ciad_reachable \<sigma> \<and> ciad_step (CUpdate i) \<sigma> = Some (Inl PermitUnderflow)"
proof -
  have up: "permit_update p 1 = Some 2" if "permit_mode p = Success" for p
    using that by (simp add: permit_update_def success_update_one)
  have down: "permit_update p 2 = Some 1" if "permit_mode p = Dropped" for p
    using that dropped_update_nat [of 1 2] by (simp add: permit_update_def)
  obtain s0 where s0: "lim_state 1 1 {14..17} s0" using reach_bottom by blast
  obtain s1 where s1: "lim_state 2 1 ({14..17} - {14}) s1"
    using reach_cas [OF s0, of 14 Success 2] up by auto
  obtain s2 p2 where s2: "lim_state 1 1 ({14..17} - {14} - {15}) s2"
    and p2: "holders s2 15 = Some (p2, Updating (UpdAdjust 2 1))"
    using reach_cas [OF s1, of 15 Dropped 1] down by auto
  obtain s3 where s3: "lim_state 2 1 ({14..17} - {14} - {15} - {16}) s3"
    and h3: "\<forall>j. j \<noteq> 16 \<longrightarrow> holders s3 j = holders s2 j"
    using reach_cas [OF s2, of 16 Success 2] up by auto
  obtain s4 p4 where s4: "lim_state 1 1 ({14..17} - {14} - {15} - {16} - {17}) s4"
    and p4: "holders s4 17 = Some (p4, Updating (UpdAdjust 2 1))"
    and h4: "\<forall>j. j \<noteq> 17 \<longrightarrow> holders s4 j = holders s3 j"
    using reach_cas [OF s3, of 17 Dropped 1] down by auto
  have us: "f64_to_usize 1 = 1" "f64_to_usize 2 = 2"
    using f64_to_usize_nat [of 1] f64_to_usize_nat [of 2] by simp_all
  have "holders s4 15 = Some (p2, Updating (UpdAdjust 2 1))" using p2 h3 h4 by simp
  then obtain s5 where "lim_state 1 0 ({14..17} - {14} - {15} - {16} - {17}) s5"
    "\<forall>j. j \<noteq> 15 \<longrightarrow> holders s5 j = holders s4 j"
    using reach_remove [OF s4, of 15] us by auto
  with p4 have "ciad_reachable s5" "ciad_step (CUpdate 17) s5 = Some (Inl PermitUnderflow)"
    by (simp_all add: lim_state_def adjust_permits_def remove_permits_def checked_sub_def us
        Let_def idle_sem_def)
  then show ?thesis by blast
qed

end
