(* ===== verification/Limiter.thy ===== *)
theory Limiter
  imports CiadSystem
begin

text \<open>
  The per-host limiter of \<^verbatim>\<open>service/node/limiter/mod.rs\<close>: one limiter for the host and one for
  every endpoint called so far. \<^verbatim>\<open>Limiter::acquire\<close> is an async function; \<open>limiter_acquire\<close> is its
  future, with one constructor per await point, and \<open>limiter_poll\<close> runs it until it is ready or
  has to wait. Dropping the future early and dropping a permit follow the drop order of Rust.
\<close>

record endpoint_key =
  ep_method :: string
  ep_pattern :: string

record limiter =
  host :: ciad
  endpoints :: "endpoint_key \<rightharpoonup> ciad"

record limiter_permit =
  lp_key :: endpoint_key
  lp_endpoint :: ciad_permit
  lp_host :: ciad_permit

datatype limiter_acquire =
    AcqStart endpoint_key
  | AcqEndpoint endpoint_key
  | AcqHost endpoint_key ciad_permit

definition limiter_new :: limiter where
  "limiter_new = \<lparr>host = ciad_new, endpoints = Map.empty\<rparr>"

definition entry_or_new :: "endpoint_key \<Rightarrow> limiter \<Rightarrow> limiter" where
  "entry_or_new k l =
     (case endpoints l k of
        Some _ \<Rightarrow> l
      | None \<Rightarrow> l\<lparr>endpoints := (endpoints l)(k \<mapsto> ciad_new)\<rparr>)"

definition poll_host ::
  "addr \<Rightarrow> waker \<Rightarrow> endpoint_key \<Rightarrow> ciad_permit \<Rightarrow> limiter \<Rightarrow>
   sem_fault + ((limiter_acquire + limiter_permit) \<times> limiter)" where
  "poll_host a w k ep l =
     and_then (ciad_acquire_poll a w (host l)) (\<lambda>(r, c).
       Inr (case r of
              Pending \<Rightarrow> (Inl (AcqHost k ep), l\<lparr>host := c\<rparr>)
            | Ready hp \<Rightarrow>
                (Inr \<lparr>lp_key = k, lp_endpoint = ep, lp_host = hp\<rparr>, l\<lparr>host := c\<rparr>)))"

definition poll_endpoint ::
  "addr \<Rightarrow> waker \<Rightarrow> endpoint_key \<Rightarrow> limiter \<Rightarrow>
   sem_fault + ((limiter_acquire + limiter_permit) \<times> limiter)" where
  "poll_endpoint a w k l =
     (case endpoints l k of
        None \<Rightarrow> Inl (Dangling a)
      | Some c \<Rightarrow>
          and_then (ciad_acquire_poll a w c) (\<lambda>(r, c').
            let l' = l\<lparr>endpoints := (endpoints l)(k \<mapsto> c')\<rparr>
            in case r of
                 Pending \<Rightarrow> Inr (Inl (AcqEndpoint k), l')
               | Ready ep \<Rightarrow> poll_host a w k ep l'))"

fun limiter_poll ::
  "addr \<Rightarrow> waker \<Rightarrow> limiter_acquire \<Rightarrow> limiter \<Rightarrow>
   sem_fault + ((limiter_acquire + limiter_permit) \<times> limiter)" where
  "limiter_poll a w (AcqStart k) l = poll_endpoint a w k (entry_or_new k l)"
| "limiter_poll a w (AcqEndpoint k) l = poll_endpoint a w k l"
| "limiter_poll a w (AcqHost k ep) l = poll_host a w k ep l"

definition endpoint_permit_drop ::
  "endpoint_key \<Rightarrow> ciad_permit \<Rightarrow> limiter \<Rightarrow> sem_fault + limiter" where
  "endpoint_permit_drop k p l =
     (case endpoints l k of
        None \<Rightarrow> Inr l
      | Some c \<Rightarrow>
          and_then (ciad_permit_drop p c) (\<lambda>c'.
            Inr (l\<lparr>endpoints := (endpoints l)(k \<mapsto> c')\<rparr>)))"

fun limiter_acquire_drop :: "addr \<Rightarrow> limiter_acquire \<Rightarrow> limiter \<Rightarrow> sem_fault + limiter" where
  "limiter_acquire_drop a (AcqStart k) l = Inr l"
| "limiter_acquire_drop a (AcqEndpoint k) l =
     (case endpoints l k of
        None \<Rightarrow> Inr l
      | Some c \<Rightarrow>
          and_then (acquire_drop a (semaphore c)) (\<lambda>s.
            Inr (l\<lparr>endpoints := (endpoints l)(k \<mapsto> c\<lparr>semaphore := s\<rparr>)\<rparr>)))"
| "limiter_acquire_drop a (AcqHost k ep) l =
     and_then (acquire_drop a (semaphore (host l))) (\<lambda>s.
       endpoint_permit_drop k ep (l\<lparr>host := (host l)\<lparr>semaphore := s\<rparr>\<rparr>))"

definition limiter_permit_drop :: "limiter_permit \<Rightarrow> limiter \<Rightarrow> sem_fault + limiter" where
  "limiter_permit_drop p l =
     and_then (endpoint_permit_drop (lp_key p) (lp_endpoint p) l) (\<lambda>l1.
     and_then (ciad_permit_drop (lp_host p) (host l1)) (\<lambda>c.
       Inr (l1\<lparr>host := c\<rparr>)))"

definition limiter_on_response ::
  "http_api \<Rightarrow> 'e error_api \<Rightarrow> 'e + status \<Rightarrow> limiter_permit \<Rightarrow> limiter_permit" where
  "limiter_on_response H E r p =
     p\<lparr>lp_endpoint := on_response H E EndpointLevel r (lp_endpoint p),
       lp_host := on_response H E HostLevel r (lp_host p)\<rparr>"

subsection \<open>Gauges over the live limiters\<close>

text \<open>
  \<^verbatim>\<open>util/weak_reducing_gauge.rs\<close>: a weak reference is \<open>None\<close> once its target is gone. The result is
  the gauge's value and the entries it keeps.
\<close>

fun gauge_retain ::
  "('a \<Rightarrow> 'v) \<Rightarrow> ('v \<Rightarrow> 'v \<Rightarrow> 'v) \<Rightarrow> 'v option \<Rightarrow> ('r \<Rightarrow> 'a option) \<Rightarrow> 'r list \<Rightarrow>
   'v option \<times> 'r list" where
  "gauge_retain mp rd acc up [] = (acc, [])"
| "gauge_retain mp rd acc up (r # rs) =
     (case up r of
        None \<Rightarrow> gauge_retain mp rd acc up rs
      | Some v \<Rightarrow>
          let acc' = Some (case acc of None \<Rightarrow> mp v | Some x \<Rightarrow> rd x (mp v));
              (res, kept) = gauge_retain mp rd acc' up rs
          in (res, r # kept))"

definition gauge_push :: "'r \<Rightarrow> 'r list \<Rightarrow> 'r list" where
  "gauge_push r entries = entries @ [r]"

definition gauge_value ::
  "'v \<Rightarrow> ('a \<Rightarrow> 'v) \<Rightarrow> ('v \<Rightarrow> 'v \<Rightarrow> 'v) \<Rightarrow> ('r \<Rightarrow> 'a option) \<Rightarrow> 'r list \<Rightarrow> 'v \<times> 'r list" where
  "gauge_value dflt mp rd up entries =
     (let (res, kept) = gauge_retain mp rd None up entries
      in ((case res of None \<Rightarrow> dflt | Some v \<Rightarrow> v), kept))"

definition limit_gauge :: "('r \<Rightarrow> ciad option) \<Rightarrow> 'r list \<Rightarrow> f64 \<times> 'r list" where
  "limit_gauge = gauge_value 0 limit min"

definition in_flight_gauge :: "('r \<Rightarrow> ciad option) \<Rightarrow> 'r list \<Rightarrow> usize \<times> 'r list" where
  "in_flight_gauge = gauge_value 0 in_flight (+)"

lemma gauge_retain_eq:
  "gauge_retain mp rd acc up rs =
     ((let vs = map mp (List.map_filter up rs)
       in case acc of
            Some x \<Rightarrow> Some (foldl rd x vs)
          | None \<Rightarrow> (case vs of [] \<Rightarrow> None | v # vs' \<Rightarrow> Some (foldl rd v vs'))),
      filter (\<lambda>r. up r \<noteq> None) rs)"
  by (induction mp rd acc up rs rule: gauge_retain.induct)
    (auto simp: Let_def map_filter_simps split: option.splits list.splits)

lemma foldl_min_le: "foldl min x vs \<le> x \<and> (\<forall>v \<in> set vs. foldl min x vs \<le> v)"
  for x :: "'a::linorder"
proof (induction vs arbitrary: x)
  case (Cons v vs)
  from Cons.IH [of "min x v"] show ?case by auto
qed simp

lemma foldl_min_in: "foldl min x vs \<in> insert x (set vs)"
  for x :: "'a::linorder"
proof (induction vs arbitrary: x)
  case (Cons v vs)
  from Cons.IH [of "min x v"] show ?case by (auto simp: min_def split: if_splits)
qed simp

lemma gauge_value_live:
  assumes "List.map_filter up rs = v # vs"
  shows "gauge_value dflt mp rd up rs =
    (foldl rd (mp v) (map mp vs), filter (\<lambda>r. up r \<noteq> None) rs)"
  using assms by (simp add: gauge_value_def gauge_retain_eq)

text \<open>The limit gauge of a host reports the smallest limit among the limiters still alive (or
  0 when none is), and reading it forgets exactly the dead ones.\<close>

theorem limit_gauge_is_min:
  assumes "List.map_filter up rs \<noteq> []"
  shows "fst (limit_gauge up rs) = Min (limit ` set (List.map_filter up rs)) \<and>
         snd (limit_gauge up rs) = filter (\<lambda>r. up r \<noteq> None) rs"
proof -
  obtain v vs where l: "List.map_filter up rs = v # vs" using assms by (cases "List.map_filter up rs") auto
  have "foldl min (limit v) (map limit vs) = Min (limit ` set (v # vs))"
    using foldl_min_le [of "limit v" "map limit vs"] foldl_min_in [of "limit v" "map limit vs"]
    by (intro Min_eqI [symmetric]) auto
  then show ?thesis unfolding limit_gauge_def gauge_value_live [OF l] l by simp
qed

theorem limit_gauge_is_min_witness:
  "fst (limit_gauge (\<lambda>n. if n = (1::nat) then Some ciad_new else None) [0, 1]) = limit ciad_new \<and>
   snd (limit_gauge (\<lambda>n. if n = (1::nat) then Some ciad_new else None) [0, 1]) = [1]"
  using limit_gauge_is_min [of "\<lambda>n. if n = (1::nat) then Some ciad_new else None" "[0, 1]"]
  by (simp add: map_filter_simps)

subsection \<open>Acquiring and releasing\<close>

definition limiter_ok :: "limiter \<Rightarrow> bool" where
  "limiter_ok l \<longleftrightarrow> ciad_ok (host l) \<and> (\<forall>k c. endpoints l k = Some c \<longrightarrow> ciad_ok c)"

fun acquire_ok :: "limiter_acquire \<Rightarrow> limiter \<Rightarrow> bool" where
  "acquire_ok (AcqStart k) l \<longleftrightarrow> True"
| "acquire_ok (AcqEndpoint k) l \<longleftrightarrow> endpoints l k \<noteq> None"
| "acquire_ok (AcqHost k ep) l \<longleftrightarrow> endpoints l k \<noteq> None"

definition result_ok :: "(limiter_acquire + limiter_permit) \<Rightarrow> limiter \<Rightarrow> bool" where
  "result_ok r l \<longleftrightarrow>
     (case r of Inl f \<Rightarrow> acquire_ok f l | Inr p \<Rightarrow> endpoints l (lp_key p) \<noteq> None)"

lemma poll_host_ok:
  assumes "limiter_ok l" "endpoints l k \<noteq> None"
  shows "\<exists>r l'. poll_host a w k ep l = Inr (r, l') \<and> limiter_ok l' \<and> result_ok r l' \<and>
           endpoints l' = endpoints l"
proof -
  obtain r c where "ciad_acquire_poll a w (host l) = Inr (r, c)" "ciad_ok c"
    using ciad_acquire_poll_ok [of "host l" a w] assms(1) by (auto simp: limiter_ok_def)
  with assms show ?thesis
    by (cases r) (auto simp: poll_host_def limiter_ok_def result_ok_def)
qed

lemma poll_endpoint_ok:
  assumes "limiter_ok l" "endpoints l k \<noteq> None"
  shows "\<exists>r l'. poll_endpoint a w k l = Inr (r, l') \<and> limiter_ok l' \<and> result_ok r l'"
proof -
  obtain c where c: "endpoints l k = Some c" using assms(2) by auto
  obtain r c' where p: "ciad_acquire_poll a w c = Inr (r, c')" "ciad_ok c'"
    using ciad_acquire_poll_ok [of c a w] assms(1) c by (auto simp: limiter_ok_def)
  let ?l = "l\<lparr>endpoints := (endpoints l)(k \<mapsto> c')\<rparr>"
  have l: "limiter_ok ?l" "endpoints ?l k \<noteq> None" using assms(1) p(2) by (auto simp: limiter_ok_def)
  show ?thesis
  proof (cases r)
    case (Ready ep)
    with poll_host_ok [OF l, of a w ep] c p show ?thesis by (auto simp: poll_endpoint_def)
  next
    case Pending
    with l c p show ?thesis by (auto simp: poll_endpoint_def result_ok_def)
  qed
qed

lemma entry_or_new_ok:
  "limiter_ok l \<Longrightarrow> limiter_ok (entry_or_new k l) \<and> endpoints (entry_or_new k l) k \<noteq> None"
  using ciad_new_ok by (auto simp: entry_or_new_def limiter_ok_def split: option.splits)

lemma limiter_poll_ok:
  assumes "limiter_ok l" "acquire_ok f l"
  shows "\<exists>r l'. limiter_poll a w f l = Inr (r, l') \<and> limiter_ok l' \<and> result_ok r l'"
proof (cases f)
  case (AcqStart k)
  with entry_or_new_ok [OF assms(1), of k] show ?thesis by (simp add: poll_endpoint_ok)
next
  case (AcqHost k ep)
  with assms poll_host_ok [OF assms(1), of k a w ep] show ?thesis by auto
qed (use assms poll_endpoint_ok in auto)

text \<open>Acquiring a permit never panics and keeps every limiter consistent, from a fresh request
  and from every await point; the endpoint's permit comes first, so a request that waits for its
  endpoint has not touched the host's limiter.\<close>

theorem limiter_acquire_endpoint_first:
  assumes "limiter_ok l" "acquire_ok f l"
  shows "(\<exists>r l'. limiter_poll a w f l = Inr (r, l') \<and> limiter_ok l' \<and> result_ok r l') \<and>
    (limiter_poll a w f l = Inr (Inl (AcqEndpoint k), l1) \<longrightarrow> host l1 = host l)"
proof -
  have "host l1 = host l" if "limiter_poll a w f l = Inr (Inl (AcqEndpoint k), l1)"
  proof -
    have "host l1 = host l0" if "poll_endpoint a w k0 l0 = Inr (Inl (AcqEndpoint k), l1)" for k0 l0
      using that by (auto simp: poll_endpoint_def poll_host_def Let_def and_then_Inr_iff
          split: option.splits poll.splits) (metis poll.exhaust)
    with that show ?thesis
      by (cases f, auto simp: poll_host_def and_then_Inr_iff entry_or_new_def
          split: poll.splits option.splits) (metis poll.exhaust)
  qed
  with limiter_poll_ok [OF assms] show ?thesis by blast
qed

lemma limiter_new_ok: "limiter_ok limiter_new"
  using ciad_new_ok by (simp add: limiter_ok_def limiter_new_def)

theorem limiter_acquire_endpoint_first_witness:
  "\<exists>r l'. limiter_poll 3 9 (AcqStart \<lparr>ep_method = ''GET'', ep_pattern = ''/foo''\<rparr>) limiter_new =
     Inr (r, l') \<and> limiter_ok l' \<and> result_ok r l'"
  using limiter_acquire_endpoint_first
    [OF limiter_new_ok, of "AcqStart \<lparr>ep_method = ''GET'', ep_pattern = ''/foo''\<rparr>"]
  by simp

text \<open>A response counts against at most one of the two limiters, and against the right one: a
  429 or a 500 lowers the endpoint's limit only, any other 5xx and a transport error lower the
  host's limit only, every other response is a success for both.\<close>

theorem limiter_blames_one_level:
  assumes "http_ok H" "error_ok E"
  shows "case (permit_mode (lp_endpoint (limiter_on_response H E r p)),
               permit_mode (lp_host (limiter_on_response H E r p))) of
      (Dropped, Ignore) \<Rightarrow> r = Inr TOO_MANY_REQUESTS \<or> r = Inr INTERNAL_SERVER_ERROR
    | (Ignore, Dropped) \<Rightarrow>
        (\<exists>e c. r = Inl e \<and> cause_of E e = RawClientError c) \<or>
        (\<exists>s. r = Inr s \<and> 500 < s \<and> s < 600)
    | (Ignore, Ignore) \<Rightarrow> \<exists>e. r = Inl e \<and> \<not> is_raw_client_error (cause_of E e)
    | (Success, Success) \<Rightarrow> \<exists>s. r = Inr s \<and> s \<noteq> 429 \<and> (s < 500 \<or> 600 \<le> s)
    | _ \<Rightarrow> False"
proof (cases r)
  case (Inl e)
  then show ?thesis
    by (cases "cause_of E e") (simp_all add: limiter_on_response_def on_response_def
        is_raw_client_error_def)
next
  case (Inr s)
  have "is_server_error H s \<longleftrightarrow> 500 \<le> s \<and> s < 600" using assms(1) by (simp add: http_ok_def)
  with Inr show ?thesis by (auto simp: limiter_on_response_def on_response_def)
qed

theorem limiter_blames_one_level_witness:
  "permit_mode (lp_host (limiter_on_response std_http std_errors (Inr 503)
     \<lparr>lp_key = \<lparr>ep_method = ''GET'', ep_pattern = ''/''\<rparr>, lp_endpoint = blank_permit,
      lp_host = blank_permit\<rparr>)) = Dropped"
  using limiter_blames_one_level [OF std_http_ok std_errors_ok, of "Inr 503"
      "\<lparr>lp_key = \<lparr>ep_method = ''GET'', ep_pattern = ''/''\<rparr>, lp_endpoint = blank_permit,
        lp_host = blank_permit\<rparr>"]
  by (simp add: limiter_on_response_def on_response_def std_http_def)

end
