(* ===== verification/Config.thy ===== *)
theory Config
  imports Decimal
begin

text \<open>
  The configuration types of \<^verbatim>\<open>conjure-runtime-config/src/lib.rs\<close>, the merge of a service's
  configuration with the top-level defaults, and the text form of \<^verbatim>\<open>HostAndPort\<close>. A \<^verbatim>\<open>Url\<close> and a
  path are their text. The derived serde implementations and the staged builders are generated
  code and not modelled.
\<close>

type_synonym url = string

record basic_credentials =
  username :: string
  password :: string

record host_and_port =
  hp_host :: string
  hp_port :: u16

record http_proxy_config =
  proxy_host_and_port :: host_and_port
  proxy_credentials :: "basic_credentials option"

datatype proxy_config = Direct | Http http_proxy_config

record security_config =
  ca_file :: "string option"
  key_file :: "string option"
  cert_file :: "string option"
  pinned_certs :: "string list"

record service_config =
  sc_uris :: "url list"
  sc_security :: "security_config option"
  sc_proxy :: "proxy_config option"
  sc_connect_timeout :: "duration option"
  sc_read_timeout :: "duration option"
  sc_write_timeout :: "duration option"
  sc_backoff_slot_size :: "duration option"
  sc_max_num_retries :: "u32 option"

record services_config =
  services :: "string \<rightharpoonup> service_config"
  ss_security :: "security_config option"
  ss_proxy :: "proxy_config option"
  ss_connect_timeout :: "duration option"
  ss_read_timeout :: "duration option"
  ss_write_timeout :: "duration option"
  ss_backoff_slot_size :: "duration option"

definition proxy_config_default :: proxy_config where
  "proxy_config_default = Direct"

definition security_config_default :: security_config where
  "security_config_default =
     \<lparr>ca_file = None, key_file = None, cert_file = None, pinned_certs = []\<rparr>"

definition merged_service :: "services_config \<Rightarrow> string \<Rightarrow> service_config option" where
  "merged_service c name =
     (case services c name of
        None \<Rightarrow> None
      | Some s \<Rightarrow>
          let s = (if sc_security s = None then s\<lparr>sc_security := ss_security c\<rparr> else s);
              s = (if sc_proxy s = None then s\<lparr>sc_proxy := ss_proxy c\<rparr> else s);
              s = (if sc_connect_timeout s = None
                   then s\<lparr>sc_connect_timeout := ss_connect_timeout c\<rparr> else s);
              s = (if sc_read_timeout s = None
                   then s\<lparr>sc_read_timeout := ss_read_timeout c\<rparr> else s);
              s = (if sc_write_timeout s = None
                   then s\<lparr>sc_write_timeout := ss_write_timeout c\<rparr> else s);
              s = (if sc_backoff_slot_size s = None
                   then s\<lparr>sc_backoff_slot_size := ss_backoff_slot_size c\<rparr> else s)
          in Some s)"

definition host_and_port_new :: "string \<Rightarrow> u16 \<Rightarrow> host_and_port" where
  "host_and_port_new host port = \<lparr>hp_host = host, hp_port = port\<rparr>"

definition host_and_port_display :: "host_and_port \<Rightarrow> string" where
  "host_and_port_display hp = hp_host hp @ '':'' @ show_nat (unat (hp_port hp))"

definition host_and_port_deserialize :: "string \<Rightarrow> host_and_port option" where
  "host_and_port_deserialize s =
     (case find_char (CHR '':'') s of
        None \<Rightarrow> None
      | Some idx \<Rightarrow>
          (case parse_uint 65535 (drop (idx + 1) s) of
             None \<Rightarrow> None
           | Some port \<Rightarrow> Some \<lparr>hp_host = take idx s, hp_port = of_nat port\<rparr>))"

definition basic_credentials_new :: "string \<Rightarrow> string \<Rightarrow> basic_credentials" where
  "basic_credentials_new u p = \<lparr>username = u, password = p\<rparr>"

definition or_else :: "'a option \<Rightarrow> 'a option \<Rightarrow> 'a option" where
  "or_else x y = (case x of None \<Rightarrow> y | Some _ \<Rightarrow> x)"

lemma or_else_simps [simp]: "or_else None y = y" "or_else (Some x) y = Some x"
  by (simp_all add: or_else_def)

lemma fill_eq:
  "(if sc_security s = None then s\<lparr>sc_security := a\<rparr> else s) =
     s\<lparr>sc_security := or_else (sc_security s) a\<rparr>"
  "(if sc_proxy s = None then s\<lparr>sc_proxy := b\<rparr> else s) = s\<lparr>sc_proxy := or_else (sc_proxy s) b\<rparr>"
  "(if sc_connect_timeout s = None then s\<lparr>sc_connect_timeout := d\<rparr> else s) =
     s\<lparr>sc_connect_timeout := or_else (sc_connect_timeout s) d\<rparr>"
  "(if sc_read_timeout s = None then s\<lparr>sc_read_timeout := d\<rparr> else s) =
     s\<lparr>sc_read_timeout := or_else (sc_read_timeout s) d\<rparr>"
  "(if sc_write_timeout s = None then s\<lparr>sc_write_timeout := d\<rparr> else s) =
     s\<lparr>sc_write_timeout := or_else (sc_write_timeout s) d\<rparr>"
  "(if sc_backoff_slot_size s = None then s\<lparr>sc_backoff_slot_size := d\<rparr> else s) =
     s\<lparr>sc_backoff_slot_size := or_else (sc_backoff_slot_size s) d\<rparr>"
  by (cases s, auto)+

lemma merged_service_eq:
  "merged_service c name =
     map_option (\<lambda>s.
       \<lparr>sc_uris = sc_uris s,
        sc_security = or_else (sc_security s) (ss_security c),
        sc_proxy = or_else (sc_proxy s) (ss_proxy c),
        sc_connect_timeout = or_else (sc_connect_timeout s) (ss_connect_timeout c),
        sc_read_timeout = or_else (sc_read_timeout s) (ss_read_timeout c),
        sc_write_timeout = or_else (sc_write_timeout s) (ss_write_timeout c),
        sc_backoff_slot_size = or_else (sc_backoff_slot_size s) (ss_backoff_slot_size c),
        sc_max_num_retries = sc_max_num_retries s\<rparr>) (services c name)"
proof (cases "services c name")
  case (Some s)
  then show ?thesis
    unfolding merged_service_def Let_def fill_eq by (cases s) simp
qed (simp add: merged_service_def)

lemma deserialize_host:
  assumes "host_and_port_deserialize s = Some hp"
  shows "CHR '':'' \<notin> set (hp_host hp)"
  using assms
  by (auto simp: host_and_port_deserialize_def dest!: find_char_SomeD split: option.splits)

lemma display_deserialize:
  assumes "CHR '':'' \<notin> set (hp_host hp)"
  shows "host_and_port_deserialize (host_and_port_display hp) = Some hp"
proof -
  have "unat (hp_port hp) \<le> 65535" using unat_less_pow [of "hp_port hp"] by simp
  then show ?thesis
    using assms find_char_append [of "CHR '':''" "hp_host hp"] parse_show_nat
    by (simp add: host_and_port_display_def host_and_port_deserialize_def)
qed

lemma deserialize_display_iff:
  "host_and_port_deserialize (host_and_port_display hp) = Some hp \<longleftrightarrow> CHR '':'' \<notin> set (hp_host hp)"
  using deserialize_host display_deserialize by blast

text \<open>C35: Printing and reading a \<^verbatim>\<open>HostAndPort\<close> are inverse on exactly the values whose host has no
  colon: such a value is read back as it was, for every host and every port, and a value with a colon in
  its host never is. Whatever the reader accepts is a value of the first kind, so reading, printing and
  reading again gives the same value.\<close>

theorem host_and_port_roundtrip:
  "(host_and_port_deserialize (host_and_port_display hp) = Some hp \<longleftrightarrow> CHR '':'' \<notin> set (hp_host hp)) \<and>
   (host_and_port_deserialize s = Some hp \<longrightarrow>
      CHR '':'' \<notin> set (hp_host hp) \<and> host_and_port_deserialize (host_and_port_display hp) = Some hp)"
  using deserialize_display_iff deserialize_host by blast

theorem host_and_port_roundtrip_witness:
  "host_and_port_deserialize (host_and_port_display \<lparr>hp_host = ''proxy'', hp_port = 8080\<rparr>) =
     Some \<lparr>hp_host = ''proxy'', hp_port = 8080\<rparr> \<and>
   host_and_port_deserialize (host_and_port_display \<lparr>hp_host = ''::1'', hp_port = 8080\<rparr>) \<noteq>
     Some \<lparr>hp_host = ''::1'', hp_port = 8080\<rparr>"
proof -
  have "host_and_port_deserialize ''proxy:+8080'' = Some \<lparr>hp_host = ''proxy'', hp_port = 8080\<rparr>"
    by (simp add: host_and_port_deserialize_def parse_uint_def digits_val_def is_digit_def
        digit_val_def)
  with host_and_port_roundtrip [of "\<lparr>hp_host = ''proxy'', hp_port = 8080\<rparr>" "''proxy:+8080''"]
    host_and_port_roundtrip [of "\<lparr>hp_host = ''::1'', hp_port = 8080\<rparr>"]
  show ?thesis by simp
qed

end
