(* ===== verification/UserAgent.thy ===== *)
theory UserAgent
  imports Decimal
begin

text \<open>
  \<^verbatim>\<open>user_agent.rs\<close>: agents, user agents and their header text. The three regular expressions of the
  source are the predicates \<open>valid_node\<close>, \<open>valid_name\<close> and \<open>valid_version\<close>; a failed \<^verbatim>\<open>assert!\<close> is
  the result \<open>None\<close>.
\<close>

definition valid_node :: "string \<Rightarrow> bool" where
  "valid_node s \<longleftrightarrow>
     (case s of
        [] \<Rightarrow> False
      | c # r \<Rightarrow> is_alnum c \<and> list_all (\<lambda>x. is_alnum x \<or> x = CHR ''.'' \<or> x = CHR ''-'') r)"

definition valid_name :: "string \<Rightarrow> bool" where
  "valid_name s \<longleftrightarrow>
     (case s of
        [] \<Rightarrow> False
      | c # r \<Rightarrow> is_alpha c \<and> list_all (\<lambda>x. is_alnum x \<or> x = CHR ''-'') r)"

definition all_digits :: "string \<Rightarrow> bool" where
  "all_digits s \<longleftrightarrow> s \<noteq> [] \<and> list_all is_digit s"

definition version_core :: "string \<Rightarrow> bool" where
  "version_core s \<longleftrightarrow> list_all all_digits (split_on (CHR ''.'') s)"

definition version_rc :: "string \<Rightarrow> bool" where
  "version_rc s \<longleftrightarrow> take 2 s = ''rc'' \<and> all_digits (drop 2 s)"

definition version_git :: "string \<Rightarrow> string \<Rightarrow> bool" where
  "version_git n g \<longleftrightarrow>
     all_digits n \<and>
     (case g of [] \<Rightarrow> False | c # h \<Rightarrow> c = CHR ''g'' \<and> h \<noteq> [] \<and> list_all is_hex_lower h)"

definition valid_version :: "string \<Rightarrow> bool" where
  "valid_version s \<longleftrightarrow>
     (case split_on (CHR ''-'') s of
        [v] \<Rightarrow> version_core v
      | [v, r] \<Rightarrow> version_core v \<and> version_rc r
      | [v, n, g] \<Rightarrow> version_core v \<and> version_git n g
      | [v, r, n, g] \<Rightarrow> version_core v \<and> version_rc r \<and> version_git n g
      | _ \<Rightarrow> False)"

definition DEFAULT_VERSION :: string where "DEFAULT_VERSION = ''0.0.0''"

record agent =
  agent_name :: string
  agent_version :: string

record user_agent =
  node_id :: "string option"
  primary :: agent
  informational :: "agent list"

definition agent_new :: "string \<Rightarrow> string \<Rightarrow> agent option" where
  "agent_new name version =
     (if valid_name name
      then Some \<lparr>agent_name = name,
                 agent_version = (if valid_version version then version else DEFAULT_VERSION)\<rparr>
      else None)"

definition agent_display :: "agent \<Rightarrow> string" where
  "agent_display a = agent_name a @ ''/'' @ agent_version a"

definition user_agent_new :: "agent \<Rightarrow> user_agent" where
  "user_agent_new p = \<lparr>node_id = None, primary = p, informational = []\<rparr>"

definition push_agent :: "agent \<Rightarrow> user_agent \<Rightarrow> user_agent" where
  "push_agent a u = u\<lparr>informational := informational u @ [a]\<rparr>"

definition set_node_id :: "string \<Rightarrow> user_agent \<Rightarrow> user_agent option" where
  "set_node_id n u = (if valid_node n then Some (u\<lparr>node_id := Some n\<rparr>) else None)"

definition user_agent_display :: "user_agent \<Rightarrow> string" where
  "user_agent_display u =
     agent_display (primary u) @
     (case node_id u of None \<Rightarrow> [] | Some n \<Rightarrow> '' (nodeId:'' @ n @ '')'') @
     concat (map (\<lambda>a. '' '' @ agent_display a) (informational u))"

subsection \<open>Header safety\<close>

definition agent_ok :: "agent \<Rightarrow> bool" where
  "agent_ok a \<longleftrightarrow> valid_name (agent_name a) \<and> valid_version (agent_version a)"

definition user_agent_ok :: "user_agent \<Rightarrow> bool" where
  "user_agent_ok u \<longleftrightarrow>
     agent_ok (primary u) \<and> list_all agent_ok (informational u) \<and>
     (case node_id u of None \<Rightarrow> True | Some n \<Rightarrow> valid_node n)"

lemma default_version_valid: "valid_version DEFAULT_VERSION"
  by code_simp

lemma agent_new_ok: "agent_new n v = Some a \<Longrightarrow> agent_ok a \<and> agent_name a = n"
  using default_version_valid by (auto simp: agent_new_def agent_ok_def split: if_splits)

lemma user_agent_ops_ok:
  "agent_ok p \<Longrightarrow> user_agent_ok (user_agent_new p)"
  "agent_ok a \<Longrightarrow> user_agent_ok u \<Longrightarrow> user_agent_ok (push_agent a u)"
  "set_node_id n u = Some u' \<Longrightarrow> user_agent_ok u \<Longrightarrow> user_agent_ok u'"
  by (auto simp: user_agent_ok_def user_agent_new_def push_agent_def set_node_id_def
      split: if_splits)

lemma visible_punct: "is_visible (CHR ''.'')" "is_visible (CHR ''-'')" "is_visible (CHR ''/'')"
  "is_visible (CHR '' '')" "is_visible (CHR ''g'')" "is_visible (CHR ''r'')" "is_visible (CHR ''c'')"
  by (simp_all add: is_visible_def)

lemma visible_name: "valid_name s \<Longrightarrow> list_all is_visible s"
  by (cases s) (auto simp: valid_name_def list_all_iff visible_classes visible_punct)

lemma visible_node: "valid_node s \<Longrightarrow> list_all is_visible s"
  by (cases s) (auto simp: valid_node_def list_all_iff visible_classes visible_punct)

lemma visible_digits: "all_digits s \<Longrightarrow> list_all is_visible s"
  by (auto simp: all_digits_def list_all_iff visible_classes)

lemma visible_split:
  assumes "is_visible c" "\<And>p. p \<in> set (split_on c s) \<Longrightarrow> list_all is_visible p"
  shows "list_all is_visible s"
  using split_on_set [of _ s c] assms by (fastforce simp: list_all_iff)

lemma visible_core: "version_core s \<Longrightarrow> list_all is_visible s"
  by (rule visible_split [of "CHR ''.''"])
    (auto simp: visible_punct version_core_def list_all_iff [of all_digits] visible_digits)

lemma visible_rc: "version_rc s \<Longrightarrow> list_all is_visible s"
proof -
  assume "version_rc s"
  then have "s = ''rc'' @ drop 2 s" "list_all is_visible (drop 2 s)"
    by (metis append_take_drop_id version_rc_def, simp add: version_rc_def visible_digits)
  moreover have "list_all is_visible ''rc''" by (simp add: visible_punct)
  ultimately show ?thesis by (metis list_all_append)
qed

lemma visible_git: "version_git n g \<Longrightarrow> list_all is_visible n \<and> list_all is_visible g"
  using visible_classes(4)
  by (cases g) (auto simp: version_git_def visible_digits visible_punct elim: list.pred_mono_strong)

lemma visible_version:
  assumes "valid_version s"
  shows "list_all is_visible s"
proof (rule visible_split [of "CHR ''-''"])
  fix p assume "p \<in> set (split_on (CHR ''-'') s)"
  with assms show "list_all is_visible p"
    by (auto simp: valid_version_def visible_core visible_rc visible_git split: list.splits)
qed (rule visible_punct)

lemma visible_agent: "agent_ok a \<Longrightarrow> list_all is_visible (agent_display a)"
  by (simp add: agent_ok_def agent_display_def visible_name visible_version visible_punct)

text \<open>The user agents that a caller can make: \<^verbatim>\<open>Agent\<close> and \<^verbatim>\<open>UserAgent\<close> have no other constructors, and
  their fields are private.\<close>

inductive built_agent :: "agent \<Rightarrow> bool" where
  built_agent_new: "agent_new name version = Some a \<Longrightarrow> built_agent a"

inductive built_user_agent :: "user_agent \<Rightarrow> bool" where
  built_new: "built_agent a \<Longrightarrow> built_user_agent (user_agent_new a)"
| built_push: "built_user_agent u \<Longrightarrow> built_agent a \<Longrightarrow> built_user_agent (push_agent a u)"
| built_set_node_id: "built_user_agent u \<Longrightarrow> set_node_id n u = Some u' \<Longrightarrow> built_user_agent u'"

lemma built_agent_ok: "built_agent a \<Longrightarrow> agent_ok a"
  by (induction rule: built_agent.induct) (simp add: agent_new_ok)

lemma built_user_agent_ok: "built_user_agent u \<Longrightarrow> user_agent_ok u"
  by (induction rule: built_user_agent.induct) (auto intro: user_agent_ops_ok dest: built_agent_ok)

lemma user_agent_visible: "user_agent_ok u \<Longrightarrow> list_all is_visible (user_agent_display u)"
  by (auto simp: user_agent_display_def user_agent_ok_def list_all_iff is_visible_def
      dest!: visible_agent visible_node split: option.splits)

text \<open>C36: Every user agent built through the API prints as a legal header value. However \<^verbatim>\<open>Agent::new\<close>,
  \<^verbatim>\<open>UserAgent::new\<close>, \<^verbatim>\<open>push_agent\<close> and \<^verbatim>\<open>set_node_id\<close> were combined and whatever names, versions and node
  ids they were given, if none of their assertions failed then every character of the text is visible
  ASCII or a space, so turning it into a \<^verbatim>\<open>HeaderValue\<close> cannot fail.\<close>

theorem user_agent_header_legal:
  assumes "built_user_agent u"
  shows "list_all is_visible (user_agent_display u)"
  using user_agent_visible [OF built_user_agent_ok [OF assms]] .

theorem user_agent_header_legal_witness:
  "\<exists>a u. agent_new ''conjure-rust-runtime'' ''not a version'' = Some a \<and> agent_version a = ''0.0.0'' \<and>
   set_node_id ''host-1.a'' (push_agent a (user_agent_new a)) = Some u \<and> list_all is_visible (user_agent_display u)"
proof -
  let ?a = "\<lparr>agent_name = ''conjure-rust-runtime'', agent_version = ''0.0.0''\<rparr>"
  have a: "agent_new ''conjure-rust-runtime'' ''not a version'' = Some ?a" by code_simp
  have "valid_node ''host-1.a''" by code_simp
  then obtain u where u: "set_node_id ''host-1.a'' (push_agent ?a (user_agent_new ?a)) = Some u"
    by (simp add: set_node_id_def)
  have "built_agent ?a" using a by (rule built_agent_new)
  then have "built_user_agent u" using u by (auto intro: built_new built_push built_set_node_id)
  from user_agent_header_legal [OF this] a u show ?thesis by (intro exI [of _ ?a] exI [of _ u]) simp
qed

end
