(* ===== verification/Builder.thy ===== *)
theory Builder
  imports Config UserAgent
begin

text \<open>
  The client builder of \<^verbatim>\<open>builder.rs\<close>. \<open>cached_config\<close> is the part that identifies a client in the
  factory's cache; \<open>uncached_config\<close> holds the handles of shared objects (registries, the blocking
  runtime, the Conjure runtime), each modelled by the identity of the \<^verbatim>\<open>Arc\<close>.
\<close>

type_synonym handle = nat

datatype client_qos = Enabled | DangerousDisableSympatheticClientQos
datatype server_qos = AutomaticRetry | Propagate429And503ToCaller
datatype service_error = WrapInNewError | PropagateToCaller
datatype error_parameter_format = Legacy | Json
datatype idempotency = Always | ByMethod | Never
datatype node_selection_strategy = PinUntilError | PinUntilErrorWithoutReshuffle | Balanced

definition header_value :: "error_parameter_format \<Rightarrow> string option" where
  "header_value f = (case f of Legacy \<Rightarrow> None | Json \<Rightarrow> Some ''JSON'')"

record cached_config =
  cc_service :: string
  cc_user_agent :: user_agent
  cc_uris :: "url list"
  cc_security :: security_config
  cc_proxy :: proxy_config
  cc_connect_timeout :: duration
  cc_read_timeout :: duration
  cc_write_timeout :: duration
  cc_backoff_slot_size :: duration
  cc_max_num_retries :: u32
  cc_client_qos :: client_qos
  cc_server_qos :: server_qos
  cc_service_error :: service_error
  cc_idempotency :: idempotency
  cc_node_selection_strategy :: node_selection_strategy
  cc_override_host_index :: "usize option"
  cc_error_parameter_format :: error_parameter_format

record uncached_config =
  uc_metrics :: "handle option"
  uc_host_metrics :: "handle option"
  uc_blocking_handle :: "handle option"
  uc_conjure_runtime :: handle

record builder =
  cached :: cached_config
  uncached :: uncached_config

text \<open>
  The stages \<open>service\<close> and \<open>user_agent\<close> lead to the complete builder with its defaults;
  \<open>runtime\<close> is the identity of the \<open>ConjureRuntime\<close> allocated there.
\<close>

definition builder_new :: "handle \<Rightarrow> string \<Rightarrow> user_agent \<Rightarrow> builder" where
  "builder_new runtime service agent =
     \<lparr>cached =
        \<lparr>cc_service = service, cc_user_agent = agent, cc_uris = [],
         cc_security = security_config_default, cc_proxy = Direct,
         cc_connect_timeout = from_secs 10, cc_read_timeout = from_secs (5 * 60),
         cc_write_timeout = from_secs (5 * 60), cc_backoff_slot_size = from_millis 250,
         cc_max_num_retries = 4, cc_client_qos = Enabled, cc_server_qos = AutomaticRetry,
         cc_service_error = WrapInNewError, cc_idempotency = ByMethod,
         cc_node_selection_strategy = PinUntilError, cc_override_host_index = None,
         cc_error_parameter_format = Legacy\<rparr>,
      uncached =
        \<lparr>uc_metrics = None, uc_host_metrics = None, uc_blocking_handle = None,
         uc_conjure_runtime = runtime\<rparr>\<rparr>"

subsection \<open>Setters\<close>

definition with_cached :: "(cached_config \<Rightarrow> cached_config) \<Rightarrow> builder \<Rightarrow> builder" where
  "with_cached f b = b\<lparr>cached := f (cached b)\<rparr>"

definition with_uncached :: "(uncached_config \<Rightarrow> uncached_config) \<Rightarrow> builder \<Rightarrow> builder" where
  "with_uncached f b = b\<lparr>uncached := f (uncached b)\<rparr>"

definition b_uri :: "url \<Rightarrow> builder \<Rightarrow> builder" where
  "b_uri u = with_cached (\<lambda>c. c\<lparr>cc_uris := cc_uris c @ [u]\<rparr>)"

definition b_uris :: "url list \<Rightarrow> builder \<Rightarrow> builder" where
  "b_uris us = with_cached (\<lambda>c. c\<lparr>cc_uris := us\<rparr>)"

definition b_security :: "security_config \<Rightarrow> builder \<Rightarrow> builder" where
  "b_security s = with_cached (\<lambda>c. c\<lparr>cc_security := s\<rparr>)"

definition b_proxy :: "proxy_config \<Rightarrow> builder \<Rightarrow> builder" where
  "b_proxy p = with_cached (\<lambda>c. c\<lparr>cc_proxy := p\<rparr>)"

definition b_connect_timeout :: "duration \<Rightarrow> builder \<Rightarrow> builder" where
  "b_connect_timeout d = with_cached (\<lambda>c. c\<lparr>cc_connect_timeout := d\<rparr>)"

definition b_read_timeout :: "duration \<Rightarrow> builder \<Rightarrow> builder" where
  "b_read_timeout d = with_cached (\<lambda>c. c\<lparr>cc_read_timeout := d\<rparr>)"

definition b_write_timeout :: "duration \<Rightarrow> builder \<Rightarrow> builder" where
  "b_write_timeout d = with_cached (\<lambda>c. c\<lparr>cc_write_timeout := d\<rparr>)"

definition b_backoff_slot_size :: "duration \<Rightarrow> builder \<Rightarrow> builder" where
  "b_backoff_slot_size d = with_cached (\<lambda>c. c\<lparr>cc_backoff_slot_size := d\<rparr>)"

definition b_max_num_retries :: "u32 \<Rightarrow> builder \<Rightarrow> builder" where
  "b_max_num_retries n = with_cached (\<lambda>c. c\<lparr>cc_max_num_retries := n\<rparr>)"

definition b_client_qos :: "client_qos \<Rightarrow> builder \<Rightarrow> builder" where
  "b_client_qos q = with_cached (\<lambda>c. c\<lparr>cc_client_qos := q\<rparr>)"

definition b_server_qos :: "server_qos \<Rightarrow> builder \<Rightarrow> builder" where
  "b_server_qos q = with_cached (\<lambda>c. c\<lparr>cc_server_qos := q\<rparr>)"

definition b_service_error :: "service_error \<Rightarrow> builder \<Rightarrow> builder" where
  "b_service_error e = with_cached (\<lambda>c. c\<lparr>cc_service_error := e\<rparr>)"

definition b_idempotency :: "idempotency \<Rightarrow> builder \<Rightarrow> builder" where
  "b_idempotency i = with_cached (\<lambda>c. c\<lparr>cc_idempotency := i\<rparr>)"

definition b_node_selection_strategy :: "node_selection_strategy \<Rightarrow> builder \<Rightarrow> builder" where
  "b_node_selection_strategy s = with_cached (\<lambda>c. c\<lparr>cc_node_selection_strategy := s\<rparr>)"

definition b_error_parameter_format :: "error_parameter_format \<Rightarrow> builder \<Rightarrow> builder" where
  "b_error_parameter_format f = with_cached (\<lambda>c. c\<lparr>cc_error_parameter_format := f\<rparr>)"

definition b_metrics :: "handle \<Rightarrow> builder \<Rightarrow> builder" where
  "b_metrics h = with_uncached (\<lambda>u. u\<lparr>uc_metrics := Some h\<rparr>)"

definition b_host_metrics :: "handle \<Rightarrow> builder \<Rightarrow> builder" where
  "b_host_metrics h = with_uncached (\<lambda>u. u\<lparr>uc_host_metrics := Some h\<rparr>)"

definition b_conjure_runtime :: "handle \<Rightarrow> builder \<Rightarrow> builder" where
  "b_conjure_runtime h = with_uncached (\<lambda>u. u\<lparr>uc_conjure_runtime := h\<rparr>)"

definition b_blocking_handle :: "handle \<Rightarrow> builder \<Rightarrow> builder" where
  "b_blocking_handle h = with_uncached (\<lambda>u. u\<lparr>uc_blocking_handle := Some h\<rparr>)"

definition b_override_host_index :: "usize \<Rightarrow> builder \<Rightarrow> builder" where
  "b_override_host_index i = with_cached (\<lambda>c. c\<lparr>cc_override_host_index := Some i\<rparr>)"

definition set_opt :: "('a \<Rightarrow> builder \<Rightarrow> builder) \<Rightarrow> 'a option \<Rightarrow> builder \<Rightarrow> builder" where
  "set_opt f x b = (case x of None \<Rightarrow> b | Some v \<Rightarrow> f v b)"

definition from_config :: "service_config \<Rightarrow> builder \<Rightarrow> builder" where
  "from_config c b =
     (let b = b_uris (sc_uris c) b;
          b = set_opt b_security (sc_security c) b;
          b = set_opt b_proxy (sc_proxy c) b;
          b = set_opt b_connect_timeout (sc_connect_timeout c) b;
          b = set_opt b_read_timeout (sc_read_timeout c) b;
          b = set_opt b_write_timeout (sc_write_timeout c) b;
          b = set_opt b_backoff_slot_size (sc_backoff_slot_size c) b;
          b = set_opt b_max_num_retries (sc_max_num_retries c) b
      in b)"

lemmas builder_setters =
  with_cached_def with_uncached_def b_uri_def b_uris_def b_security_def b_proxy_def
  b_connect_timeout_def b_read_timeout_def b_write_timeout_def b_backoff_slot_size_def
  b_max_num_retries_def b_client_qos_def b_server_qos_def b_service_error_def b_idempotency_def
  b_node_selection_strategy_def b_error_parameter_format_def b_metrics_def b_host_metrics_def
  b_conjure_runtime_def b_blocking_handle_def b_override_host_index_def

definition opt_or :: "'a option \<Rightarrow> 'a \<Rightarrow> 'a" where
  "opt_or x d = (case x of None \<Rightarrow> d | Some v \<Rightarrow> v)"

lemma set_opt_eq:
  "set_opt b_security x b = with_cached (\<lambda>c. c\<lparr>cc_security := opt_or x (cc_security c)\<rparr>) b"
  "set_opt b_proxy y b = with_cached (\<lambda>c. c\<lparr>cc_proxy := opt_or y (cc_proxy c)\<rparr>) b"
  "set_opt b_connect_timeout d b =
     with_cached (\<lambda>c. c\<lparr>cc_connect_timeout := opt_or d (cc_connect_timeout c)\<rparr>) b"
  "set_opt b_read_timeout d b =
     with_cached (\<lambda>c. c\<lparr>cc_read_timeout := opt_or d (cc_read_timeout c)\<rparr>) b"
  "set_opt b_write_timeout d b =
     with_cached (\<lambda>c. c\<lparr>cc_write_timeout := opt_or d (cc_write_timeout c)\<rparr>) b"
  "set_opt b_backoff_slot_size d b =
     with_cached (\<lambda>c. c\<lparr>cc_backoff_slot_size := opt_or d (cc_backoff_slot_size c)\<rparr>) b"
  "set_opt b_max_num_retries n b =
     with_cached (\<lambda>c. c\<lparr>cc_max_num_retries := opt_or n (cc_max_num_retries c)\<rparr>) b"
  by (simp_all add: set_opt_def opt_or_def builder_setters split: option.splits)

text \<open>A builder configured from a merged service configuration has the service's own options
  where they are set, else the top-level defaults, else what the builder had; the URIs are the
  service's, and everything a configuration does not name is untouched.\<close>

theorem from_config_merged:
  assumes "merged_service ss name = Some c" "services ss name = Some s"
  shows "from_config c b =
    b\<lparr>cached := (cached b)\<lparr>
        cc_uris := sc_uris s,
        cc_security := opt_or (or_else (sc_security s) (ss_security ss)) (cc_security (cached b)),
        cc_proxy := opt_or (or_else (sc_proxy s) (ss_proxy ss)) (cc_proxy (cached b)),
        cc_connect_timeout :=
          opt_or (or_else (sc_connect_timeout s) (ss_connect_timeout ss)) (cc_connect_timeout (cached b)),
        cc_read_timeout :=
          opt_or (or_else (sc_read_timeout s) (ss_read_timeout ss)) (cc_read_timeout (cached b)),
        cc_write_timeout :=
          opt_or (or_else (sc_write_timeout s) (ss_write_timeout ss)) (cc_write_timeout (cached b)),
        cc_backoff_slot_size :=
          opt_or (or_else (sc_backoff_slot_size s) (ss_backoff_slot_size ss))
            (cc_backoff_slot_size (cached b)),
        cc_max_num_retries := opt_or (sc_max_num_retries s) (cc_max_num_retries (cached b))\<rparr>\<rparr>"
proof -
  have "c = \<lparr>sc_uris = sc_uris s,
        sc_security = or_else (sc_security s) (ss_security ss),
        sc_proxy = or_else (sc_proxy s) (ss_proxy ss),
        sc_connect_timeout = or_else (sc_connect_timeout s) (ss_connect_timeout ss),
        sc_read_timeout = or_else (sc_read_timeout s) (ss_read_timeout ss),
        sc_write_timeout = or_else (sc_write_timeout s) (ss_write_timeout ss),
        sc_backoff_slot_size = or_else (sc_backoff_slot_size s) (ss_backoff_slot_size ss),
        sc_max_num_retries = sc_max_num_retries s\<rparr>"
    using assms by (simp add: merged_service_eq)
  then show ?thesis
    unfolding from_config_def Let_def set_opt_eq
    by (simp add: with_cached_def b_uris_def)
qed

theorem from_config_merged_witness:
  "let s = \<lparr>sc_uris = [''https://a''], sc_security = None, sc_proxy = None,
            sc_connect_timeout = None, sc_read_timeout = Some 7, sc_write_timeout = None,
            sc_backoff_slot_size = None, sc_max_num_retries = None\<rparr>;
       ss = \<lparr>services = [''svc'' \<mapsto> s], ss_security = None, ss_proxy = Some Direct,
             ss_connect_timeout = Some 3, ss_read_timeout = Some 4, ss_write_timeout = None,
             ss_backoff_slot_size = None\<rparr>;
       b = builder_new 0 ''svc'' (user_agent_new \<lparr>agent_name = ''t'', agent_version = ''1''\<rparr>)
   in \<exists>c. merged_service ss ''svc'' = Some c \<and>
        cc_connect_timeout (cached (from_config c b)) = 3 \<and>
        cc_read_timeout (cached (from_config c b)) = 7 \<and>
        cc_write_timeout (cached (from_config c b)) = from_secs 300"
proof -
  let ?s = "\<lparr>sc_uris = [''https://a''], sc_security = None, sc_proxy = None,
            sc_connect_timeout = None, sc_read_timeout = Some 7, sc_write_timeout = None,
            sc_backoff_slot_size = None, sc_max_num_retries = None\<rparr>"
  let ?ss = "\<lparr>services = [''svc'' \<mapsto> ?s], ss_security = None, ss_proxy = Some Direct,
             ss_connect_timeout = Some 3, ss_read_timeout = Some 4, ss_write_timeout = None,
             ss_backoff_slot_size = None\<rparr>"
  obtain c where c: "merged_service ?ss ''svc'' = Some c" by (simp add: merged_service_eq)
  show ?thesis
    unfolding Let_def
    by (intro exI [of _ c] conjI c; subst from_config_merged [OF c, of ?s])
      (simp_all add: or_else_def opt_or_def builder_new_def)
qed

end
