(* ===== verification/Http.thy ===== *)
theory Http
  imports Errors Builder
begin

text \<open>
  Requests and responses as they travel through the layers. A header map and a URI belong to the
  \<^verbatim>\<open>http\<close> crate and a \<^verbatim>\<open>Url\<close> to the \<^verbatim>\<open>url\<close> crate: what the sources call on them are the fields of
  \<open>header_api\<close> and \<open>uri_api\<close>. The extensions of a request that the crate uses are its endpoint and
  its node.
\<close>

record 'h header_api =
  hd_get :: "'h \<Rightarrow> string \<Rightarrow> string option"
  hd_insert :: "'h \<Rightarrow> string \<Rightarrow> string \<Rightarrow> 'h"
  hd_remove :: "'h \<Rightarrow> string \<Rightarrow> 'h"

definition header_ok :: "'h header_api \<Rightarrow> bool" where
  "header_ok A \<longleftrightarrow>
     (\<forall>h k v. hd_get A (hd_insert A h k v) k = Some v) \<and>
     (\<forall>h k v k'. k' \<noteq> k \<longrightarrow> hd_get A (hd_insert A h k v) k' = hd_get A h k') \<and>
     (\<forall>h k. hd_get A (hd_remove A h k) k = None) \<and>
     (\<forall>h k k'. k' \<noteq> k \<longrightarrow> hd_get A (hd_remove A h k) k' = hd_get A h k')"

lemma header_okD:
  assumes "header_ok A"
  shows "hd_get A (hd_insert A h k v) k = Some v"
    "k' \<noteq> k \<Longrightarrow> hd_get A (hd_insert A h k v) k' = hd_get A h k'"
    "hd_get A (hd_remove A h k) k = None"
    "k' \<noteq> k \<Longrightarrow> hd_get A (hd_remove A h k) k' = hd_get A h k'"
  using assms unfolding header_ok_def by blast+

definition map_headers :: "(string \<rightharpoonup> string) header_api" where
  "map_headers =
     \<lparr>hd_get = (\<lambda>h k. h k), hd_insert = (\<lambda>h k v. h(k \<mapsto> v)), hd_remove = (\<lambda>h k. h(k := None))\<rparr>"

lemma map_headers_ok: "header_ok map_headers"
  by (simp add: header_ok_def map_headers_def)

record endpoint =
  ed_service :: string
  ed_version :: "string option"
  ed_name :: string
  ed_path :: string

record node =
  node_idx :: usize
  node_url :: url
  node_metrics :: "handle option"

record ('h, 'b) request =
  rq_method :: string
  rq_uri :: string
  rq_headers :: 'h
  rq_endpoint :: "endpoint option"
  rq_node :: "node option"
  rq_body :: 'b

record ('h, 'b) response =
  rs_status :: status
  rs_headers :: 'h
  rs_body :: 'b

datatype panic =
    Expect string
  | Unwrap string
  | DebugPanic string
  | ArithmeticOverflow

definition result_status :: "'e + ('h, 'b, 'z) response_scheme \<Rightarrow> 'e + status" where
  "result_status r = map_sum (\<lambda>e. e) rs_status r"

end
