(* ===== verification/HostMetrics.thy ===== *)
theory HostMetrics
  imports Http
begin

text \<open>
  \<^verbatim>\<open>host_metrics.rs\<close>: the metrics of one host and the registry that shares them. A timer is the list
  of the durations it was updated with, a meter the number of marks. The registry maps a host to
  the identity of its shared metrics; \<open>strong_count\<close> tells how many owners an entry has.
\<close>

record host_metrics =
  hm_service_name :: string
  hm_hostname :: string
  hm_port :: u16
  hm_last_update :: duration
  response_1xx :: "duration list"
  response_2xx :: "duration list"
  response_3xx :: "duration list"
  response_4xx :: "duration list"
  response_5xx :: "duration list"
  response_qos :: "duration list"
  response_other :: "duration list"
  io_error :: nat

definition host_metrics_new :: "string \<Rightarrow> string \<Rightarrow> u16 \<Rightarrow> duration \<Rightarrow> host_metrics" where
  "host_metrics_new service host port now =
     \<lparr>hm_service_name = service, hm_hostname = host, hm_port = port, hm_last_update = now,
      response_1xx = [], response_2xx = [], response_3xx = [], response_4xx = [],
      response_5xx = [], response_qos = [], response_other = [], io_error = 0\<rparr>"

definition metrics_update :: "duration \<Rightarrow> status \<Rightarrow> duration \<Rightarrow> host_metrics \<Rightarrow> host_metrics" where
  "metrics_update now status d m =
     (let m = m\<lparr>hm_last_update := now\<rparr>
      in if status = 429 \<or> status = 503 then m\<lparr>response_qos := response_qos m @ [d]\<rparr>
         else if 100 \<le> status \<and> status \<le> 199 then m\<lparr>response_1xx := response_1xx m @ [d]\<rparr>
         else if 200 \<le> status \<and> status \<le> 299 then m\<lparr>response_2xx := response_2xx m @ [d]\<rparr>
         else if 300 \<le> status \<and> status \<le> 399 then m\<lparr>response_3xx := response_3xx m @ [d]\<rparr>
         else if 400 \<le> status \<and> status \<le> 499 then m\<lparr>response_4xx := response_4xx m @ [d]\<rparr>
         else if 500 \<le> status \<and> status \<le> 599 then m\<lparr>response_5xx := response_5xx m @ [d]\<rparr>
         else m\<lparr>response_other := response_other m @ [d]\<rparr>)"

definition metrics_update_io_error :: "duration \<Rightarrow> host_metrics \<Rightarrow> host_metrics" where
  "metrics_update_io_error now m = m\<lparr>hm_last_update := now, io_error := io_error m + 1\<rparr>"

record host_id =
  hi_service :: string
  hi_host :: string
  hi_port :: u16

record registry =
  reg_hosts :: "host_id \<rightharpoonup> handle"
  reg_store :: "handle \<rightharpoonup> host_metrics"
  reg_next :: handle

definition registry_new :: registry where
  "registry_new = \<lparr>reg_hosts = Map.empty, reg_store = Map.empty, reg_next = 0\<rparr>"

definition registry_get ::
  "string \<Rightarrow> string \<Rightarrow> u16 \<Rightarrow> duration \<Rightarrow> registry \<Rightarrow> handle \<times> registry" where
  "registry_get service host port now r =
     (let key = \<lparr>hi_service = service, hi_host = host, hi_port = port\<rparr>
      in case reg_hosts r key of
           Some h \<Rightarrow> (h, r)
         | None \<Rightarrow>
             let h = reg_next r
             in (h, r\<lparr>reg_hosts := (reg_hosts r)(key \<mapsto> h),
                      reg_store := (reg_store r)(h \<mapsto> host_metrics_new service host port now),
                      reg_next := h + 1\<rparr>))"

definition registry_hosts ::
  "(handle \<Rightarrow> nat) \<Rightarrow> registry \<Rightarrow> (host_id \<rightharpoonup> handle) \<times> registry" where
  "registry_hosts strong_count r =
     (let hs = (\<lambda>k. case reg_hosts r k of
                      Some h \<Rightarrow> if strong_count h > 1 then Some h else None
                    | None \<Rightarrow> None)
      in (hs, r\<lparr>reg_hosts := hs\<rparr>))"

definition samples :: "host_metrics \<Rightarrow> nat" where
  "samples m =
     length (response_1xx m) + length (response_2xx m) + length (response_3xx m) +
     length (response_4xx m) + length (response_5xx m) + length (response_qos m) +
     length (response_other m)"

definition registry_ok :: "registry \<Rightarrow> bool" where
  "registry_ok r \<longleftrightarrow>
     (\<forall>k h. reg_hosts r k = Some h \<longrightarrow>
        h < reg_next r \<and>
        (\<exists>m. reg_store r h = Some m \<and> hm_service_name m = hi_service k \<and>
           hm_hostname m = hi_host k \<and> hm_port m = hi_port k)) \<and>
     (\<forall>k k' h. reg_hosts r k = Some h \<longrightarrow> reg_hosts r k' = Some h \<longrightarrow> k = k')"

lemma host_id_eq_iff:
  "(k :: host_id) = k' \<longleftrightarrow>
     hi_service k = hi_service k' \<and> hi_host k = hi_host k' \<and> hi_port k = hi_port k'"
  by auto

definition entry_ok :: "registry \<Rightarrow> host_id \<Rightarrow> handle \<Rightarrow> bool" where
  "entry_ok r k h \<longleftrightarrow>
     h < reg_next r \<and>
     (\<exists>m. reg_store r h = Some m \<and> hm_service_name m = hi_service k \<and>
        hm_hostname m = hi_host k \<and> hm_port m = hi_port k)"

lemma registry_ok_iff:
  "registry_ok r \<longleftrightarrow>
     (\<forall>k h. reg_hosts r k = Some h \<longrightarrow> entry_ok r k h) \<and>
     (\<forall>k k' h. reg_hosts r k = Some h \<longrightarrow> reg_hosts r k' = Some h \<longrightarrow> k = k')"
  by (simp add: registry_ok_def entry_ok_def)

definition add_entry :: "host_id \<Rightarrow> host_metrics \<Rightarrow> registry \<Rightarrow> registry" where
  "add_entry k m r =
     r\<lparr>reg_hosts := (reg_hosts r)(k \<mapsto> reg_next r), reg_store := (reg_store r)(reg_next r \<mapsto> m),
       reg_next := reg_next r + 1\<rparr>"

lemma registry_get_eq:
  "registry_get s h p now r =
     (case reg_hosts r \<lparr>hi_service = s, hi_host = h, hi_port = p\<rparr> of
        Some x \<Rightarrow> (x, r)
      | None \<Rightarrow> (reg_next r, add_entry \<lparr>hi_service = s, hi_host = h, hi_port = p\<rparr>
                               (host_metrics_new s h p now) r))"
  by (simp add: registry_get_def add_entry_def Let_def split: option.split)

lemma add_entry_ok:
  assumes "registry_ok r" and "entry_ok (add_entry k m r) k (reg_next r)"
  shows "registry_ok (add_entry k m r)"
proof -
  have below: "y < reg_next r" if "reg_hosts r k' = Some y" for k' y
    using that assms(1) by (simp add: registry_ok_def)
  have keep: "entry_ok (add_entry k m r) k' y" if "entry_ok r k' y" for k' y
    using that by (auto simp: entry_ok_def add_entry_def)
  have "entry_ok (add_entry k m r) k' y" if "reg_hosts (add_entry k m r) k' = Some y" for k' y
    using that assms keep by (auto simp: add_entry_def registry_ok_iff split: if_splits)
  moreover have "k1 = k2"
    if "reg_hosts (add_entry k m r) k1 = Some y" "reg_hosts (add_entry k m r) k2 = Some y" for k1 k2 y
    using that assms(1) below [of k1 "reg_next r"] below [of k2 "reg_next r"]
    by (auto simp: add_entry_def registry_ok_iff split: if_splits)
  ultimately show ?thesis unfolding registry_ok_iff by blast
qed

lemma registry_get_ok:
  assumes "registry_ok r" "registry_get s h p now r = (x, r')"
  shows "registry_ok r' \<and> reg_hosts r' \<lparr>hi_service = s, hi_host = h, hi_port = p\<rparr> = Some x \<and>
         (\<forall>k. k \<noteq> \<lparr>hi_service = s, hi_host = h, hi_port = p\<rparr> \<longrightarrow> reg_hosts r' k = reg_hosts r k)"
proof (cases "reg_hosts r \<lparr>hi_service = s, hi_host = h, hi_port = p\<rparr>")
  case None
  with assms(2) have r': "x = reg_next r" "r' = add_entry \<lparr>hi_service = s, hi_host = h, hi_port = p\<rparr>
      (host_metrics_new s h p now) r"
    by (simp_all add: registry_get_eq)
  have "registry_ok r'"
    unfolding r' by (rule add_entry_ok [OF assms(1)])
      (simp add: entry_ok_def add_entry_def host_metrics_new_def)
  with r' show ?thesis by (simp add: add_entry_def)
next
  case (Some y)
  with assms show ?thesis by (simp add: registry_get_eq)
qed

text \<open>The registry hands out one metrics object per service, host and port: asking again for
  the same host gives the same object, different hosts never share one, and each object carries the
  name, host and port it was asked for.\<close>

theorem registry_shares_by_host:
  assumes "registry_ok r" "registry_get s h p now r = (x, r1)"
    and "registry_get s' h' p' now' r1 = (y, r2)"
  shows "registry_ok r2 \<and> (x = y \<longleftrightarrow> s = s' \<and> h = h' \<and> p = p') \<and>
    (\<exists>m. reg_store r2 y = Some m \<and> hm_service_name m = s' \<and> hm_hostname m = h' \<and> hm_port m = p')"
proof -
  let ?k = "\<lparr>hi_service = s, hi_host = h, hi_port = p\<rparr>"
  let ?k' = "\<lparr>hi_service = s', hi_host = h', hi_port = p'\<rparr>"
  note a = registry_get_ok [OF assms(1,2)]
  note b = registry_get_ok [OF conjunct1 [OF a] assms(3)]
  have x: "reg_hosts r2 ?k = Some x"
  proof (cases "?k = ?k'")
    case True
    with a assms(3) show ?thesis by (auto simp: registry_get_def Let_def)
  qed (use a b in auto)
  have "x = y \<longleftrightarrow> ?k = ?k'" using x b unfolding registry_ok_def by (metis option.inject)
  moreover have "\<exists>m. reg_store r2 y = Some m \<and> hm_service_name m = s' \<and> hm_hostname m = h' \<and>
      hm_port m = p'"
    using b unfolding registry_ok_def by (metis host_id.select_convs)
  ultimately show ?thesis using b by simp
qed

theorem registry_shares_by_host_witness:
  "fst (registry_get ''a'' ''h'' 1 0 (snd (registry_get ''a'' ''h'' 1 0 registry_new))) = 0 \<and>
   fst (registry_get ''a'' ''g'' 1 0 (snd (registry_get ''a'' ''h'' 1 0 registry_new))) \<noteq> 0"
proof -
  have ok: "registry_ok registry_new" by (simp add: registry_ok_def registry_new_def)
  obtain x r1 where r1: "registry_get ''a'' ''h'' 1 0 registry_new = (x, r1)" by fastforce
  then have "x = 0" by (simp add: registry_get_def registry_new_def Let_def)
  obtain y r2 where y: "registry_get ''a'' ''h'' 1 0 r1 = (y, r2)" by fastforce
  obtain z r3 where z: "registry_get ''a'' ''g'' 1 0 r1 = (z, r3)" by fastforce
  from registry_shares_by_host [OF ok r1 y] registry_shares_by_host [OF ok r1 z] \<open>x = 0\<close> r1 y z
  show ?thesis by auto
qed

text \<open>Each response is recorded in exactly one timer of its host, and 429 and 503 only in the
  one for QoS responses.\<close>

theorem metrics_update_once:
  "samples (metrics_update now st d m) = samples m + 1 \<and>
   io_error (metrics_update now st d m) = io_error m \<and>
   (response_qos (metrics_update now st d m) =
      (if st = 429 \<or> st = 503 then response_qos m @ [d] else response_qos m))"
  by (simp add: metrics_update_def samples_def Let_def)

subsection \<open>The public view\<close>

text \<open>The accessors of a host's timers, by the class of responses each one records.\<close>

datatype host_timer = Timer1xx | Timer2xx | Timer3xx | Timer4xx | Timer5xx | TimerQos | TimerOther

fun timer_of :: "host_timer \<Rightarrow> host_metrics \<Rightarrow> duration list" where
  "timer_of Timer1xx m = response_1xx m"
| "timer_of Timer2xx m = response_2xx m"
| "timer_of Timer3xx m = response_3xx m"
| "timer_of Timer4xx m = response_4xx m"
| "timer_of Timer5xx m = response_5xx m"
| "timer_of TimerQos m = response_qos m"
| "timer_of TimerOther m = response_other m"

text \<open>The iterator over a snapshot; the order of a hash map's values is a parameter.\<close>

definition hosts_iter :: "((host_id \<rightharpoonup> handle) \<Rightarrow> handle list) \<Rightarrow> (host_id \<rightharpoonup> handle) \<Rightarrow> handle list" where
  "hosts_iter values hosts = values hosts"

definition hosts_next :: "(handle \<rightharpoonup> host_metrics) \<Rightarrow> handle list \<Rightarrow> host_metrics option \<times> handle list" where
  "hosts_next store it = (case it of [] \<Rightarrow> (None, []) | h # rest \<Rightarrow> (store h, rest))"

definition hosts_size_hint :: "handle list \<Rightarrow> nat \<times> nat option" where
  "hosts_size_hint it = (length it, Some (length it))"

definition timer_class :: "status \<Rightarrow> host_timer" where
  "timer_class st =
     (if st = 429 \<or> st = 503 then TimerQos
      else if st div 100 = 1 then Timer1xx else if st div 100 = 2 then Timer2xx
      else if st div 100 = 3 then Timer3xx else if st div 100 = 4 then Timer4xx
      else if st div 100 = 5 then Timer5xx else TimerOther)"

lemma hundred: "k * 100 \<le> st \<and> st \<le> k * 100 + 99 \<longleftrightarrow> st div 100 = (k :: nat)"
  by auto

lemma timer_of_update:
  "timer_of t (metrics_update now st d m) = (if t = timer_class st then timer_of t m @ [d] else timer_of t m)"
  using hundred [of 1 st] hundred [of 2 st] hundred [of 3 st] hundred [of 4 st] hundred [of 5 st]
  by (cases t) (simp_all add: metrics_update_def timer_class_def Let_def)

text \<open>Iterating over a snapshot of a consistent registry shows every host that has other owners, and no other.\<close>

fun drain_hosts :: "(handle \<rightharpoonup> host_metrics) \<Rightarrow> handle list \<Rightarrow> host_metrics list" where
  "drain_hosts store [] = []"
| "drain_hosts store (h # rest) =
     (case hosts_next store (h # rest) of (Some m, it) \<Rightarrow> m # drain_hosts store rest | (None, it) \<Rightarrow> [])"

lemma drain_hosts_all:
  "(\<forall>h \<in> set hs. store h \<noteq> None) \<Longrightarrow> drain_hosts store hs = map (the \<circ> store) hs"
  by (induction hs) (auto simp: hosts_next_def)

lemma snapshot_shows_used_hosts:
  assumes "registry_ok r" "registry_hosts strong_count r = (hs, r')" "set (hosts_iter values hs) = ran hs"
  shows "set (drain_hosts (reg_store r) (hosts_iter values hs)) =
    {m. \<exists>k h. reg_hosts r k = Some h \<and> strong_count h > 1 \<and> reg_store r h = Some m}"
proof -
  have hs: "hs k = Some h \<longleftrightarrow> reg_hosts r k = Some h \<and> strong_count h > 1" for k h
    using assms(2) by (auto simp: registry_hosts_def Let_def split: option.splits if_splits)
  have "\<forall>h \<in> ran hs. reg_store r h \<noteq> None" using assms(1) hs by (fastforce simp: ran_def registry_ok_def)
  then show ?thesis
    using assms(3) hs by (subst drain_hosts_all) (auto simp: ran_def image_iff, force+)
qed

end
