(* ===== verification/Node.thy ===== *)
theory Node
  imports Limiter HostMetrics
begin

text \<open>
  A node of a service and the layers that work on it: \<^verbatim>\<open>service/node/mod.rs\<close> (\<open>LimitedNode\<close> and
  \<open>AcquiredNode\<close>), \<^verbatim>\<open>service/node/uri.rs\<close> and \<^verbatim>\<open>service/node/metrics.rs\<close>.

  \<open>limited_wrap\<close> polls the node's limiter once: either the request has to wait, and the state of
  the acquisition is returned, or it goes through and its permit is given back afterwards.
\<close>

datatype node_fault = Panicked panic | SemFault sem_fault

definition lift_sem :: "sem_fault + 'a \<Rightarrow> node_fault + 'a" where
  "lift_sem m = map_sum SemFault (\<lambda>x. x) m"

lemma lift_sem_simps [simp]: "lift_sem (Inl f) = Inl (SemFault f)" "lift_sem (Inr x) = Inr x"
  by (simp_all add: lift_sem_def)

record limited_node =
  ln_node :: node
  ln_limiter :: "limiter option"

record url_api =
  host_str :: "url \<Rightarrow> string option"
  port_or_known_default :: "url \<Rightarrow> u16 option"

text \<open>
  \<open>LimitedNode::new\<close>. The result carries the gauges the new limiter is pushed to, as pairs of the
  metric's name and its \<open>service\<close> and \<open>hostIndex\<close> tags.
\<close>

definition node_metrics_for ::
  "url_api \<Rightarrow> url \<Rightarrow> string \<Rightarrow> duration \<Rightarrow> registry option \<Rightarrow>
   node_fault + (handle option \<times> registry option)" where
  "node_metrics_for U url service now reg =
     (case reg of
        None \<Rightarrow> Inr (None, None)
      | Some r \<Rightarrow>
          (case (host_str U url, port_or_known_default U url) of
             (Some h, Some p) \<Rightarrow>
               (let (x, r') = registry_get service h p now r in Inr (Some x, Some r'))
           | (None, _) \<Rightarrow> Inl (Panicked (Unwrap ''host_str''))
           | (_, None) \<Rightarrow> Inl (Panicked (Unwrap ''port_or_known_default''))))"

definition limited_node_new ::
  "url_api \<Rightarrow> usize \<Rightarrow> url \<Rightarrow> string \<Rightarrow> builder \<Rightarrow> duration \<Rightarrow> registry option \<Rightarrow>
   node_fault + (limited_node \<times> (string \<times> string \<times> string) list \<times> registry option)" where
  "limited_node_new U idx url service b now reg =
     and_then (node_metrics_for U url service now reg) (\<lambda>(hm, reg').
       let n = \<lparr>ln_node = \<lparr>node_idx = idx, node_url = url, node_metrics = hm\<rparr>,
                ln_limiter =
                  (case cc_client_qos (cached b) of
                     Enabled \<Rightarrow> Some limiter_new
                   | DangerousDisableSympatheticClientQos \<Rightarrow> None)\<rparr>;
           ix = show_nat (unat idx)
       in Inr (n,
            (case (uc_metrics (uncached b), ln_limiter n) of
               (Some _, Some _) \<Rightarrow>
                 [(''conjure-runtime.concurrencylimiter.max'', service, ix),
                  (''conjure-runtime.concurrencylimiter.in-flight'', service, ix)]
             | _ \<Rightarrow> []),
            reg'))"

definition request_key :: "('h, 'b) request \<Rightarrow> endpoint \<Rightarrow> endpoint_key" where
  "request_key req ep = \<lparr>ep_method = rq_method req, ep_pattern = ed_path ep\<rparr>"

definition limited_acquire ::
  "addr \<Rightarrow> waker \<Rightarrow> ('h, 'b) request \<Rightarrow> limited_node \<Rightarrow>
   node_fault + ((limiter_acquire + limiter_permit option) \<times> limited_node)" where
  "limited_acquire a wk req n =
     (case rq_endpoint req of
        None \<Rightarrow> Inl (Panicked (Expect ''Endpoint extension missing from request''))
      | Some ep \<Rightarrow>
          (case ln_limiter n of
             None \<Rightarrow> Inr (Inr None, n)
           | Some l \<Rightarrow>
               and_then (lift_sem (limiter_poll a wk (AcqStart (request_key req ep)) l)) (\<lambda>(r, l').
                 Inr (map_sum (\<lambda>x. x) Some r, n\<lparr>ln_limiter := Some l'\<rparr>))))"

definition acquired_wrap ::
  "http_api \<Rightarrow> 'e error_api \<Rightarrow>
   (('h, 'b) request, 'w, 'e, ('h, 'c) response) service \<Rightarrow>
   limiter_permit option \<Rightarrow> ('h, 'b) request \<Rightarrow> limited_node \<Rightarrow> 'w \<Rightarrow>
   node_fault + (('e + ('h, 'c) response) \<times> limited_node \<times> 'w)" where
  "acquired_wrap H E inner permit req n w =
     (case inner (req\<lparr>rq_node := Some (ln_node n)\<rparr>) w of
        (r, w') \<Rightarrow>
          (case (permit, ln_limiter n) of
             (Some p, Some l) \<Rightarrow>
               and_then (lift_sem
                 (limiter_permit_drop (limiter_on_response H E (result_status r) p) l)) (\<lambda>l'.
                 Inr (r, n\<lparr>ln_limiter := Some l'\<rparr>, w'))
           | _ \<Rightarrow> Inr (r, n, w')))"

definition limited_wrap ::
  "http_api \<Rightarrow> 'e error_api \<Rightarrow> addr \<Rightarrow> waker \<Rightarrow>
   (('h, 'b) request, 'w, 'e, ('h, 'c) response) service \<Rightarrow>
   ('h, 'b) request \<Rightarrow> limited_node \<Rightarrow> 'w \<Rightarrow>
   node_fault + ((limiter_acquire + ('e + ('h, 'c) response)) \<times> limited_node \<times> 'w)" where
  "limited_wrap H E a wk inner req n w =
     (if ln_limiter n \<noteq> None then
        and_then (limited_acquire a wk req n) (\<lambda>(r, n').
          case r of
            Inl f \<Rightarrow> Inr (Inl f, n', w)
          | Inr permit \<Rightarrow>
              and_then (acquired_wrap H E inner permit req n' w) (\<lambda>(res, n2, w').
                Inr (Inr res, n2, w')))
      else
        and_then (acquired_wrap H E inner None req n w) (\<lambda>(res, n2, w').
          Inr (Inr res, n2, w')))"

subsection \<open>The URI and metrics layers\<close>

record uri_api =
  uri_scheme :: "string \<Rightarrow> string option"
  uri_authority :: "string \<Rightarrow> string option"
  uri_path :: "string \<Rightarrow> string"
  uri_parses :: "string \<Rightarrow> bool"

definition strip_slash :: "string \<Rightarrow> string" where
  "strip_slash s = (if s \<noteq> [] \<and> last s = CHR ''/'' then butlast s else s)"

definition node_uri_call ::
  "uri_api \<Rightarrow> (('h, 'b) request \<Rightarrow> 'w \<Rightarrow> node_fault + ('r \<times> 'w)) \<Rightarrow>
   ('h, 'b) request \<Rightarrow> 'w \<Rightarrow> node_fault + ('r \<times> 'w)" where
  "node_uri_call U inner req w =
     (if uri_scheme U (rq_uri req) \<noteq> None then Inl (Panicked (DebugPanic ''scheme''))
      else if uri_authority U (rq_uri req) \<noteq> None then Inl (Panicked (DebugPanic ''authority''))
      else if \<not> (case uri_path U (rq_uri req) of c # _ \<Rightarrow> c = CHR ''/'' | [] \<Rightarrow> False)
        then Inl (Panicked (DebugPanic ''path''))
      else
        (case rq_node req of
           None \<Rightarrow> Inl (Panicked (Expect ''should have a Node extension''))
         | Some n \<Rightarrow>
             let uri = strip_slash (node_url n) @ rq_uri req
             in if uri_parses U uri then inner (req\<lparr>rq_uri := uri\<rparr>) w
                else Inl (Panicked (Unwrap ''uri''))))"

definition node_metrics_call ::
  "(('h, 'b) request, 'w, 'e, ('h, 'c) response) service \<Rightarrow> ('w \<Rightarrow> duration) \<Rightarrow>
   ('h, 'b) request \<Rightarrow> 'w \<Rightarrow> registry \<Rightarrow>
   node_fault + (('e + ('h, 'c) response) \<times> 'w \<times> registry)" where
  "node_metrics_call inner now req w reg =
     (case rq_node req of
        None \<Rightarrow> Inl (Panicked (Expect ''should have a Node extension''))
      | Some n \<Rightarrow>
          (let start = now w; (r, w') = inner req w
           in Inr (r, w',
                (case node_metrics n of
                   None \<Rightarrow> reg
                 | Some h \<Rightarrow>
                     (case reg_store reg h of
                        None \<Rightarrow> reg
                      | Some m \<Rightarrow>
                          reg\<lparr>reg_store := (reg_store reg)(h \<mapsto>
                            (case r of
                               Inr resp \<Rightarrow> metrics_update (now w') (rs_status resp) (now w' - start) m
                             | Inl _ \<Rightarrow> metrics_update_io_error (now w') m))\<rparr>)))))"

subsection \<open>Permits are given back\<close>

lemma ciad_acquire_Ready:
  assumes "ciad_ok c" "ciad_acquire_poll a w c = Inr (Ready p, c')"
  shows "ciad_ok c'" "unat (outstanding_permits (semaphore c')) =
    unat (outstanding_permits (semaphore c)) + 1"
proof -
  from assms(2) obtain s where s: "acquire_poll a w (semaphore c) = Inr (Ready (), s)"
    and c': "c' = c\<lparr>semaphore := s, in_flight := in_flight c + 1\<rparr>"
    by (auto simp: ciad_acquire_poll_def ciad_enter_def and_then_Inr_iff split: poll.splits)
      (metis poll.exhaust old.unit.exhaust)
  from assms(1) have "sem_ok (semaphore c)" by (simp add: ciad_ok_def)
  from acquire_poll_Inr_counts [OF this s] assms(1)
  show "ciad_ok c'" "unat (outstanding_permits (semaphore c')) =
    unat (outstanding_permits (semaphore c)) + 1"
    by (simp_all add: c' ciad_ok_def)
qed

definition busy :: "ciad \<Rightarrow> nat" where
  "busy c = unat (outstanding_permits (semaphore c))"

definition endpoint_busy :: "endpoint_key \<Rightarrow> limiter \<Rightarrow> nat" where
  "endpoint_busy k l = (case endpoints l k of None \<Rightarrow> 0 | Some c \<Rightarrow> busy c)"

lemma busy_new: "busy ciad_new = 0"
  by (simp add: busy_def ciad_new_def sem_new_def)

lemma limiter_poll_Acquired:
  assumes "limiter_ok l" "limiter_poll a w (AcqStart k) l = Inr (Inr p, l')"
  shows "limiter_ok l'" "lp_key p = k" "busy (host l') = busy (host l) + 1"
    "endpoint_busy k l' = endpoint_busy k l + 1"
    "k' \<noteq> k \<Longrightarrow> endpoints l' k' = endpoints l k'" "endpoints l' k \<noteq> None"
proof -
  let ?l = "entry_or_new k l"
  obtain c where c: "endpoints ?l k = Some c" and ok: "limiter_ok ?l"
    using entry_or_new_ok [OF assms(1), of k] by auto
  from assms(2) c obtain ep c1 where e: "ciad_acquire_poll a w c = Inr (Ready ep, c1)"
    and h: "poll_host a w k ep (?l\<lparr>endpoints := (endpoints ?l)(k \<mapsto> c1)\<rparr>) = Inr (Inr p, l')"
    by (auto simp: poll_endpoint_def Let_def and_then_Inr_iff split: poll.splits)
      (metis poll.exhaust)
  then obtain hp c2 where hc: "ciad_acquire_poll a w (host ?l) = Inr (Ready hp, c2)"
    and l': "l' = ?l\<lparr>endpoints := (endpoints ?l)(k \<mapsto> c1), host := c2\<rparr>"
    and p: "p = \<lparr>lp_key = k, lp_endpoint = ep, lp_host = hp\<rparr>"
    by (auto simp: poll_host_def and_then_Inr_iff split: poll.splits) (metis poll.exhaust)
  have ce: "ciad_ok c" "ciad_ok (host ?l)" using ok c by (auto simp: limiter_ok_def)
  note r1 = ciad_acquire_Ready [OF ce(1) e] and r2 = ciad_acquire_Ready [OF ce(2) hc]
  have hosts: "host ?l = host l" by (simp add: entry_or_new_def split: option.splits)
  have eb: "busy c = endpoint_busy k l"
    using c busy_new by (auto simp: endpoint_busy_def entry_or_new_def split: option.splits)
  show "limiter_ok l'" using ok r1 r2 by (auto simp: l' limiter_ok_def)
  show "lp_key p = k" by (simp add: p)
  show "busy (host l') = busy (host l) + 1" using r2(2) hosts by (simp add: l' busy_def)
  show "endpoint_busy k l' = endpoint_busy k l + 1"
    using r1(2) eb by (simp add: l' endpoint_busy_def busy_def)
  show "k' \<noteq> k \<Longrightarrow> endpoints l' k' = endpoints l k'"
    by (simp add: l' entry_or_new_def split: option.splits)
  show "endpoints l' k \<noteq> None" by (simp add: l')
qed

lemma ciad_drop_busy:
  assumes "ciad_ok c" "0 < busy c"
  shows "\<exists>c'. ciad_permit_drop p c = Inr c' \<and> ciad_ok c' \<and> busy c' = busy c - 1"
proof -
  have nz: "outstanding_permits (semaphore c) \<noteq> 0" using assms(2) by (auto simp: busy_def)
  then have "0 < outstanding_permits (semaphore c)" by (simp add: word_neq_0_conv)
  with ciad_permit_drop_ok [OF assms(1)] nz show ?thesis
    by (metis busy_def unat_pred)
qed

lemma limiter_permit_drop_ok:
  assumes "limiter_ok l" "endpoints l (lp_key p) \<noteq> None" "0 < endpoint_busy (lp_key p) l"
    and "0 < busy (host l)"
  shows "\<exists>l'. limiter_permit_drop p l = Inr l' \<and> limiter_ok l' \<and>
           busy (host l') = busy (host l) - 1 \<and>
           endpoint_busy (lp_key p) l' = endpoint_busy (lp_key p) l - 1 \<and>
           (\<forall>k. k \<noteq> lp_key p \<longrightarrow> endpoints l' k = endpoints l k)"
proof -
  obtain c where c: "endpoints l (lp_key p) = Some c" using assms(2) by auto
  then have ce: "ciad_ok c" "ciad_ok (host l)" "0 < busy c"
    using assms by (auto simp: limiter_ok_def endpoint_busy_def)
  obtain c1 where c1: "ciad_permit_drop (lp_endpoint p) c = Inr c1" "ciad_ok c1" "busy c1 = busy c - 1"
    using ciad_drop_busy [OF ce(1,3)] by blast
  obtain c2 where c2: "ciad_permit_drop (lp_host p) (host l) = Inr c2" "ciad_ok c2"
    "busy c2 = busy (host l) - 1"
    using ciad_drop_busy [OF ce(2) assms(4)] by blast
  show ?thesis
    using c c1 c2 assms(1)
    by (auto simp: limiter_permit_drop_def endpoint_permit_drop_def limiter_ok_def endpoint_busy_def)
qed

lemma limited_wrap_granted:
  assumes "ln_limiter n = Some l" "limiter_ok l" "rq_endpoint req = Some ep"
    and "limiter_poll a wk (AcqStart (request_key req ep)) l = Inr (Inr p, l1)"
  shows "\<exists>l'. limited_wrap H E a wk inner req n w =
           Inr (Inr (fst (inner (req\<lparr>rq_node := Some (ln_node n)\<rparr>) w)), n\<lparr>ln_limiter := Some l'\<rparr>,
             snd (inner (req\<lparr>rq_node := Some (ln_node n)\<rparr>) w)) \<and>
         limiter_ok l' \<and> busy (host l') = busy (host l) \<and>
         (\<forall>k. endpoint_busy k l' = endpoint_busy k l)"
proof -
  let ?k = "request_key req ep"
  obtain r w' where i: "inner (req\<lparr>rq_node := Some (ln_node n)\<rparr>) w = (r, w')" by fastforce
  note acq = limiter_poll_Acquired [OF assms(2,4)]
  let ?p = "limiter_on_response H E (result_status r) p"
  have key: "lp_key ?p = ?k" using acq(2) by (simp add: limiter_on_response_def)
  obtain l' where l': "limiter_permit_drop ?p l1 = Inr l'" "limiter_ok l'"
    "busy (host l') = busy (host l1) - 1" "endpoint_busy ?k l' = endpoint_busy ?k l1 - 1"
    "\<forall>k. k \<noteq> ?k \<longrightarrow> endpoints l' k = endpoints l1 k"
    using limiter_permit_drop_ok [of l1 ?p] acq key by auto
  have "endpoint_busy k l' = endpoint_busy k l" for k
    using l'(4,5) acq(4) acq(5) [of k] by (cases "k = ?k") (auto simp: endpoint_busy_def)
  with l' i assms acq show ?thesis
    by (auto simp: limited_wrap_def limited_acquire_def acquired_wrap_def)
qed

text \<open>C20: Every permit taken for a request is given back: when the node's limiter lets a request
  through, the inner service is called once with the node attached, its result is returned
  unchanged, and afterwards the limiter is consistent and as busy as before, on the host and on the
  request's endpoint, whatever the response was.\<close>

theorem node_wrap_returns_permits:
  assumes "ln_limiter n = Some l" "limiter_ok l" "rq_endpoint req = Some ep"
    and "limiter_poll a wk (AcqStart (request_key req ep)) l = Inr (Inr p, l1)"
  shows "\<exists>l'. limited_wrap H E a wk inner req n w =
           Inr (Inr (fst (inner (req\<lparr>rq_node := Some (ln_node n)\<rparr>) w)), n\<lparr>ln_limiter := Some l'\<rparr>,
             snd (inner (req\<lparr>rq_node := Some (ln_node n)\<rparr>) w)) \<and>
         limiter_ok l' \<and> busy (host l') = busy (host l) \<and>
         (\<forall>k. endpoint_busy k l' = endpoint_busy k l)"
  using assms by (rule limited_wrap_granted)

definition demo_node :: limited_node where
  "demo_node =
     \<lparr>ln_node = \<lparr>node_idx = 0, node_url = ''https://a/'', node_metrics = None\<rparr>,
      ln_limiter = Some limiter_new\<rparr>"

definition demo_request :: "(string \<rightharpoonup> string, unit) request" where
  "demo_request =
     \<lparr>rq_method = ''GET'', rq_uri = ''/foo'', rq_headers = Map.empty,
      rq_endpoint =
        Some \<lparr>ed_service = ''svc'', ed_version = None, ed_name = ''foo'', ed_path = ''/foo''\<rparr>,
      rq_node = None, rq_body = ()\<rparr>"

lemma new_limiter_grants:
  "\<exists>p l. limiter_poll a w (AcqStart k) limiter_new = Inr (Inr p, l)"
proof -
  have new: "has_permits (sem_new INITIAL_LIMIT)" "head (sem_new INITIAL_LIMIT) = None"
    by (simp_all add: has_permits_def sem_new_def INITIAL_LIMIT_def)
  then have "\<exists>p c. ciad_acquire_poll a w ciad_new = Inr (Ready p, c)"
    by (simp add: ciad_acquire_poll_def ciad_new_def acquire_poll_def ciad_enter_def)
  then show ?thesis
    by (auto simp: poll_endpoint_def poll_host_def limiter_new_def entry_or_new_def)
qed

theorem node_wrap_returns_permits_witness:
  "\<exists>n'. limited_wrap std_http std_errors 1 2
      (\<lambda>req (w :: nat). (Inr \<lparr>rs_status = 503, rs_headers = Map.empty, rs_body = ()\<rparr>, w + 1))
      demo_request demo_node 0 =
    Inr (Inr (Inr \<lparr>rs_status = 503, rs_headers = Map.empty, rs_body = ()\<rparr>), n', 1)"
proof -
  obtain p l where "limiter_poll 1 2 (AcqStart (request_key demo_request
      \<lparr>ed_service = ''svc'', ed_version = None, ed_name = ''foo'', ed_path = ''/foo''\<rparr>)) limiter_new =
      Inr (Inr p, l)"
    using new_limiter_grants by blast
  from node_wrap_returns_permits [OF _ limiter_new_ok _ this, of demo_node std_http std_errors
      "\<lambda>req (w :: nat). (Inr \<lparr>rs_status = 503, rs_headers = Map.empty, rs_body = ()\<rparr>, w + 1)" 0]
  show ?thesis by (auto simp: demo_node_def demo_request_def)
qed

end
