(* ===== verification/Reservoir.thy ===== *)
theory Reservoir
  imports Float64 Http
begin

text \<open>
  \<^verbatim>\<open>service/node/selector/balanced/reservoir.rs\<close>: a counter that decays by half every half life, in
  ten steps. Times are nanoseconds since the reservoir was created. \<^verbatim>\<open>powf\<close> and \<^verbatim>\<open>powi\<close> have no
  specified rounding, so they are parameters (\<open>f64_math\<close>) of which only the range is assumed.
  \<open>decay_step\<close> is \<^verbatim>\<open>decay_if_necessary\<close> one access at a time, in the order of the source: the clock is
  read, \<^verbatim>\<open>last_decay_nanos\<close> is loaded, compared and exchanged, and the value is scaled. A thread that is
  not interrupted runs it to its end (\<open>decay_if_necessary\<close>); many threads at one reservoir are the step
  system \<open>res_step\<close>. The subtraction of a debug build panics when it would go below zero.
\<close>

record f64_math =
  f_powf :: "f64 \<Rightarrow> f64 \<Rightarrow> f64"
  f_powi :: "f64 \<Rightarrow> int \<Rightarrow> f64"

definition math_ok :: "f64_math \<Rightarrow> bool" where
  "math_ok M \<longleftrightarrow>
     (\<forall>x \<ge> 0. 0 \<le> f_powf M (1 / 2) x \<and> f_powf M (1 / 2) x \<le> 1) \<and>
     (\<forall>d n. 0 \<le> d \<longrightarrow> d \<le> 1 \<longrightarrow> 0 \<le> n \<longrightarrow> 0 \<le> f_powi M d n \<and> f_powi M d n \<le> 1)"

definition DECAYS_PER_HALF_LIFE :: u64 where "DECAYS_PER_HALF_LIFE = 10"

definition decay_factor :: "f64_math \<Rightarrow> f64" where
  "decay_factor M = f_powf M (1 / 2) (f64_div 1 (f64_of_usize DECAYS_PER_HALF_LIFE))"

record reservoir =
  rv_value :: f64
  last_decay_nanos :: u64
  decay_interval_nanos :: u64

definition reservoir_new :: "duration \<Rightarrow> reservoir" where
  "reservoir_new half_life =
     \<lparr>rv_value = 0, last_decay_nanos = 0,
      decay_interval_nanos = of_nat half_life div DECAYS_PER_HALF_LIFE\<rparr>"

definition decay :: "f64_math \<Rightarrow> int \<Rightarrow> reservoir \<Rightarrow> reservoir" where
  "decay M decays r = r\<lparr>rv_value := f64_mul (rv_value r) (f_powi M (decay_factor M) decays)\<rparr>"

text \<open>The cast \<^verbatim>\<open>as i32\<close> keeps the low 32 bits.\<close>

definition as_i32 :: "u64 \<Rightarrow> int" where
  "as_i32 n = sint (ucast n :: 32 word)"

datatype decay_pc =
    DecayStart
  | DecayLoad u64
  | DecayExchange u64 u64
  | DecayScale u64
  | DecayDone

fun decay_step :: "f64_math \<Rightarrow> u64 \<Rightarrow> decay_pc \<Rightarrow> reservoir \<Rightarrow> panic + (decay_pc \<times> reservoir)" where
  "decay_step M clock DecayStart r = Inr (DecayLoad clock, r)"
| "decay_step M clock (DecayLoad now) r =
     (let snapshot = last_decay_nanos r
      in if now < snapshot then Inl ArithmeticOverflow
         else if decay_interval_nanos r = 0 then Inl ArithmeticOverflow
         else
           let decays = (now - snapshot) div decay_interval_nanos r
           in Inr (if decays = 0 then DecayDone else DecayExchange snapshot decays, r))"
| "decay_step M clock (DecayExchange snapshot decays) r =
     (if last_decay_nanos r \<noteq> snapshot then Inr (DecayDone, r)
      else Inr (DecayScale decays, r\<lparr>last_decay_nanos := snapshot + decays * decay_interval_nanos r\<rparr>))"
| "decay_step M clock (DecayScale decays) r = Inr (DecayDone, decay M (as_i32 decays) r)"
| "decay_step M clock DecayDone r = Inr (DecayDone, r)"

primrec decay_run :: "f64_math \<Rightarrow> u64 \<Rightarrow> nat \<Rightarrow> decay_pc \<Rightarrow> reservoir \<Rightarrow> panic + (decay_pc \<times> reservoir)" where
  "decay_run M clock 0 pc r = Inr (pc, r)"
| "decay_run M clock (Suc n) pc r = and_then (decay_step M clock pc r) (\<lambda>(pc', r'). decay_run M clock n pc' r')"

text \<open>There are four accesses, so four steps are the whole function.\<close>

definition decay_if_necessary :: "f64_math \<Rightarrow> u64 \<Rightarrow> reservoir \<Rightarrow> panic + reservoir" where
  "decay_if_necessary M now r = and_then (decay_run M now 4 DecayStart r) (\<lambda>(_, r'). Inr r')"

definition reservoir_update :: "f64_math \<Rightarrow> u64 \<Rightarrow> f64 \<Rightarrow> reservoir \<Rightarrow> panic + reservoir" where
  "reservoir_update M now updates r =
     and_then (decay_if_necessary M now r) (\<lambda>r'. Inr (r'\<lparr>rv_value := f64_add (rv_value r') updates\<rparr>))"

definition reservoir_get :: "f64_math \<Rightarrow> u64 \<Rightarrow> reservoir \<Rightarrow> panic + (f64 \<times> reservoir)" where
  "reservoir_get M now r = and_then (decay_if_necessary M now r) (\<lambda>r'. Inr (rv_value r', r'))"

lemma decay_if_necessary_eq:
  "decay_if_necessary M now r =
     (if now < last_decay_nanos r then Inl ArithmeticOverflow
      else if decay_interval_nanos r = 0 then Inl ArithmeticOverflow
      else
        let decays = (now - last_decay_nanos r) div decay_interval_nanos r
        in if decays = 0 then Inr r
           else Inr (decay M (as_i32 decays)
                      (r\<lparr>last_decay_nanos := last_decay_nanos r + decays * decay_interval_nanos r\<rparr>)))"
  by (simp add: decay_if_necessary_def numeral_eq_Suc Let_def)

subsection \<open>Decay\<close>

definition reservoir_ok :: "u64 \<Rightarrow> reservoir \<Rightarrow> bool" where
  "reservoir_ok now r \<longleftrightarrow>
     0 \<le> rv_value r \<and> f64_round (rv_value r) = rv_value r \<and> 0 < decay_interval_nanos r \<and>
     last_decay_nanos r \<le> now"

lemma decay_value:
  assumes "math_ok M" "0 \<le> n" "0 \<le> rv_value r" "f64_round (rv_value r) = rv_value r"
  shows "0 \<le> rv_value (decay M n r)" "rv_value (decay M n r) \<le> rv_value r"
    "f64_round (rv_value (decay M n r)) = rv_value (decay M n r)"
proof -
  let ?p = "f_powi M (decay_factor M) n"
  have "0 \<le> decay_factor M \<and> decay_factor M \<le> 1"
    using assms(1) f64.rnd_nonneg [of "1 / f64_of_usize DECAYS_PER_HALF_LIFE"]
    by (simp add: decay_factor_def math_ok_def f64_div_def f64_of_usize_small DECAYS_PER_HALF_LIFE_def)
  with assms have p: "0 \<le> ?p" "?p \<le> 1" by (auto simp: math_ok_def)
  then show "0 \<le> rv_value (decay M n r)"
    using assms(3) by (simp add: decay_def f64_mul_def f64.rnd_nonneg)
  have "rv_value r * ?p \<le> rv_value r" using p assms(3) by (simp add: mult_left_le)
  then show "rv_value (decay M n r) \<le> rv_value r"
    using f64.rnd_le [OF assms(4)] by (simp add: decay_def f64_mul_def)
  show "f64_round (rv_value (decay M n r)) = rv_value (decay M n r)"
    by (simp add: decay_def f64_mul_def f64_round_idem)
qed

lemma as_i32_small:
  assumes "unat n < 2 ^ 31"
  shows "as_i32 n = int (unat n)"
proof -
  have "int (unat n) < int (2 ^ 31)" using assms by (simp only: of_nat_less_iff)
  then have n: "0 \<le> uint n" "uint n < 2 ^ 31" by simp_all
  have "uint (ucast n :: 32 word) = uint n"
    using n by (simp add: unsigned_ucast_eq take_bit_int_eq_self)
  moreover have "signed_take_bit 31 (uint n) = uint n"
    by (rule signed_take_bit_int_eq_self [OF order_trans [OF _ n(1)] n(2)]) simp
  ultimately show ?thesis by (simp add: as_i32_def sint_uint)
qed

lemma decay_count:
  assumes "0 < (i :: u64)" "l0 \<le> now"
  shows "unat ((now - l0) div i) = (unat now - unat l0) div unat i"
    "unat (l0 + (now - l0) div i * i) = unat l0 + (unat now - unat l0) div unat i * unat i"
    "unat l0 + (unat now - unat l0) div unat i * unat i \<le> unat now"
proof -
  let ?d = "unat now - unat l0"
  have s: "unat (now - l0) = ?d" using assms(2) by (simp add: unat_sub)
  then show d: "unat ((now - l0) div i) = ?d div unat i" by (simp add: unat_div)
  have "?d div unat i * unat i \<le> ?d" by simp
  moreover have "unat l0 + ?d = unat now" using assms(2) by (simp add: word_le_nat_alt)
  ultimately show le: "unat l0 + ?d div unat i * unat i \<le> unat now" by linarith
  have "unat l0 + ?d div unat i * unat i < 2 ^ 64"
    using le_less_trans [OF le unat_less_pow] by simp
  then show "unat (l0 + (now - l0) div i * i) = unat l0 + ?d div unat i * unat i"
    using d by (simp add: unat_word_ariths)
qed

text \<open>What \<open>n\<close> nanoseconds do to a value: nothing within the first interval, and from then on one power
  of the factor for every full interval.\<close>

definition decayed :: "f64_math \<Rightarrow> u64 \<Rightarrow> nat \<Rightarrow> f64 \<Rightarrow> f64" where
  "decayed M interval n v =
     (if n < unat interval then v
      else f64_mul v (f_powi M (decay_factor M) (int (n div unat interval))))"

lemma decay_if_necessary_ok:
  assumes "math_ok M" "reservoir_ok now r" "unat now < 2 ^ 31 * unat (decay_interval_nanos r)"
  shows "\<exists>r'. decay_if_necessary M now r = Inr r' \<and> reservoir_ok now r' \<and>
           rv_value r' = decayed M (decay_interval_nanos r) (unat now - unat (last_decay_nanos r)) (rv_value r) \<and>
           rv_value r' \<le> rv_value r \<and> decay_interval_nanos r' = decay_interval_nanos r \<and>
           unat now < unat (last_decay_nanos r') + unat (decay_interval_nanos r)"
proof -
  define i l n where "i = decay_interval_nanos r" and "l = last_decay_nanos r"
    and "n = (now - l) div i"
  have i: "0 < i" "l \<le> now" and v: "0 \<le> rv_value r" "f64_round (rv_value r) = rv_value r"
    using assms(2) by (simp_all add: reservoir_ok_def i_def l_def)
  then have pos: "0 < unat i" by (simp add: word_less_nat_alt)
  note c = decay_count [OF i, folded n_def]
  have "unat now - unat l < 2 ^ 31 * unat i" using assms(3) unfolding i_def [symmetric] by linarith
  then have small: "unat n < 2 ^ 31" unfolding c(1) using pos by (simp add: div_less_iff_less_mult)
  have zero: "n = 0 \<longleftrightarrow> unat now - unat l < unat i"
    using c(1) pos by (metis div_eq_0_iff neq0_conv unat_eq_zero)
  have rest: "unat now < unat (l + n * i) + unat i"
    unfolding c(2) using i(2) dividend_less_div_times [OF pos, of "unat now - unat l"]
    by (simp add: word_le_nat_alt)
  have step: "decay_if_necessary M now r =
      (if n = 0 then Inr r else Inr (decay M (as_i32 n) (r\<lparr>last_decay_nanos := l + n * i\<rparr>)))"
    using i by (auto simp: decay_if_necessary_eq i_def [symmetric] l_def [symmetric] n_def Let_def)
  show ?thesis
  proof (cases "n = 0")
    case True
    with step rest assms(2) zero show ?thesis by (simp add: i_def l_def decayed_def)
  next
    case False
    let ?r = "decay M (as_i32 n) (r\<lparr>last_decay_nanos := l + n * i\<rparr>)"
    have n: "as_i32 n = int ((unat now - unat l) div unat i)" using as_i32_small [OF small] c(1) by simp
    then have "0 \<le> as_i32 n" by simp
    with v have "0 \<le> rv_value ?r" "rv_value ?r \<le> rv_value r" "f64_round (rv_value ?r) = rv_value ?r"
      using decay_value [OF assms(1), of "as_i32 n" "r\<lparr>last_decay_nanos := l + n * i\<rparr>"] by simp_all
    moreover have "last_decay_nanos ?r = l + n * i" "decay_interval_nanos ?r = i"
      by (simp_all add: decay_def i_def)
    moreover have "rv_value ?r = decayed M i (unat now - unat l) (rv_value r)"
      using False zero n by (simp add: decayed_def decay_def)
    moreover have "l + n * i \<le> now" using c(2,3) by (simp add: word_le_nat_alt)
    ultimately have "reservoir_ok now ?r" using i by (simp add: reservoir_ok_def)
    with False step rest \<open>rv_value ?r \<le> rv_value r\<close> \<open>rv_value ?r = decayed M i (unat now - unat l) (rv_value r)\<close>
    show ?thesis by (intro exI [of _ ?r]) (simp add: decay_def i_def l_def)
  qed
qed

text \<open>C34: Reading and updating the reservoir by one thread at a time. When the clock has not fallen behind the
  last decay and shows less than \<^verbatim>\<open>2^31\<close> decay intervals, so that the cast to \<^verbatim>\<open>i32\<close> is exact, neither
  \<^verbatim>\<open>get\<close> nor \<^verbatim>\<open>update\<close> panics. Both first scale the stored value by the decay factor to the number of full
  intervals since the last decay, which never raises it and keeps it non-negative, and leave less than
  one interval outstanding; \<^verbatim>\<open>get\<close> returns that value, and \<^verbatim>\<open>update\<close> stores its sum with the argument. The
  value stays a non-negative double, for \<^verbatim>\<open>update\<close> with an argument that is not negative.\<close>

theorem reservoir_decays:
  assumes "math_ok M" "reservoir_ok now r" "unat now < 2 ^ 31 * unat (decay_interval_nanos r)"
  defines "v \<equiv> decayed M (decay_interval_nanos r) (unat now - unat (last_decay_nanos r)) (rv_value r)"
  shows "0 \<le> v \<and> v \<le> rv_value r \<and>
    (\<exists>r1. reservoir_get M now r = Inr (v, r1) \<and> rv_value r1 = v \<and> reservoir_ok now r1 \<and>
       unat now < unat (last_decay_nanos r1) + unat (decay_interval_nanos r1)) \<and>
    (\<exists>r2. reservoir_update M now x r = Inr r2 \<and> rv_value r2 = f64_add v x \<and>
       (0 \<le> x \<longrightarrow> reservoir_ok now r2) \<and>
       unat now < unat (last_decay_nanos r2) + unat (decay_interval_nanos r2))"
proof -
  obtain r' where r': "decay_if_necessary M now r = Inr r'" "reservoir_ok now r'" "rv_value r' = v"
    "v \<le> rv_value r" "decay_interval_nanos r' = decay_interval_nanos r"
    "unat now < unat (last_decay_nanos r') + unat (decay_interval_nanos r)"
    using decay_if_necessary_ok [OF assms(1-3)] unfolding v_def by auto
  have v: "0 \<le> v" using r'(2,3) by (simp add: reservoir_ok_def)
  have "reservoir_ok now (r'\<lparr>rv_value := f64_add v x\<rparr>)" if "0 \<le> x"
    using that v r'(2) by (simp add: reservoir_ok_def f64_add_def f64_round_idem f64.rnd_nonneg)
  with v r' show ?thesis by (simp add: reservoir_get_def reservoir_update_def)
qed

definition std_math :: f64_math where
  "std_math = \<lparr>f_powf = (\<lambda>x y. x), f_powi = (\<lambda>d n. f64_round (d ^ nat n))\<rparr>"

lemma std_math_ok: "math_ok std_math"
proof -
  have "0 \<le> f64_round (d ^ nat n) \<and> f64_round (d ^ nat n) \<le> 1" if "0 \<le> d" "d \<le> 1" for d n
    using that f64.rnd_1 by (auto intro!: f64.rnd_nonneg f64.rnd_le power_le_one)
  then show ?thesis by (simp add: math_ok_def std_math_def)
qed

theorem reservoir_decays_witness:
  "\<exists>v r1 r2. reservoir_get std_math 7000000000
     \<lparr>rv_value = 10, last_decay_nanos = 0, decay_interval_nanos = 3000000000\<rparr> = Inr (v, r1) \<and>
     0 \<le> v \<and> v \<le> 10 \<and>
   reservoir_update std_math 7000000000 1
     \<lparr>rv_value = 10, last_decay_nanos = 0, decay_interval_nanos = 3000000000\<rparr> = Inr r2 \<and>
     rv_value r2 = f64_add v 1"
proof -
  have "f64_round 10 = 10" using f64_round_nat [of 10] by simp
  then have "reservoir_ok 7000000000
     \<lparr>rv_value = 10, last_decay_nanos = 0, decay_interval_nanos = 3000000000\<rparr>"
    by (simp add: reservoir_ok_def)
  from reservoir_decays [OF std_math_ok this, of 1] show ?thesis by auto
qed

subsection \<open>Many threads at one reservoir\<close>

text \<open>
  The clock only moves forward; a thread starts an operation, makes one access at a time, and ends with
  the \<^verbatim>\<open>fetch_add\<close> or the \<^verbatim>\<open>load\<close> of the value. The scaling and the addition are each one atomic action
  (\<^verbatim>\<open>AtomicF64\<close>).
\<close>

datatype res_op = ResUpdate f64 | ResGet

record res_sys =
  rs_reservoir :: reservoir
  rs_clock :: u64
  rs_threads :: "nat \<rightharpoonup> res_op \<times> decay_pc"

definition res_init :: "reservoir \<Rightarrow> res_sys" where
  "res_init r = \<lparr>rs_reservoir = r, rs_clock = 0, rs_threads = Map.empty\<rparr>"

inductive res_step :: "f64_math \<Rightarrow> res_sys \<Rightarrow> res_sys \<Rightarrow> bool" for M where
  res_tick: "rs_clock \<sigma> \<le> now \<Longrightarrow> res_step M \<sigma> (\<sigma>\<lparr>rs_clock := now\<rparr>)"
| res_begin: "rs_threads \<sigma> t = None \<Longrightarrow>
    res_step M \<sigma> (\<sigma>\<lparr>rs_threads := (rs_threads \<sigma>)(t \<mapsto> (op, DecayStart))\<rparr>)"
| res_decay: "rs_threads \<sigma> t = Some (op, pc) \<Longrightarrow>
    decay_step M (rs_clock \<sigma>) pc (rs_reservoir \<sigma>) = Inr (pc', r) \<Longrightarrow>
    res_step M \<sigma> (\<sigma>\<lparr>rs_reservoir := r, rs_threads := (rs_threads \<sigma>)(t \<mapsto> (op, pc'))\<rparr>)"
| res_end: "rs_threads \<sigma> t = Some (op, DecayDone) \<Longrightarrow>
    r = (case op of ResUpdate x \<Rightarrow> (rs_reservoir \<sigma>)\<lparr>rv_value := f64_add (rv_value (rs_reservoir \<sigma>)) x\<rparr>
         | ResGet \<Rightarrow> rs_reservoir \<sigma>) \<Longrightarrow>
    res_step M \<sigma> (\<sigma>\<lparr>rs_reservoir := r, rs_threads := (rs_threads \<sigma>)(t := None)\<rparr>)"

inductive res_reachable :: "f64_math \<Rightarrow> reservoir \<Rightarrow> res_sys \<Rightarrow> bool" for M r0 where
  res_reach_init: "res_reachable M r0 (res_init r0)"
| res_reach_step: "res_reachable M r0 \<sigma> \<Longrightarrow> res_step M \<sigma> \<sigma>' \<Longrightarrow> res_reachable M r0 \<sigma>'"

definition res_panics :: "f64_math \<Rightarrow> res_sys \<Rightarrow> nat \<Rightarrow> bool" where
  "res_panics M \<sigma> t \<longleftrightarrow>
     (\<exists>op pc p. rs_threads \<sigma> t = Some (op, pc) \<and> decay_step M (rs_clock \<sigma>) pc (rs_reservoir \<sigma>) = Inl p)"

lemma decay_step_interval:
  "decay_step M clock pc r = Inr (pc', r') \<Longrightarrow> decay_interval_nanos r' = decay_interval_nanos r"
  by (cases pc) (auto simp: Let_def decay_def split: if_splits)

lemma res_reachable_interval:
  "res_reachable M r0 \<sigma> \<Longrightarrow> decay_interval_nanos (rs_reservoir \<sigma>) = decay_interval_nanos r0"
proof (induction rule: res_reachable.induct)
  case (res_reach_step \<sigma> \<sigma>')
  from res_reach_step(2,3) show ?case
    by (cases rule: res_step.cases) (auto dest: decay_step_interval split: res_op.splits)
qed (simp add: res_init_def)

lemma res_panics_iff:
  assumes "res_reachable M r0 \<sigma>" "decay_interval_nanos r0 \<noteq> 0"
  shows "res_panics M \<sigma> t \<longleftrightarrow>
    (\<exists>op now. rs_threads \<sigma> t = Some (op, DecayLoad now) \<and> now < last_decay_nanos (rs_reservoir \<sigma>))"
proof -
  have "decay_interval_nanos (rs_reservoir \<sigma>) \<noteq> 0" using res_reachable_interval [OF assms(1)] assms(2) by simp
  then have "(\<exists>p. decay_step M clock pc (rs_reservoir \<sigma>) = Inl p) \<longleftrightarrow>
      (\<exists>now. pc = DecayLoad now \<and> now < last_decay_nanos (rs_reservoir \<sigma>))" for clock pc
    by (cases pc) (auto simp: Let_def)
  then show ?thesis unfolding res_panics_def by metis
qed

lemma res_reach_decay:
  "res_reachable M r0 \<sigma> \<Longrightarrow> rs_threads \<sigma> t = Some (op, pc) \<Longrightarrow>
   decay_step M (rs_clock \<sigma>) pc (rs_reservoir \<sigma>) = Inr (pc', r) \<Longrightarrow>
   res_reachable M r0 (\<sigma>\<lparr>rs_reservoir := r, rs_threads := (rs_threads \<sigma>)(t \<mapsto> (op, pc'))\<rparr>)"
  by (blast intro: res_reach_step res_decay)

text \<open>Thread 0 reads the clock just before an interval is over, and thread 1 decays just after.\<close>

lemma res_overtaken:
  "\<exists>\<sigma>. res_reachable M (reservoir_new (from_secs 30)) \<sigma> \<and>
     rs_threads \<sigma> 0 = Some (ResGet, DecayLoad 2999999999) \<and> last_decay_nanos (rs_reservoir \<sigma>) = 3000000000"
proof -
  let ?r = "reservoir_new (from_secs 30)"
  let ?sys = "\<lambda>clock ts. \<lparr>rs_reservoir = ?r, rs_clock = clock, rs_threads = ts\<rparr>"
  have i: "decay_interval_nanos ?r = 3000000000" "last_decay_nanos ?r = 0"
    by (simp_all add: reservoir_new_def from_secs_def DECAYS_PER_HALF_LIFE_def)
  have "res_reachable M ?r (?sys 0 Map.empty)" using res_reach_init [of M ?r] by (simp add: res_init_def)
  from res_reach_step [OF this res_tick [of _ 2999999999]]
  have "res_reachable M ?r (?sys 2999999999 Map.empty)" by simp
  from res_reach_step [OF this res_begin [of _ 0 _ ResGet]]
  have "res_reachable M ?r (?sys 2999999999 [0 \<mapsto> (ResGet, DecayStart)])" by simp
  from res_reach_decay [OF this, of 0 ResGet DecayStart]
  have "res_reachable M ?r (?sys 2999999999 [0 \<mapsto> (ResGet, DecayLoad 2999999999)])" by simp
  from res_reach_step [OF this res_tick [of _ 3000000000]]
  have "res_reachable M ?r (?sys 3000000000 [0 \<mapsto> (ResGet, DecayLoad 2999999999)])" by simp
  from res_reach_step [OF this res_begin [of _ 1 _ ResGet]]
  have "res_reachable M ?r (?sys 3000000000 [0 \<mapsto> (ResGet, DecayLoad 2999999999), 1 \<mapsto> (ResGet, DecayStart)])" by simp
  from res_reach_decay [OF this, of 1 ResGet DecayStart]
  have "res_reachable M ?r (?sys 3000000000 [0 \<mapsto> (ResGet, DecayLoad 2999999999), 1 \<mapsto> (ResGet, DecayLoad 3000000000)])"
    by simp
  from res_reach_decay [OF this, of 1 ResGet "DecayLoad 3000000000"]
  have "res_reachable M ?r (?sys 3000000000 [0 \<mapsto> (ResGet, DecayLoad 2999999999), 1 \<mapsto> (ResGet, DecayExchange 0 1)])"
    by (simp add: i)
  from res_reach_decay [OF this, of 1 ResGet "DecayExchange 0 1"]
  show ?thesis by (fastforce simp: i)
qed

text \<open>C40: A reservoir shared by threads can panic, because its clock is read before \<^verbatim>\<open>last_decay_nanos\<close> is
  loaded. From a new reservoir with a half life of 30 seconds a state is reachable in which the next access
  of a thread panics, although the clock only moves forward. In every reachable state of any
  reservoir whose interval is not zero this is the only panic: it happens exactly to a thread that has read the
  clock and is about to load \<^verbatim>\<open>last_decay_nanos\<close>, when another thread has since moved that beyond the
  time read.\<close>

theorem reservoir_stale_clock_panics:
  "(\<exists>\<sigma> t. res_reachable M (reservoir_new (from_secs 30)) \<sigma> \<and> res_panics M \<sigma> t) \<and>
   (\<forall>r0 \<sigma> t. res_reachable M r0 \<sigma> \<longrightarrow> decay_interval_nanos r0 \<noteq> 0 \<longrightarrow>
      (res_panics M \<sigma> t \<longleftrightarrow>
        (\<exists>op now. rs_threads \<sigma> t = Some (op, DecayLoad now) \<and> now < last_decay_nanos (rs_reservoir \<sigma>))))"
proof -
  obtain \<sigma> where s: "res_reachable M (reservoir_new (from_secs 30)) \<sigma>"
    "rs_threads \<sigma> 0 = Some (ResGet, DecayLoad 2999999999)" "last_decay_nanos (rs_reservoir \<sigma>) = 3000000000"
    using res_overtaken by blast
  have "decay_interval_nanos (reservoir_new (from_secs 30)) \<noteq> 0"
    by (simp add: reservoir_new_def from_secs_def DECAYS_PER_HALF_LIFE_def)
  from res_panics_iff [OF s(1) this, of 0] s have "res_panics M \<sigma> 0" by simp
  with s(1) res_panics_iff show ?thesis by blast
qed

theorem reservoir_stale_clock_panics_witness:
  "\<exists>\<sigma> op now. res_reachable std_math (reservoir_new (from_secs 30)) \<sigma> \<and>
     rs_threads \<sigma> 0 = Some (op, DecayLoad now) \<and> now < last_decay_nanos (rs_reservoir \<sigma>) \<and> res_panics std_math \<sigma> 0"
proof -
  obtain \<sigma> where s: "res_reachable std_math (reservoir_new (from_secs 30)) \<sigma>"
    "rs_threads \<sigma> 0 = Some (ResGet, DecayLoad 2999999999)" "last_decay_nanos (rs_reservoir \<sigma>) = 3000000000"
    using res_overtaken by blast
  have "decay_interval_nanos (reservoir_new (from_secs 30)) \<noteq> 0"
    by (simp add: reservoir_new_def from_secs_def DECAYS_PER_HALF_LIFE_def)
  with reservoir_stale_clock_panics [THEN conjunct2, rule_format, OF s(1)] s show ?thesis by fastforce
qed

end
