(* ===== verification/BalancedSelector.thy ===== *)
theory BalancedSelector
  imports Node Reservoir "HOL-Library.Multiset"
begin

text \<open>
  \<^verbatim>\<open>service/node/selector/balanced/mod.rs\<close>: nodes scored by the requests they have in flight and
  their recent failures. The random shuffle is a parameter, as is the poll of one node's
  acquisition. Stable sorting by score is \<open>sort_key\<close>.
\<close>

definition INFLIGHT_COMPARISON_THRESHOLD :: usize where "INFLIGHT_COMPARISON_THRESHOLD = 5"
definition UNHEALTHY_SCORE_MULTIPLIER :: usize where "UNHEALTHY_SCORE_MULTIPLIER = 2"
definition FAILURE_MEMORY :: duration where "FAILURE_MEMORY = from_secs 30"
definition FAILURE_WEIGHT :: f64 where "FAILURE_WEIGHT = 10"

record tracked_node =
  tn_node :: limited_node
  tn_in_flight :: usize
  tn_recent_failures :: reservoir

record score =
  score_in_flight :: usize
  score_score :: usize

definition tracked_new :: "limited_node \<Rightarrow> tracked_node" where
  "tracked_new n =
     \<lparr>tn_node = n, tn_in_flight = 0, tn_recent_failures = reservoir_new FAILURE_MEMORY\<rparr>"

text \<open>\<^verbatim>\<open>f64::round\<close> rounds half away from zero.\<close>

definition f64_round_half :: "f64 \<Rightarrow> f64" where
  "f64_round_half x = of_int (if 0 \<le> x then \<lfloor>x + 1 / 2\<rfloor> else \<lceil>x - 1 / 2\<rceil>)"

definition node_score ::
  "f64_math \<Rightarrow> u64 \<Rightarrow> tracked_node \<Rightarrow> panic + (score \<times> tracked_node)" where
  "node_score M now t =
     and_then (reservoir_get M now (tn_recent_failures t)) (\<lambda>(v, r).
       Inr (\<lparr>score_in_flight = tn_in_flight t,
             score_score = saturating_add (tn_in_flight t) (f64_to_usize (f64_round_half v))\<rparr>,
            t\<lparr>tn_recent_failures := r\<rparr>))"

fun snapshots :: "f64_math \<Rightarrow> u64 \<Rightarrow> tracked_node list \<Rightarrow> panic + (score list \<times> tracked_node list)" where
  "snapshots M now [] = Inr ([], [])"
| "snapshots M now (t # ts) =
     and_then (node_score M now t) (\<lambda>(s, t').
     and_then (snapshots M now ts) (\<lambda>(ss, ts').
       Inr (s # ss, t' # ts')))"

text \<open>The loop that gives up on nodes whose score is far above a busy node's.\<close>

fun filter_nodes :: "usize \<Rightarrow> ('n \<times> score) list \<Rightarrow> 'n list" where
  "filter_nodes give_up_threshold [] = []"
| "filter_nodes give_up_threshold ((n, s) # rest) =
     (if score_score s > give_up_threshold then filter_nodes give_up_threshold rest
      else
        let give_up_threshold' =
              (if score_in_flight s > INFLIGHT_COMPARISON_THRESHOLD
               then saturating_mul (score_score s) UNHEALTHY_SCORE_MULTIPLIER
               else give_up_threshold)
        in n # filter_nodes give_up_threshold' rest)"

definition candidates :: "('n list \<Rightarrow> 'n list) \<Rightarrow> ('n \<times> score) list \<Rightarrow> 'n list" where
  "candidates shuffle snaps =
     shuffle (filter_nodes (- 1) (sort_key (\<lambda>(n, s). score_score s) snaps))"

fun poll_in_order :: "('n \<Rightarrow> 'w \<Rightarrow> 'p poll \<times> 'w) \<Rightarrow> 'n list \<Rightarrow> 'w \<Rightarrow> ('n \<times> 'p) poll \<times> 'w" where
  "poll_in_order poll [] w = (Pending, w)"
| "poll_in_order poll (n # ns) w =
     (case poll n w of
        (Ready p, w') \<Rightarrow> (Ready (n, p), w')
      | (Pending, w') \<Rightarrow> poll_in_order poll ns w')"

definition balanced_acquire_poll ::
  "('n \<Rightarrow> 'w \<Rightarrow> 'p poll \<times> 'w) \<Rightarrow> ('n \<Rightarrow> score) \<Rightarrow> 'n list \<Rightarrow> 'w \<Rightarrow> ('n \<times> 'p) poll \<times> 'w" where
  "balanced_acquire_poll poll sc ns w =
     poll_in_order poll (sort_key (\<lambda>n. score_score (sc n)) ns) w"

definition record_failure ::
  "http_api \<Rightarrow> f64_math \<Rightarrow> u64 \<Rightarrow> 'e + status \<Rightarrow> tracked_node \<Rightarrow> panic + tracked_node" where
  "record_failure H M now r t =
     (let upd = (\<lambda>x. and_then (reservoir_update M now x (tn_recent_failures t)) (\<lambda>rv.
                   Inr (t\<lparr>tn_recent_failures := rv\<rparr>)))
      in case r of
           Inr s \<Rightarrow>
             (if is_server_error H s then upd FAILURE_WEIGHT
              else if is_client_error H s then upd (f64_div FAILURE_WEIGHT 100)
              else Inr t)
         | Inl _ \<Rightarrow> upd FAILURE_WEIGHT)"

definition balanced_enter :: "tracked_node \<Rightarrow> tracked_node" where
  "balanced_enter t = t\<lparr>tn_in_flight := tn_in_flight t + 1\<rparr>"

definition in_flight_guard_drop :: "tracked_node \<Rightarrow> tracked_node" where
  "in_flight_guard_drop t = t\<lparr>tn_in_flight := tn_in_flight t - 1\<rparr>"

definition balanced_call ::
  "http_api \<Rightarrow> f64_math \<Rightarrow> ('w \<Rightarrow> u64) \<Rightarrow>
   (limited_node \<Rightarrow> 'w \<Rightarrow> ('e + ('h, 'b) response) \<times> limited_node \<times> 'w) \<Rightarrow>
   tracked_node \<Rightarrow> 'w \<Rightarrow> panic + (('e + ('h, 'b) response) \<times> tracked_node \<times> 'w)" where
  "balanced_call H M now wrap t w =
     (let t1 = balanced_enter t;
          (r, n, w') = wrap (tn_node t1) w
      in and_then (record_failure H M (now w') (result_status r) (t1\<lparr>tn_node := n\<rparr>)) (\<lambda>t2.
           Inr (r, in_flight_guard_drop t2, w')))"

subsection \<open>Which nodes are tried\<close>

lemma filter_nodes_above:
  "(\<And>n s. (n, s) \<in> set ss \<Longrightarrow> t < score_score s) \<Longrightarrow> filter_nodes t ss = []"
  by (induction t ss rule: filter_nodes.induct) auto

lemma filter_nodes_prefix:
  assumes "sorted (map (\<lambda>(n, s). score_score s) ss)"
  shows "\<exists>k \<le> length ss. filter_nodes t ss = map fst (take k ss) \<and>
    (\<forall>(n, s) \<in> set (drop k ss).
       t < score_score s \<or>
       (\<exists>(m, u) \<in> set (take k ss). score_in_flight u > INFLIGHT_COMPARISON_THRESHOLD \<and>
          saturating_mul (score_score u) UNHEALTHY_SCORE_MULTIPLIER < score_score s))"
  using assms
proof (induction t ss rule: filter_nodes.induct)
  case (2 t n s rest)
  show ?case
  proof (cases "score_score s > t")
    case True
    have above: "t < score_score u" if "(m, u) \<in> set ((n, s) # rest)" for m u
      using that True 2(3) by (fastforce dest: less_le_trans)
    then have "filter_nodes t ((n, s) # rest) = []" by (rule filter_nodes_above)
    with above show ?thesis by (intro exI [of _ 0]) auto
  next
    case False
    let ?t = "if score_in_flight s > INFLIGHT_COMPARISON_THRESHOLD
               then saturating_mul (score_score s) UNHEALTHY_SCORE_MULTIPLIER else t"
    from 2(2) [OF False refl] 2(3) obtain k where k: "k \<le> length rest"
      "filter_nodes ?t rest = map fst (take k rest)"
      "\<forall>(n, s) \<in> set (drop k rest).
         ?t < score_score s \<or>
         (\<exists>(m, u) \<in> set (take k rest). score_in_flight u > INFLIGHT_COMPARISON_THRESHOLD \<and>
            saturating_mul (score_score u) UNHEALTHY_SCORE_MULTIPLIER < score_score s)"
      by auto
    then show ?thesis using False
      by (intro exI [of _ "Suc k"]) (auto simp: Let_def split: if_splits)
  qed
qed simp

lemma filter_nodes_nonempty: "ss \<noteq> [] \<Longrightarrow> filter_nodes (- 1) ss \<noteq> []"
proof (cases ss)
  case (Cons a rest)
  have "\<not> (- 1 :: usize) < score_score (snd a)" by (simp add: not_less)
  with Cons show ?thesis by (cases a) (simp add: Let_def)
qed simp

lemma sorted_map_split:
  "sorted (map f (xs @ ys)) \<Longrightarrow> x \<in> set xs \<Longrightarrow> y \<in> set ys \<Longrightarrow> f x \<le> f y"
  by (auto simp: sorted_append)

text \<open>C31: The balanced selector never gives up on every node, and skips a node only when its score
  is more than twice that of a busier node it keeps: the candidates are a rearrangement of the best
  scoring nodes, at least one, and whatever is left out scores above the doubled score of some
  candidate with more than five requests in flight.\<close>

theorem balanced_candidates:
  assumes "\<And>xs. mset (shuffle xs) = mset xs" "snaps \<noteq> []"
  shows "\<exists>kept dropped. mset (candidates shuffle snaps) = image_mset fst (mset kept) \<and>
    mset kept + mset dropped = mset snaps \<and> kept \<noteq> [] \<and>
    (\<forall>x \<in> set kept. \<forall>y \<in> set dropped. score_score (snd x) \<le> score_score (snd y)) \<and>
    (\<forall>(n, s) \<in> set dropped. \<exists>(m, u) \<in> set kept.
       score_in_flight u > 5 \<and> saturating_mul (score_score u) 2 < score_score s)"
proof -
  let ?ss = "sort_key (\<lambda>(n, s). score_score s) snaps"
  have s: "sorted (map (\<lambda>(n, s). score_score s) ?ss)" by simp
  obtain k where k: "k \<le> length ?ss" "filter_nodes (- 1) ?ss = map fst (take k ?ss)"
    "\<forall>(n, s) \<in> set (drop k ?ss).
       (- 1 :: usize) < score_score s \<or>
       (\<exists>(m, u) \<in> set (take k ?ss). score_in_flight u > INFLIGHT_COMPARISON_THRESHOLD \<and>
          saturating_mul (score_score u) UNHEALTHY_SCORE_MULTIPLIER < score_score s)"
    using filter_nodes_prefix [OF s] by blast
  have top: "\<not> (- 1 :: usize) < x" for x by (simp add: not_less)
  have "?ss \<noteq> []" using assms(2) by (metis length_0_conv length_sort)
  then have "take k ?ss \<noteq> []" using filter_nodes_nonempty [of ?ss] k(2) by auto
  moreover have "mset (take k ?ss) + mset (drop k ?ss) = mset snaps"
    by (metis append_take_drop_id mset_append mset_sort)
  moreover have "score_score (snd x) \<le> score_score (snd y)"
    if "x \<in> set (take k ?ss)" "y \<in> set (drop k ?ss)" for x y
  proof -
    have "sorted (map (\<lambda>(n, s). score_score s) (take k ?ss @ drop k ?ss))" using s by simp
    from sorted_map_split [OF this that] show ?thesis by (simp add: case_prod_unfold)
  qed
  moreover have "\<forall>(n, s) \<in> set (drop k ?ss). \<exists>(m, u) \<in> set (take k ?ss).
       score_in_flight u > 5 \<and> saturating_mul (score_score u) 2 < score_score s"
    using k(3) top by (simp add: INFLIGHT_COMPARISON_THRESHOLD_def UNHEALTHY_SCORE_MULTIPLIER_def)
  ultimately show ?thesis
    using assms(1) k(2) by (intro exI [of _ "take k ?ss"] exI [of _ "drop k ?ss"])
      (auto simp: candidates_def)
qed

theorem balanced_candidates_witness:
  "\<exists>kept dropped. mset (candidates rev
       [(0 :: nat, \<lparr>score_in_flight = 6, score_score = 6\<rparr>), (1, \<lparr>score_in_flight = 0, score_score = 13\<rparr>)]) =
     image_mset fst (mset kept) \<and> kept \<noteq> [] \<and>
     mset kept + mset dropped =
       mset [(0, \<lparr>score_in_flight = 6, score_score = 6\<rparr>), (1, \<lparr>score_in_flight = 0, score_score = 13\<rparr>)]"
  using balanced_candidates [of rev
      "[(0 :: nat, \<lparr>score_in_flight = 6, score_score = 6\<rparr>), (1, \<lparr>score_in_flight = 0, score_score = 13\<rparr>)]"]
  by (simp only: mset_rev) blast

subsection \<open>Which node is taken\<close>

fun poll_all :: "('n \<Rightarrow> 'w \<Rightarrow> 'p poll \<times> 'w) \<Rightarrow> 'n list \<Rightarrow> 'w \<Rightarrow> 'w option" where
  "poll_all poll [] w = Some w"
| "poll_all poll (n # ns) w =
     (case poll n w of (Pending, w') \<Rightarrow> poll_all poll ns w' | (Ready _, _) \<Rightarrow> None)"

lemma poll_in_order_Ready:
  "poll_in_order poll ns w = (Ready (n, p), w') \<Longrightarrow>
     \<exists>xs ys w1. ns = xs @ n # ys \<and> poll_all poll xs w = Some w1 \<and> poll n w1 = (Ready p, w')"
proof (induction poll ns w rule: poll_in_order.induct)
  case (2 poll m ns w)
  show ?case
  proof (cases "poll m w")
    case (Pair r w1)
    show ?thesis
    proof (cases r)
      case (Ready q)
      with 2(2) Pair show ?thesis
        by (intro exI [of _ "[]"] exI [of _ ns] exI [of _ w]) simp
    next
      case Pending
      with 2 Pair obtain xs ys w2 where "ns = xs @ n # ys" "poll_all poll xs w1 = Some w2"
        "poll n w2 = (Ready p, w')" by auto
      with Pending Pair show ?thesis
        by (intro exI [of _ "m # xs"] exI [of _ ys] exI [of _ w2]) simp
    qed
  qed
qed simp

text \<open>The balanced selector takes the best node that has a free permit: when polling the
  candidates yields a node, every candidate with a better score was polled before it and had to
  wait, in the order of the scores.\<close>

theorem balanced_takes_best:
  assumes "balanced_acquire_poll poll sc ns w = (Ready (n, p), w')"
  shows "\<exists>xs ys w1. mset ns = mset (xs @ n # ys) \<and> poll_all poll xs w = Some w1 \<and>
    poll n w1 = (Ready p, w') \<and>
    (\<forall>m \<in> set xs. score_score (sc m) \<le> score_score (sc n)) \<and>
    (\<forall>m \<in> set ys. score_score (sc n) \<le> score_score (sc m))"
proof -
  let ?ns = "sort_key (\<lambda>n. score_score (sc n)) ns"
  obtain xs ys w1 where s: "?ns = xs @ n # ys" "poll_all poll xs w = Some w1"
    "poll n w1 = (Ready p, w')"
    using poll_in_order_Ready assms unfolding balanced_acquire_poll_def by metis
  have "sorted (map (\<lambda>n. score_score (sc n)) (xs @ n # ys))" using s(1) sorted_sort_key by metis
  moreover have "mset ns = mset (xs @ n # ys)" using s(1) by (metis mset_sort)
  ultimately show ?thesis using s
    by (intro exI [of _ xs] exI [of _ ys] exI [of _ w1]) (simp add: sorted_append)
qed

theorem balanced_takes_best_witness:
  "\<exists>xs ys w1. mset [1, 2 :: nat] = mset (xs @ 2 # ys) \<and>
     poll_all (\<lambda>n (w :: nat). (if n = 2 then Ready () else Pending, w + 1)) xs 0 = Some w1"
proof -
  have "balanced_acquire_poll (\<lambda>n (w :: nat). (if n = 2 then Ready () else Pending, w + 1))
      (\<lambda>n. \<lparr>score_in_flight = 0, score_score = of_nat n\<rparr>) [1, 2 :: nat] 0 = (Ready (2, ()), 2)"
    by (simp add: balanced_acquire_poll_def)
  from balanced_takes_best [OF this] show ?thesis by blast
qed

lemma record_failure_frame:
  assumes "record_failure H M now r t = Inr t'"
  shows "tn_in_flight t' = tn_in_flight t" "tn_node t' = tn_node t"
  using assms by (auto simp: record_failure_def and_then_Inr_iff Let_def split: sum.splits if_splits)

lemma record_failure_low:
  "http_ok H \<Longrightarrow> s < 400 \<Longrightarrow> record_failure H M now (Inr s) t = Inr t"
  by (simp add: record_failure_def http_ok_def)

lemma record_failure_error:
  "record_failure H M now (Inl e) t = Inr t' \<Longrightarrow>
     reservoir_update M now FAILURE_WEIGHT (tn_recent_failures t) = Inr (tn_recent_failures t')"
  by (auto simp: record_failure_def and_then_Inr_iff)

text \<open>Requests in flight are counted exactly: a call that returns leaves the node's count as it
  was, returns the inner result unchanged, and adds the failure weight for a 5xx or a transport
  error only.\<close>

theorem balanced_call_counts:
  assumes "balanced_call H M now wrap t w = Inr (r, t', w')" "http_ok H"
  shows "tn_in_flight t' = tn_in_flight t \<and>
    (\<exists>n. wrap (tn_node t) w = (r, n, w') \<and> tn_node t' = n) \<and>
    (\<forall>resp. r = Inr resp \<longrightarrow> rs_status resp < 400 \<longrightarrow>
       tn_recent_failures t' = tn_recent_failures t) \<and>
    (\<forall>e. r = Inl e \<longrightarrow>
       reservoir_update M (now w') FAILURE_WEIGHT (tn_recent_failures t) = Inr (tn_recent_failures t'))"
proof -
  obtain r0 n w0 where wr: "wrap (tn_node t) w = (r0, n, w0)" by (metis prod_cases3)
  let ?t = "t\<lparr>tn_in_flight := tn_in_flight t + 1, tn_node := n\<rparr>"
  from assms(1) wr obtain t2 where t2: "record_failure H M (now w') (result_status r) ?t = Inr t2"
    and eq: "r = r0" "w' = w0" "t' = in_flight_guard_drop t2"
    by (auto simp: balanced_call_def balanced_enter_def and_then_Inr_iff)
  note frame = record_failure_frame [OF t2]
  have "tn_recent_failures t' = tn_recent_failures t" if "r = Inr resp" "rs_status resp < 400" for resp
    using that t2 eq(3)
    by (auto simp: result_status_def in_flight_guard_drop_def record_failure_low [OF assms(2)])
  moreover have "reservoir_update M (now w') FAILURE_WEIGHT (tn_recent_failures t) =
      Inr (tn_recent_failures t')" if "r = Inl e" for e
    using that t2 record_failure_error [of H M "now w'" e ?t t2] eq(3)
    by (simp add: result_status_def in_flight_guard_drop_def)
  ultimately show ?thesis
    using frame wr eq by (auto simp: in_flight_guard_drop_def)
qed

theorem balanced_call_counts_witness:
  "\<exists>t'. balanced_call std_http std_math (\<lambda>w. 0)
     (\<lambda>n (w :: nat). (Inr \<lparr>rs_status = 200, rs_headers = (), rs_body = ()\<rparr> :: unit + (unit, unit) response, n, w))
     (tracked_new demo_node) 0 = Inr (Inr \<lparr>rs_status = 200, rs_headers = (), rs_body = ()\<rparr>, t', 0) \<and>
   tn_in_flight t' = 0"
proof -
  let ?wrap = "\<lambda>n (w :: nat). (Inr \<lparr>rs_status = 200, rs_headers = (), rs_body = ()\<rparr> ::
     unit + (unit, unit) response, n, w)"
  obtain t' where *: "balanced_call std_http std_math (\<lambda>w. 0) ?wrap (tracked_new demo_node) 0 =
      Inr (Inr \<lparr>rs_status = 200, rs_headers = (), rs_body = ()\<rparr>, t', 0)"
    by (simp add: balanced_call_def record_failure_def result_status_def std_http_def)
  from balanced_call_counts [OF * std_http_ok] * show ?thesis by (auto simp: tracked_new_def)
qed

end
