(* ===== verification/BalancedSystem.thy ===== *)
theory BalancedSystem
  imports BalancedSelector
begin

text \<open>
  Many requests at once at the balanced selector of \<^verbatim>\<open>service/node/selector/balanced/mod.rs\<close>. A request
  scores the nodes and keeps its candidates, enters the node whose permit it got first, and leaves
  it when its call returns, when the update of the failures panics, or when it is cancelled; the
  guard's drop is run in each case. The requests' steps interleave in any order, and each step is
  the corresponding operation of \<open>BalancedSelector\<close>.
\<close>

datatype bal_task = BalIdle | BalAcquiring "nat list" | BalFlight nat | BalRecorded nat | BalOver

record bal_sys =
  bal_nodes :: "tracked_node list"
  bal_tasks :: "nat \<Rightarrow> bal_task"

definition bal_new :: "limited_node list \<Rightarrow> bal_sys" where
  "bal_new ns = \<lparr>bal_nodes = map tracked_new ns, bal_tasks = (\<lambda>_. BalIdle)\<rparr>"

definition bal_set :: "nat \<Rightarrow> bal_task \<Rightarrow> tracked_node list \<Rightarrow> bal_sys \<Rightarrow> bal_sys" where
  "bal_set t b ns \<sigma> = \<lparr>bal_nodes = ns, bal_tasks = (bal_tasks \<sigma>)(t := b)\<rparr>"

inductive bal_step ::
  "http_api \<Rightarrow> f64_math \<Rightarrow> (nat list \<Rightarrow> nat list) \<Rightarrow> bal_sys \<Rightarrow> bal_sys \<Rightarrow> bool" for H M shuffle where
  bal_score: "bal_tasks \<sigma> t = BalIdle \<Longrightarrow> snapshots M now (bal_nodes \<sigma>) = Inr (ss, ns) \<Longrightarrow>
    bal_step H M shuffle \<sigma> (bal_set t (BalAcquiring (candidates shuffle (zip [0..<length ns] ss))) ns \<sigma>)"
| bal_rescore: "bal_tasks \<sigma> t = BalAcquiring cs \<Longrightarrow> i \<in> set cs \<Longrightarrow> node_score M now (bal_nodes \<sigma> ! i) = Inr (s, n) \<Longrightarrow>
    bal_step H M shuffle \<sigma> (bal_set t (BalAcquiring cs) ((bal_nodes \<sigma>)[i := n]) \<sigma>)"
| bal_enter: "bal_tasks \<sigma> t = BalAcquiring cs \<Longrightarrow> i \<in> set cs \<Longrightarrow>
    bal_step H M shuffle \<sigma> (bal_set t (BalFlight i) ((bal_nodes \<sigma>)[i := balanced_enter (bal_nodes \<sigma> ! i)]) \<sigma>)"
| bal_record: "bal_tasks \<sigma> t = BalFlight i \<Longrightarrow> record_failure H M now (r :: unit + status) (bal_nodes \<sigma> ! i) = Inr n \<Longrightarrow>
    bal_step H M shuffle \<sigma> (bal_set t (BalRecorded i) ((bal_nodes \<sigma>)[i := n]) \<sigma>)"
| bal_panic: "bal_tasks \<sigma> t = BalFlight i \<Longrightarrow> record_failure H M now (r :: unit + status) (bal_nodes \<sigma> ! i) = Inl p \<Longrightarrow>
    bal_step H M shuffle \<sigma> (bal_set t BalOver ((bal_nodes \<sigma>)[i := in_flight_guard_drop (bal_nodes \<sigma> ! i)]) \<sigma>)"
| bal_return: "bal_tasks \<sigma> t = BalRecorded i \<Longrightarrow>
    bal_step H M shuffle \<sigma> (bal_set t BalOver ((bal_nodes \<sigma>)[i := in_flight_guard_drop (bal_nodes \<sigma> ! i)]) \<sigma>)"
| bal_cancel_acquiring: "bal_tasks \<sigma> t = BalAcquiring cs \<Longrightarrow>
    bal_step H M shuffle \<sigma> (bal_set t BalOver (bal_nodes \<sigma>) \<sigma>)"
| bal_cancel_flight: "bal_tasks \<sigma> t = BalFlight i \<Longrightarrow>
    bal_step H M shuffle \<sigma> (bal_set t BalOver ((bal_nodes \<sigma>)[i := in_flight_guard_drop (bal_nodes \<sigma> ! i)]) \<sigma>)"

inductive bal_reach ::
  "http_api \<Rightarrow> f64_math \<Rightarrow> (nat list \<Rightarrow> nat list) \<Rightarrow> limited_node list \<Rightarrow> bal_sys \<Rightarrow> bool"
  for H M shuffle ns where
  bal_start: "bal_reach H M shuffle ns (bal_new ns)"
| bal_more: "bal_reach H M shuffle ns \<sigma> \<Longrightarrow> bal_step H M shuffle \<sigma> \<sigma>' \<Longrightarrow> bal_reach H M shuffle ns \<sigma>'"

subsection \<open>What a step does to the counts\<close>

fun on_node :: "nat \<Rightarrow> bal_task \<Rightarrow> bool" where
  "on_node i (BalFlight j) \<longleftrightarrow> i = j"
| "on_node i (BalRecorded j) \<longleftrightarrow> i = j"
| "on_node i _ \<longleftrightarrow> False"

fun in_range :: "nat \<Rightarrow> bal_task \<Rightarrow> bool" where
  "in_range n (BalFlight j) \<longleftrightarrow> j < n"
| "in_range n (BalRecorded j) \<longleftrightarrow> j < n"
| "in_range n (BalAcquiring cs) \<longleftrightarrow> (\<forall>i \<in> set cs. i < n)"
| "in_range n _ \<longleftrightarrow> True"

definition at_node :: "bal_sys \<Rightarrow> nat \<Rightarrow> nat set" where
  "at_node \<sigma> i = {t. on_node i (bal_tasks \<sigma> t)}"

definition bal_inv :: "limited_node list \<Rightarrow> bal_sys \<Rightarrow> bool" where
  "bal_inv ns \<sigma> \<longleftrightarrow>
     length (bal_nodes \<sigma>) = length ns \<and> finite {t. bal_tasks \<sigma> t \<noteq> BalIdle} \<and>
     (\<forall>t. in_range (length ns) (bal_tasks \<sigma> t)) \<and>
     (\<forall>i < length ns. tn_node (bal_nodes \<sigma> ! i) = ns ! i \<and>
        tn_in_flight (bal_nodes \<sigma> ! i) = of_nat (card (at_node \<sigma> i)))"

lemma at_node_set:
  "at_node (bal_set t b ns \<sigma>) i = (if on_node i b then insert t (at_node \<sigma> i - {t}) else at_node \<sigma> i - {t})"
  by (auto simp: at_node_def bal_set_def)

lemma at_node_finite: "bal_inv ns \<sigma> \<Longrightarrow> finite (at_node \<sigma> i)"
proof -
  assume "bal_inv ns \<sigma>"
  moreover have "at_node \<sigma> i \<subseteq> {t. bal_tasks \<sigma> t \<noteq> BalIdle}" by (auto simp: at_node_def)
  ultimately show ?thesis by (auto simp: bal_inv_def intro: finite_subset)
qed

text \<open>The weight of a task at a node, as it enters the node's counter.\<close>

definition weight_at :: "nat \<Rightarrow> bal_task \<Rightarrow> usize" where
  "weight_at i b = (if on_node i b then 1 else 0)"

lemma card_at_node_set:
  assumes "finite (at_node \<sigma> i)"
  shows "of_nat (card (at_node (bal_set t b ns \<sigma>) i)) =
    of_nat (card (at_node \<sigma> i)) + weight_at i b - weight_at i (bal_tasks \<sigma> t)"
proof (cases "t \<in> at_node \<sigma> i")
  case True
  then have w: "weight_at i (bal_tasks \<sigma> t) = 1" by (simp add: weight_at_def at_node_def)
  have "card (at_node \<sigma> i) = Suc (card (at_node \<sigma> i - {t}))" using assms True by (metis card.remove)
  then show ?thesis using assms w by (simp add: at_node_set weight_at_def card.insert_remove)
next
  case False
  then have "weight_at i (bal_tasks \<sigma> t) = 0" by (simp add: weight_at_def at_node_def)
  then show ?thesis using assms False by (simp add: at_node_set weight_at_def)
qed

lemma bal_set_inv:
  assumes inv: "bal_inv ns \<sigma>" and len: "length ms = length ns" and rng: "in_range (length ns) b"
    and upd: "\<And>i. i < length ns \<Longrightarrow> tn_node (ms ! i) = tn_node (bal_nodes \<sigma> ! i) \<and>
      tn_in_flight (ms ! i) = tn_in_flight (bal_nodes \<sigma> ! i) + weight_at i b - weight_at i (bal_tasks \<sigma> t)"
  shows "bal_inv ns (bal_set t b ms \<sigma>)"
proof -
  have "{s. bal_tasks (bal_set t b ms \<sigma>) s \<noteq> BalIdle} \<subseteq> insert t {s. bal_tasks \<sigma> s \<noteq> BalIdle}"
    by (auto simp: bal_set_def)
  then have "finite {s. bal_tasks (bal_set t b ms \<sigma>) s \<noteq> BalIdle}"
    using inv by (auto simp: bal_inv_def intro: finite_subset)
  moreover have "tn_node (ms ! i) = ns ! i \<and> tn_in_flight (ms ! i) = of_nat (card (at_node (bal_set t b ms \<sigma>) i))"
    if "i < length ns" for i
    using upd [OF that] inv that card_at_node_set [OF at_node_finite [OF inv, of i], of t b ms]
    by (simp add: bal_inv_def)
  ultimately show ?thesis using inv len rng by (simp add: bal_inv_def bal_set_def)
qed

lemma guard_drop_inv:
  assumes "bal_inv ns \<sigma>" "bal_tasks \<sigma> t = BalFlight i \<or> bal_tasks \<sigma> t = BalRecorded i"
  shows "bal_inv ns (bal_set t BalOver ((bal_nodes \<sigma>)[i := in_flight_guard_drop (bal_nodes \<sigma> ! i)]) \<sigma>)"
proof -
  have "length (bal_nodes \<sigma>) = length ns" "in_range (length ns) (bal_tasks \<sigma> t)"
    using assms(1) by (auto simp: bal_inv_def)
  with assms show ?thesis
    by (intro bal_set_inv) (auto simp: nth_list_update weight_at_def in_flight_guard_drop_def)
qed

lemma node_score_frame:
  "node_score M now t = Inr (s, t') \<Longrightarrow>
     tn_node t' = tn_node t \<and> tn_in_flight t' = tn_in_flight t \<and> score_in_flight s = tn_in_flight t"
  by (auto simp: node_score_def and_then_Inr_iff)

lemma snapshots_frame:
  assumes "snapshots M now ts = Inr (ss, ts')"
  shows "length ss = length ts \<and> length ts' = length ts \<and> (\<forall>i < length ts.
    tn_node (ts' ! i) = tn_node (ts ! i) \<and> tn_in_flight (ts' ! i) = tn_in_flight (ts ! i) \<and>
    score_in_flight (ss ! i) = tn_in_flight (ts ! i))"
  using assms
proof (induction ts arbitrary: ss ts')
  case (Cons t ts)
  then obtain s t' us us' where s: "node_score M now t = Inr (s, t')" "snapshots M now ts = Inr (us, us')"
    and eq: "ss = s # us" "ts' = t' # us'" by (auto simp: and_then_Inr_iff)
  from Cons.IH [OF s(2)] node_score_frame [OF s(1)] show ?case
    by (auto simp: eq nth_Cons split: nat.splits)
qed simp

lemma filter_nodes_subset: "set (filter_nodes t ss) \<subseteq> fst ` set ss"
  by (induction t ss rule: filter_nodes.induct) (force simp: Let_def split: if_splits)+

lemma candidates_subset:
  assumes "\<And>xs. mset (shuffle xs) = mset xs"
  shows "set (candidates shuffle snaps) \<subseteq> fst ` set snaps"
  using filter_nodes_subset [of "- 1" "sort_key (\<lambda>(n, s). score_score s) snaps"] mset_eq_setD [OF assms]
  by (simp add: candidates_def)

lemma bal_step_inv:
  assumes sh: "\<And>xs. mset (shuffle xs) = mset xs" and st: "bal_step H M shuffle \<sigma> \<sigma>'" and inv: "bal_inv ns \<sigma>"
  shows "bal_inv ns \<sigma>'"
proof -
  have len: "length (bal_nodes \<sigma>) = length ns" and rng: "\<And>t. in_range (length ns) (bal_tasks \<sigma> t)"
    using inv by (auto simp: bal_inv_def)
  note [simp] = weight_at_def nth_list_update balanced_enter_def in_flight_guard_drop_def
  show ?thesis
    using st
  proof cases
    case (bal_score t now ss ms)
    from snapshots_frame [OF bal_score(3)] len
    have f: "length ms = length ns" "length ss = length ns" "\<forall>i < length ns.
      tn_node (ms ! i) = tn_node (bal_nodes \<sigma> ! i) \<and> tn_in_flight (ms ! i) = tn_in_flight (bal_nodes \<sigma> ! i)"
      by auto
    have "in_range (length ns) (BalAcquiring (candidates shuffle (zip [0..<length ms] ss)))"
      using subsetD [OF candidates_subset [OF sh]] f(1) by (fastforce dest: set_zip_leftD)
    then show ?thesis using f bal_score by (auto intro!: bal_set_inv [OF inv])
  next
    case (bal_rescore t cs i now s n)
    with rng [of t] show ?thesis
      by (auto intro!: bal_set_inv [OF inv] simp: len dest!: node_score_frame)
  next
    case (bal_enter t cs i)
    with rng [of t] show ?thesis by (auto intro!: bal_set_inv [OF inv] simp: len)
  next
    case (bal_record t i now r n)
    with rng [of t] show ?thesis
      by (auto intro!: bal_set_inv [OF inv] simp: len record_failure_frame [OF bal_record(3)])
  next
    case (bal_panic t i now r p)
    with guard_drop_inv [OF inv] show ?thesis by simp
  next
    case (bal_return t i)
    with guard_drop_inv [OF inv] show ?thesis by simp
  next
    case (bal_cancel_acquiring t cs)
    then show ?thesis by (auto intro!: bal_set_inv [OF inv] simp: len)
  next
    case (bal_cancel_flight t i)
    with guard_drop_inv [OF inv] show ?thesis by simp
  qed
qed

lemma bal_reach_inv:
  assumes "bal_reach H M shuffle ns \<sigma>" "\<And>xs. mset (shuffle xs) = mset xs"
  shows "bal_inv ns \<sigma>"
  using assms(1)
proof induction
  case bal_start
  show ?case by (simp add: bal_inv_def bal_new_def at_node_def tracked_new_def)
qed (rule bal_step_inv [OF assms(2)])

lemma filter_nodes_all:
  assumes "\<And>n s. (n, s) \<in> set ss \<Longrightarrow> score_in_flight s \<le> INFLIGHT_COMPARISON_THRESHOLD"
  shows "filter_nodes (- 1) ss = map fst ss"
  using assms
proof (induction ss)
  case (Cons x ss)
  have "\<not> (- 1 :: usize) < score_score (snd x)" by (simp add: not_less)
  moreover have "\<not> INFLIGHT_COMPARISON_THRESHOLD < score_in_flight (snd x)"
    using Cons.prems [of "fst x" "snd x"] by (simp add: not_less)
  ultimately show ?case using Cons by (cases x) (auto simp: Let_def)
qed simp

lemma at_most_five:
  assumes "bal_inv ns \<sigma>" "i < length ns" "card (at_node \<sigma> i) \<le> 5"
  shows "tn_in_flight (bal_nodes \<sigma> ! i) \<le> INFLIGHT_COMPARISON_THRESHOLD"
proof -
  have "unat (of_nat (card (at_node \<sigma> i)) :: usize) \<le> 5"
    using assms(3) by (simp add: unsigned_of_nat take_bit_nat_eq_self)
  then show ?thesis using assms by (simp add: bal_inv_def INFLIGHT_COMPARISON_THRESHOLD_def word_le_nat_alt)
qed

text \<open>C32: The balanced selector's counts are exact under any interleaving: at every moment the counter
  of a node is the number of requests that have entered it and not left, whether they return, panic
  while the failure is recorded, or are cancelled at any await; so when no request is under way every
  counter is zero. While no node has more than five requests in flight, every node is a candidate of
  the next request, whatever failures are remembered.\<close>

theorem balanced_in_flight_exact:
  assumes "bal_reach H M shuffle ns \<sigma>" "\<And>xs. mset (shuffle xs) = mset xs"
  shows "length (bal_nodes \<sigma>) = length ns \<and>
    (\<forall>i < length ns. tn_node (bal_nodes \<sigma> ! i) = ns ! i \<and> finite (at_node \<sigma> i) \<and>
       tn_in_flight (bal_nodes \<sigma> ! i) = of_nat (card (at_node \<sigma> i))) \<and>
    ((\<forall>t. bal_tasks \<sigma> t = BalIdle \<or> bal_tasks \<sigma> t = BalOver) \<longrightarrow>
       (\<forall>i < length ns. tn_in_flight (bal_nodes \<sigma> ! i) = 0)) \<and>
    (\<forall>now ss ms. snapshots M now (bal_nodes \<sigma>) = Inr (ss, ms) \<longrightarrow>
       (\<forall>i < length ns. card (at_node \<sigma> i) \<le> 5) \<longrightarrow>
       mset (candidates shuffle (zip [0..<length ms] ss)) = mset [0..<length ns])"
proof -
  have inv: "bal_inv ns \<sigma>" using bal_reach_inv assms by blast
  have "tn_in_flight (bal_nodes \<sigma> ! i) = 0"
    if h: "\<forall>t. bal_tasks \<sigma> t = BalIdle \<or> bal_tasks \<sigma> t = BalOver" "i < length ns" for i
  proof -
    have "\<not> on_node i (bal_tasks \<sigma> t)" for t using h(1) [rule_format, of t] by auto
    then show ?thesis using inv h(2) by (simp add: bal_inv_def at_node_def)
  qed
  moreover have "mset (candidates shuffle (zip [0..<length ms] ss)) = mset [0..<length ns]"
    if h: "snapshots M now (bal_nodes \<sigma>) = Inr (ss, ms)" "\<forall>i < length ns. card (at_node \<sigma> i) \<le> 5" for now ss ms
  proof -
    have len: "length ss = length ns" "length ms = length ns"
      using snapshots_frame [OF h(1)] inv by (auto simp: bal_inv_def)
    let ?z = "zip [0..<length ms] ss"
    have low: "score_in_flight s \<le> INFLIGHT_COMPARISON_THRESHOLD" if "(n, s) \<in> set ?z" for n s
      using that len snapshots_frame [OF h(1)] at_most_five [OF inv] h(2) by (auto simp: set_zip)
    then have "filter_nodes (- 1) (sort_key (\<lambda>(n, s). score_score s) ?z) =
        map fst (sort_key (\<lambda>(n, s). score_score s) ?z)"
      by (intro filter_nodes_all) (metis low set_sort)
    then have "mset (candidates shuffle ?z) = image_mset fst (mset ?z)"
      using assms(2) by (simp add: candidates_def)
    also have "\<dots> = mset (map fst ?z)" by simp
    also have "map fst ?z = [0..<length ns]" using len by simp
    finally show ?thesis .
  qed
  ultimately show ?thesis using inv at_node_finite [OF inv] by (simp add: bal_inv_def)
qed

theorem balanced_in_flight_exact_witness:
  "\<exists>\<sigma>. bal_reach std_http std_math rev [demo_node] \<sigma> \<and> at_node \<sigma> 0 = {7} \<and> tn_in_flight (bal_nodes \<sigma> ! 0) = 1"
proof -
  let ?R = "bal_reach std_http std_math rev [demo_node]"
  let ?s = "\<lparr>score_in_flight = 0, score_score = 0\<rparr>"
  have int: "(of_nat (from_secs 30) :: u64) div 10 \<noteq> 0" by (simp add: from_secs_def)
  have half: "\<lfloor>1 / 2 :: rat\<rfloor> = 0" by (simp add: floor_eq_iff)
  have "node_score std_math 0 (tracked_new demo_node) = Inr (?s, tracked_new demo_node)"
    using int half by (simp add: node_score_def tracked_new_def reservoir_get_def reservoir_new_def
      decay_if_necessary_eq DECAYS_PER_HALF_LIFE_def FAILURE_MEMORY_def f64_round_half_def
      f64_to_usize_def saturating_add_def)
  then have sn: "snapshots std_math 0 (bal_nodes (bal_new [demo_node])) = Inr ([?s], [tracked_new demo_node])"
    by (simp add: bal_new_def)
  define \<sigma>1 where "\<sigma>1 = bal_set 7 (BalAcquiring (candidates rev (zip [0..<1] [?s]))) [tracked_new demo_node] (bal_new [demo_node])"
  have c: "candidates rev (zip [0..<1] [?s]) = [0]" by (simp add: candidates_def Let_def not_less)
  have "?R \<sigma>1" unfolding \<sigma>1_def
    by (rule bal_more [OF bal_start]) (use bal_score [of "bal_new [demo_node]" 7, OF _ sn] in \<open>simp add: bal_new_def\<close>)
  moreover define \<sigma>2 where "\<sigma>2 = bal_set 7 (BalFlight 0) ((bal_nodes \<sigma>1)[0 := balanced_enter (bal_nodes \<sigma>1 ! 0)]) \<sigma>1"
  have "bal_step std_http std_math rev \<sigma>1 \<sigma>2" unfolding \<sigma>2_def
    by (rule bal_enter [where cs = "[0]"]) (simp_all add: \<sigma>1_def c [simplified] bal_set_def)
  ultimately have r: "?R \<sigma>2" by (rule bal_more)
  have "at_node \<sigma>2 0 = {7}" by (auto simp: at_node_def \<sigma>2_def \<sigma>1_def bal_set_def bal_new_def)
  with balanced_in_flight_exact [OF r] r show ?thesis by auto
qed

end
