(* ===== verification/AtomicF64.thy ===== *)
theory AtomicF64
  imports Float64
begin

text \<open>
  \<^verbatim>\<open>util/atomic_f64.rs\<close>: a double in an atomic word. \<open>to_bits\<close> and \<open>from_bits\<close> are the standard library's
  conversions for the doubles of \<open>Float64\<close>: sign, exponent with its bias, fraction; the zero is the
  positive one. \<open>fu_step\<close> is one atomic action of \<^verbatim>\<open>AtomicU64::fetch_update\<close>, the loop of a load and
  weak exchanges, which may fail for no reason; the threads' actions interleave in any order.
\<close>

definition pos_bits :: "f64 \<Rightarrow> nat" where
  "pos_bits x =
     (if x = 0 then 0 else nat ((quantum x + 1074) * 2 ^ 52 + \<lfloor>x / 2 powi quantum x\<rfloor>))"

definition to_bits :: "f64 \<Rightarrow> u64" where
  "to_bits x = (if 0 \<le> x then of_nat (pos_bits x) else of_nat (2 ^ 63 + pos_bits (- x)))"

definition pos_of_bits :: "nat \<Rightarrow> f64" where
  "pos_of_bits n =
     (let e = n div 2 ^ 52; f = n mod 2 ^ 52
      in if e = 0 then of_nat f * 2 powi (- 1074) else of_nat (2 ^ 52 + f) * 2 powi (int e - 1075))"

definition from_bits :: "u64 \<Rightarrow> f64" where
  "from_bits b =
     (let n = unat b in if n < 2 ^ 63 then pos_of_bits n else - pos_of_bits (n - 2 ^ 63))"

type_synonym atomic_f64 = u64

definition atomic_new :: "f64 \<Rightarrow> atomic_f64" where
  "atomic_new value = to_bits value"

definition atomic_load :: "atomic_f64 \<Rightarrow> f64" where
  "atomic_load a = from_bits a"

definition atomic_compare_exchange :: "f64 \<Rightarrow> f64 \<Rightarrow> atomic_f64 \<Rightarrow> (f64 + f64) \<times> atomic_f64" where
  "atomic_compare_exchange current new a =
     (if a = to_bits current then (Inr (from_bits a), to_bits new) else (Inl (from_bits a), a))"

datatype fu_pc = FuStart | FuTry u64 | FuDone "f64 + f64"

definition fu_step :: "(f64 \<Rightarrow> f64 option) \<Rightarrow> bool \<Rightarrow> fu_pc \<Rightarrow> atomic_f64 \<Rightarrow> (fu_pc \<times> atomic_f64) option" where
  "fu_step f spurious pc a =
     (case pc of
        FuStart \<Rightarrow> Some (FuTry a, a)
      | FuTry prev \<Rightarrow>
          (case f (from_bits prev) of
             None \<Rightarrow> Some (FuDone (Inl (from_bits prev)), a)
           | Some v \<Rightarrow>
               if a = prev \<and> \<not> spurious then Some (FuDone (Inr (from_bits prev)), to_bits v)
               else Some (FuTry a, a))
      | FuDone _ \<Rightarrow> None)"

definition fetch_add_fn :: "f64 \<Rightarrow> f64 \<Rightarrow> f64 option" where
  "fetch_add_fn n old = Some (f64_add old n)"

subsection \<open>The bits of a double\<close>

definition is_double :: "f64 \<Rightarrow> bool" where
  "is_double x \<longleftrightarrow> f64_round x = x \<and> \<bar>x\<bar> < 2 powi 1024"

lemma quantum_repr:
  assumes "0 < x" "round_pos x = x"
  obtains k where "x = of_nat k * 2 powi quantum x" "0 < k" "k < 2 ^ 53"
    "quantum x = - 1074 \<or> 2 ^ 52 \<le> k"
proof -
  define q where "q = quantum x"
  obtain k where k: "0 \<le> k" "k \<le> 2 ^ 53" "x = of_int k * 2 powi q"
    using round_pos_repr [OF assms(1)] assms(2) q_def by metis
  have b: "2 powi binade x \<le> x" "x < 2 powi (binade x + 1)" using binade_bounds [OF assms(1)] by blast+
  have q: "binade x - 52 \<le> q" "- 1074 \<le> q" "q = binade x - 52 \<or> q = - 1074"
    by (auto simp: q_def quantum_def)
  have "of_int k * 2 powi q < (2::rat) powi (q + 53)"
    using b(2) k(3) two_powi_le_iff [of "binade x + 1" "q + 53"] q(1) by linarith
  also have "(2::rat) powi (q + 53) = of_int (2 ^ 53) * 2 powi q" using powi_split [of q "q + 53"] by simp
  finally have lt: "k < 2 ^ 53" by (simp only: mult_less_cancel_right_pos two_powi_pos of_int_less_iff)
  have ge: "2 ^ 52 \<le> k" if "q \<noteq> - 1074"
  proof -
    have "binade x = q + 52" using q(3) that by simp
    with b(1) have "2 powi (q + 52) \<le> x" by (simp only:)
    from order_trans [OF this eq_refl [OF k(3)]]
    have "2 powi (q + 52) \<le> of_int k * (2::rat) powi q" .
    moreover have "(2::rat) powi (q + 52) = of_int (2 ^ 52) * 2 powi q"
      using powi_split [of q "q + 52"] by simp
    ultimately have "of_int (2 ^ 52) * 2 powi q \<le> of_int k * (2::rat) powi q" by (simp only:)
    then show ?thesis by (simp only: mult_le_cancel_right_pos two_powi_pos of_int_le_iff)
  qed
  have "0 < k" using k(1,3) assms(1) by (cases "k = 0") auto
  then have n: "0 < nat k" "nat k < 2 ^ 53" "quantum x = - 1074 \<or> 2 ^ 52 \<le> nat k"
    using lt ge k(1) unfolding q_def [symmetric] by (simp, simp add: nat_less_iff, auto simp: le_nat_iff)
  have "of_nat (nat k) = (of_int k :: rat)" using k(1) by simp
  then have "x = of_nat (nat k) * 2 powi quantum x" using k(3) unfolding q_def by (simp only:)
  from that [OF this n] show ?thesis .
qed

lemma pos_bits_eq:
  assumes "0 < x" "x = of_nat k * 2 powi quantum x" "0 < k"
  shows "pos_bits x = nat (quantum x + 1074) * 2 ^ 52 + k"
proof -
  have "x / 2 powi quantum x = of_nat k"
    using assms(2) by (metis nonzero_mult_div_cancel_right two_powi_pos less_irrefl)
  then have "\<lfloor>x / 2 powi quantum x\<rfloor> = int k" by simp
  moreover have "- 1074 \<le> quantum x" by (simp add: quantum_def)
  ultimately show ?thesis using assms(1) by (simp add: pos_bits_def nat_add_distrib nat_mult_distrib)
qed

lemma pos_of_bits_eq:
  assumes "0 < k" "k < 2 ^ 53" "q = - 1074 \<or> 2 ^ 52 \<le> k" "- 1074 \<le> q"
  shows "pos_of_bits (nat (q + 1074) * 2 ^ 52 + k) = of_nat k * 2 powi q"
proof (cases "k < 2 ^ 52")
  case True
  then show ?thesis using assms by (simp add: pos_of_bits_def)
next
  case False
  define f where "f = k - 2 ^ 52"
  define e where "e = nat (q + 1074) + 1"
  have f: "k = 2 ^ 52 + f" "f < 2 ^ 52" using False assms(2) by (simp_all add: f_def)
  then have "nat (q + 1074) * 2 ^ 52 + k = e * 2 ^ 52 + f" by (simp add: e_def)
  moreover have "(e * 2 ^ 52 + f) div 2 ^ 52 = e" "(e * 2 ^ 52 + f) mod 2 ^ 52 = f"
    using f(2) by (simp_all add: div_mult_self3)
  moreover have "int e - 1075 = q" "e \<noteq> 0" using assms(4) by (simp_all add: e_def)
  ultimately show ?thesis using f(1) by (simp only: pos_of_bits_def Let_def if_False)
qed

lemma pos_bits_roundtrip:
  assumes "0 \<le> x" "is_double x"
  shows "pos_of_bits (pos_bits x) = x \<and> pos_bits x < 2 ^ 63"
proof (cases "x = 0")
  case False
  then have x: "0 < x" "round_pos x = x" using assms by (auto simp: is_double_def f64_round_def split: if_splits)
  obtain k where k: "x = of_nat k * 2 powi quantum x" "0 < k" "k < 2 ^ 53" "quantum x = - 1074 \<or> 2 ^ 52 \<le> k"
    by (rule quantum_repr [OF x])
  have q: "- 1074 \<le> quantum x" by (simp add: quantum_def)
  have "2 powi binade x < (2::rat) powi 1024"
    using binade_bounds(1) [OF x(1)] assms by (simp add: is_double_def)
  then have "binade x < 1024" using two_powi_le_iff [of 1024 "binade x"] by linarith
  then have "nat (quantum x + 1074) \<le> 2045" by (simp add: quantum_def)
  then have "nat (quantum x + 1074) * 2 ^ 52 \<le> 2045 * 2 ^ 52" by (rule mult_le_mono1)
  then have "nat (quantum x + 1074) * 2 ^ 52 + k < 2 ^ 63" using k(3) by simp
  then show ?thesis
    using pos_bits_eq [OF x(1) k(1,2)] pos_of_bits_eq [OF k(2,3,4) q] k(1) by simp
qed (simp add: pos_bits_def pos_of_bits_def)

lemma unat_of_small: "n < 2 ^ 64 \<Longrightarrow> unat (of_nat n :: u64) = n"
  by (simp add: unsigned_of_nat take_bit_nat_eq_self)

lemma is_double_minus: "is_double (- x) \<longleftrightarrow> is_double x"
  by (simp add: is_double_def f64_round_neg)

lemma from_to_bits:
  assumes "is_double x"
  shows "from_bits (to_bits x) = x"
proof (cases "0 \<le> x")
  case True
  note r = pos_bits_roundtrip [OF True assms]
  have "unat (of_nat (pos_bits x) :: u64) = pos_bits x"
    using r by (intro unat_of_small) simp
  then show ?thesis using True r by (simp add: to_bits_def from_bits_def)
next
  case False
  have r: "pos_of_bits (pos_bits (- x)) = - x \<and> pos_bits (- x) < 2 ^ 63"
    using False assms by (intro pos_bits_roundtrip) (simp_all add: is_double_minus)
  have "unat (of_nat (2 ^ 63 + pos_bits (- x)) :: u64) = 2 ^ 63 + pos_bits (- x)"
    using r by (intro unat_of_small) simp
  then show ?thesis using False r by (simp only: to_bits_def from_bits_def Let_def if_False) simp
qed

lemma fetch_add_double: "is_double x \<Longrightarrow> \<bar>f64_add x n\<bar> < 2 powi 1024 \<Longrightarrow> is_double (f64_add x n)"
  by (simp add: is_double_def f64_add_def f64_round_idem)

subsection \<open>Many updates at once\<close>

text \<open>
  Any number of threads, thread \<open>i\<close> with the function \<open>fs i\<close>. The log is a ghost: the threads whose
  exchange went through, in that order.
\<close>

record af_sys =
  af_cell :: atomic_f64
  af_pc :: "nat \<Rightarrow> fu_pc"
  af_log :: "nat list"

definition af_init :: "atomic_f64 \<Rightarrow> af_sys" where
  "af_init a = \<lparr>af_cell = a, af_pc = (\<lambda>_. FuStart), af_log = []\<rparr>"

definition succeeded :: "fu_pc \<Rightarrow> bool" where
  "succeeded pc \<longleftrightarrow> (\<exists>x. pc = FuDone (Inr x))"

definition af_after :: "nat \<Rightarrow> fu_pc \<Rightarrow> atomic_f64 \<Rightarrow> af_sys \<Rightarrow> af_sys" where
  "af_after i pc a \<sigma> =
     \<lparr>af_cell = a, af_pc = (af_pc \<sigma>)(i := pc),
      af_log = (if succeeded pc then af_log \<sigma> @ [i] else af_log \<sigma>)\<rparr>"

inductive af_reach :: "(nat \<Rightarrow> f64 \<Rightarrow> f64 option) \<Rightarrow> atomic_f64 \<Rightarrow> af_sys \<Rightarrow> bool" for fs a0 where
  af_start: "af_reach fs a0 (af_init a0)"
| af_act: "af_reach fs a0 \<sigma> \<Longrightarrow> fu_step (fs i) spurious (af_pc \<sigma> i) (af_cell \<sigma>) = Some (pc, a) \<Longrightarrow>
    af_reach fs a0 (af_after i pc a \<sigma>)"

text \<open>The reference: the functions applied one after the other, each to the value it finds.\<close>

definition apply_update :: "(f64 \<Rightarrow> f64 option) \<Rightarrow> atomic_f64 \<Rightarrow> atomic_f64" where
  "apply_update f a = (case f (from_bits a) of Some v \<Rightarrow> to_bits v | None \<Rightarrow> a)"

fun one_by_one :: "(nat \<Rightarrow> f64 \<Rightarrow> f64 option) \<Rightarrow> nat list \<Rightarrow> atomic_f64 \<Rightarrow> atomic_f64" where
  "one_by_one fs [] a = a"
| "one_by_one fs (i # is) a = one_by_one fs is (apply_update (fs i) a)"

lemma one_by_one_append [simp]: "one_by_one fs (xs @ ys) a = one_by_one fs ys (one_by_one fs xs a)"
  by (induction xs arbitrary: a) simp_all

text \<open>Where a thread stands with respect to the log: what it read is the value after a part of it.\<close>

fun placed :: "(nat \<Rightarrow> f64 \<Rightarrow> f64 option) \<Rightarrow> atomic_f64 \<Rightarrow> nat list \<Rightarrow> nat \<Rightarrow> fu_pc \<Rightarrow> bool" where
  "placed fs a0 done_ids i FuStart \<longleftrightarrow> i \<notin> set done_ids"
| "placed fs a0 done_ids i (FuTry prev) \<longleftrightarrow> i \<notin> set done_ids \<and> (\<exists>xs ys. done_ids = xs @ ys \<and> prev = one_by_one fs xs a0)"
| "placed fs a0 done_ids i (FuDone (Inr x)) \<longleftrightarrow>
     (\<exists>xs ys. done_ids = xs @ i # ys \<and> x = from_bits (one_by_one fs xs a0) \<and> fs i x \<noteq> None)"
| "placed fs a0 done_ids i (FuDone (Inl x)) \<longleftrightarrow>
     i \<notin> set done_ids \<and> (\<exists>xs ys. done_ids = xs @ ys \<and> x = from_bits (one_by_one fs xs a0)) \<and> fs i x = None"

definition af_inv :: "(nat \<Rightarrow> f64 \<Rightarrow> f64 option) \<Rightarrow> atomic_f64 \<Rightarrow> af_sys \<Rightarrow> bool" where
  "af_inv fs a0 \<sigma> \<longleftrightarrow>
     af_cell \<sigma> = one_by_one fs (af_log \<sigma>) a0 \<and> distinct (af_log \<sigma>) \<and>
     (\<forall>i. placed fs a0 (af_log \<sigma>) i (af_pc \<sigma> i))"

lemma placed_append: "placed fs a0 done_ids i pc \<Longrightarrow> j \<noteq> i \<Longrightarrow> placed fs a0 (done_ids @ [j]) i pc"
  by (cases "(fs, a0, done_ids, i, pc)" rule: placed.cases) (auto, (metis append.assoc append_Cons)+)

lemma placed_now: "i \<notin> set done_ids \<Longrightarrow> placed fs a0 done_ids i (FuTry (one_by_one fs done_ids a0))"
  by (auto intro: exI [of _ done_ids] exI [of _ "[]"])

lemma af_step_inv:
  assumes inv: "af_inv fs a0 \<sigma>" and st: "fu_step (fs i) spurious (af_pc \<sigma> i) (af_cell \<sigma>) = Some (pc, a)"
  shows "af_inv fs a0 (af_after i pc a \<sigma>)"
proof -
  let ?log = "af_log \<sigma>"
  have cell: "af_cell \<sigma> = one_by_one fs ?log a0" and dist: "distinct ?log"
    and pl: "\<And>j. placed fs a0 ?log j (af_pc \<sigma> j)" using inv by (auto simp: af_inv_def)
  have fresh: "i \<notin> set ?log"
    using pl [of i] st by (cases "af_pc \<sigma> i") (simp_all add: fu_step_def)
  have now: "placed fs a0 ?log i (FuTry (af_cell \<sigma>))" unfolding cell by (rule placed_now [OF fresh])
  consider (stay) "a = af_cell \<sigma>" "\<not> succeeded pc" "placed fs a0 ?log i pc"
    | (swap) v where "fs i (from_bits (af_cell \<sigma>)) = Some v" "a = to_bits v" "pc = FuDone (Inr (from_bits (af_cell \<sigma>)))"
  proof (cases "af_pc \<sigma> i")
    case FuStart
    then have "pc = FuTry (af_cell \<sigma>)" "a = af_cell \<sigma>" using st by (auto simp: fu_step_def)
    then show ?thesis using stay now by (simp add: succeeded_def del: placed.simps)
  next
    case (FuTry prev)
    then have prev: "\<exists>xs ys. ?log = xs @ ys \<and> prev = one_by_one fs xs a0" using pl [of i] by simp
    show ?thesis
    proof (cases "fs i (from_bits prev)")
      case None
      then have r: "pc = FuDone (Inl (from_bits prev))" "a = af_cell \<sigma>" using st FuTry by (auto simp: fu_step_def)
      have "placed fs a0 ?log i pc" using prev fresh None by (auto simp: r)
      with r show ?thesis by (intro stay) (simp_all add: succeeded_def)
    next
      case (Some v)
      show ?thesis
      proof (cases "af_cell \<sigma> = prev \<and> \<not> spurious")
        case True
        then show ?thesis using st FuTry Some swap by (simp add: fu_step_def)
      next
        case False
        then have "pc = FuTry (af_cell \<sigma>)" "a = af_cell \<sigma>" using st FuTry Some by (auto simp: fu_step_def)
        then show ?thesis using stay now by (simp add: succeeded_def del: placed.simps)
      qed
    qed
  qed (use st in \<open>simp add: fu_step_def\<close>)
  then show ?thesis
  proof cases
    case stay
    then show ?thesis using cell dist pl by (simp add: af_inv_def af_after_def)
  next
    case swap
    have "placed fs a0 (?log @ [i]) i pc" using swap cell by (auto intro: exI [of _ ?log])
    moreover have "a = one_by_one fs (?log @ [i]) a0" using swap cell by (simp add: apply_update_def)
    ultimately show ?thesis
      using swap dist fresh placed_append [OF pl] by (simp add: af_inv_def af_after_def succeeded_def)
  qed
qed

lemma af_reach_inv: "af_reach fs a0 \<sigma> \<Longrightarrow> af_inv fs a0 \<sigma>"
  by (induction rule: af_reach.induct) (simp add: af_inv_def af_init_def, rule af_step_inv)

text \<open>C33: Concurrent updates of an atomic double are equivalent to updates made one at a time. However
  the loads and exchanges of any number of threads interleave, and whatever exchanges fail for no
  reason, there is an order of the updates that went through such that the cell holds their results
  one after the other, and every update returned the value that those before it had left; no update
  is lost and none is made twice. An exchange that fails for a reason fails because another thread's
  update went through since the value was read.\<close>

theorem atomic_f64_linearizes:
  assumes "af_reach fs (atomic_new x0) \<sigma>" "is_double x0"
  shows "atomic_load (af_cell \<sigma>) = from_bits (one_by_one fs (af_log \<sigma>) (to_bits x0)) \<and>
    distinct (af_log \<sigma>) \<and> (\<forall>i. succeeded (af_pc \<sigma> i) \<longleftrightarrow> i \<in> set (af_log \<sigma>)) \<and>
    (\<forall>i x. af_pc \<sigma> i = FuDone (Inr x) \<longrightarrow>
       (\<exists>xs ys. af_log \<sigma> = xs @ i # ys \<and> x = from_bits (one_by_one fs xs (to_bits x0)) \<and> fs i x \<noteq> None)) \<and>
    (af_log \<sigma> = [] \<longrightarrow> atomic_load (af_cell \<sigma>) = x0) \<and>
    (\<forall>i prev. af_pc \<sigma> i = FuTry prev \<longrightarrow> af_cell \<sigma> \<noteq> prev \<longrightarrow>
       (\<exists>xs j ys. af_log \<sigma> = xs @ j # ys \<and> j \<noteq> i \<and> prev = one_by_one fs xs (to_bits x0)))"
proof -
  have inv: "af_inv fs (to_bits x0) \<sigma>" using af_reach_inv [OF assms(1)] by (simp add: atomic_new_def)
  then have pl: "placed fs (to_bits x0) (af_log \<sigma>) i (af_pc \<sigma> i)" for i by (simp add: af_inv_def)
  have "succeeded (af_pc \<sigma> i) \<longleftrightarrow> i \<in> set (af_log \<sigma>)" for i
    using pl [of i] by (cases "(fs, to_bits x0, af_log \<sigma>, i, af_pc \<sigma> i)" rule: placed.cases) (auto simp: succeeded_def)
  moreover have "\<exists>xs j ys. af_log \<sigma> = xs @ j # ys \<and> j \<noteq> i \<and> prev = one_by_one fs xs (to_bits x0)"
    if h: "af_pc \<sigma> i = FuTry prev" "af_cell \<sigma> \<noteq> prev" for i prev
  proof -
    obtain xs ys where l: "i \<notin> set (af_log \<sigma>)" "af_log \<sigma> = xs @ ys" "prev = one_by_one fs xs (to_bits x0)"
      using pl [of i] h(1) by auto
    with inv h(2) have "ys \<noteq> []" by (auto simp: af_inv_def)
    with l show ?thesis by (cases ys) auto
  qed
  moreover have "\<exists>xs ys. af_log \<sigma> = xs @ i # ys \<and> x = from_bits (one_by_one fs xs (to_bits x0)) \<and> fs i x \<noteq> None"
    if "af_pc \<sigma> i = FuDone (Inr x)" for i x
    using pl [of i] that by simp
  ultimately show ?thesis
    using inv from_to_bits [OF assms(2)] by (auto simp: af_inv_def atomic_load_def)
qed

theorem atomic_f64_linearizes_witness:
  "\<exists>\<sigma>. af_reach (\<lambda>_. fetch_add_fn 1) (atomic_new 0) \<sigma> \<and> af_log \<sigma> = [0] \<and> atomic_load (af_cell \<sigma>) = 1 \<and>
     (\<exists>xs j ys. af_log \<sigma> = xs @ j # ys \<and> j \<noteq> 1 \<and> to_bits 0 = one_by_one (\<lambda>_. fetch_add_fn 1) xs (to_bits 0))"
proof -
  let ?fs = "\<lambda>_ :: nat. fetch_add_fn 1"
  define \<sigma>1 where "\<sigma>1 = af_after 0 (FuTry (to_bits 0)) (to_bits 0) (af_init (to_bits 0))"
  define \<sigma>2 where "\<sigma>2 = af_after 1 (FuTry (to_bits 0)) (to_bits 0) \<sigma>1"
  define \<sigma>3 where "\<sigma>3 = af_after 0 (FuDone (Inr 0)) (to_bits 1) \<sigma>2"
  have one: "f64_round 1 = 1" using f64_round_nat [of 1] by simp
  have d0: "is_double 0" by (simp add: is_double_def f64_round_def)
  have "(2::rat) powi 0 < 2 powi 1024" using two_powi_le_iff [of 1024 0] by linarith
  then have d1: "is_double 1" using one by (simp add: is_double_def)
  note rt = from_to_bits [OF d0] from_to_bits [OF d1]
  have fn: "fetch_add_fn 1 0 = Some 1" using one by (simp add: fetch_add_fn_def f64_add_def)
  have r0: "af_reach ?fs (atomic_new 0) (af_init (to_bits 0))"
    using af_start [of ?fs "atomic_new 0"] by (simp add: atomic_new_def)
  have r1: "af_reach ?fs (atomic_new 0) \<sigma>1" unfolding \<sigma>1_def
    by (rule af_act [OF r0, where spurious = False]) (simp add: fu_step_def af_init_def)
  have r2: "af_reach ?fs (atomic_new 0) \<sigma>2" unfolding \<sigma>2_def
    by (rule af_act [OF r1, where spurious = False]) (simp add: fu_step_def af_init_def \<sigma>1_def af_after_def)
  have r3: "af_reach ?fs (atomic_new 0) \<sigma>3" unfolding \<sigma>3_def
    by (rule af_act [OF r2, where spurious = False])
      (simp add: fu_step_def af_init_def \<sigma>1_def \<sigma>2_def af_after_def fn rt)
  have s: "af_log \<sigma>3 = [0]" "af_cell \<sigma>3 = to_bits 1" "af_pc \<sigma>3 1 = FuTry (to_bits 0)"
    by (simp_all add: \<sigma>1_def \<sigma>2_def \<sigma>3_def af_after_def af_init_def succeeded_def)
  have "to_bits 1 \<noteq> to_bits 0" using rt by (metis zero_neq_one)
  then show ?thesis
    using atomic_f64_linearizes [OF r3 d0] r3 s rt by (auto simp: atomic_load_def)
qed

end
