(* ===== verification/CiadRoles.thy ===== *)
theory CiadRoles
  imports CiadSystem
begin

text \<open>
  What one task can be doing at one limiter of \<^verbatim>\<open>ciad.rs\<close>: nothing, waiting in the semaphore's
  queue, holding the semaphore's permit without having counted itself, holding a \<^verbatim>\<open>Permit\<close>, or
  running the drop of one. Each step of \<open>CiadSystem\<close> moves one task from role to role and leaves
  the others where they are. Seen through its semaphore alone, the limiter runs the system of
  \<open>SemaphoreSystem\<close>, so whatever holds there of queues and wakeups holds here.
\<close>

datatype role = Outside | Queued | Entering | Holding | Leaving

definition waiters :: "sem \<Rightarrow> addr set" where
  "waiters s = dom (nodes s)"

definition queued :: "nat \<Rightarrow> ciad_sys \<Rightarrow> bool" where
  "queued t \<sigma> \<longleftrightarrow> t \<in> waiters (semaphore (cs_ciad \<sigma>))"

fun plays :: "role \<Rightarrow> nat \<Rightarrow> ciad_sys \<Rightarrow> bool" where
  "plays Outside t \<sigma> \<longleftrightarrow> holders \<sigma> t = None \<and> \<not> queued t \<sigma>"
| "plays Queued t \<sigma> \<longleftrightarrow> holders \<sigma> t = None \<and> queued t \<sigma>"
| "plays Entering t \<sigma> \<longleftrightarrow> (\<exists>p. holders \<sigma> t = Some (p, Granted)) \<and> \<not> queued t \<sigma>"
| "plays Holding t \<sigma> \<longleftrightarrow> (\<exists>p. holders \<sigma> t = Some (p, Held)) \<and> \<not> queued t \<sigma>"
| "plays Leaving t \<sigma> \<longleftrightarrow> (\<exists>p pc. holders \<sigma> t = Some (p, pc) \<and> pc \<noteq> Granted) \<and> \<not> queued t \<sigma>"

definition keeps_role :: "role \<Rightarrow> bool" where
  "keeps_role r \<longleftrightarrow> r = Entering \<or> r = Holding \<or> r = Leaving"

lemma plays_holder: "plays r t \<sigma> \<Longrightarrow> t \<in> dom (holders \<sigma>) \<longleftrightarrow> keeps_role r"
  by (cases r) (auto simp: keeps_role_def)

lemma plays_queued: "plays r t \<sigma> \<Longrightarrow> queued t \<sigma> \<longleftrightarrow> r = Queued"
  by (cases r) auto

lemma played_sets:
  assumes "\<And>t. plays (f t) t \<sigma>"
  shows "dom (holders \<sigma>) = {t. keeps_role (f t)}"
    and "waiters (semaphore (cs_ciad \<sigma>)) = {t. f t = Queued}"
  using plays_holder [OF assms] plays_queued [OF assms] unfolding queued_def by blast+

lemma plays_frame:
  assumes "holders \<sigma>' t = holders \<sigma> t" "queued t \<sigma>' = queued t \<sigma>"
  shows "plays r t \<sigma>' = plays r t \<sigma>"
  using assms by (cases r) auto

subsection \<open>Who is queued after a call on the semaphore\<close>

definition as_waiters :: "asem \<Rightarrow> addr set" where
  "as_waiters t = set (map fst (as_queue t))"

lemma waiters_abs: "sem_abs s t \<Longrightarrow> waiters s = as_waiters t"
  by (auto simp: sem_abs_def queue_repr_def waiters_def as_waiters_def)

lemma as_waiters_wake [simp]: "as_waiters (as_wake t) = as_waiters t"
  by (simp only: as_waiters_def as_wake_queue)

lemma as_waiters_poll:
  assumes "distinct (map fst (as_queue t))"
  shows "as_waiters (snd (as_poll a w t)) =
    (case fst (as_poll a w t) of Ready _ \<Rightarrow> as_waiters t - {a} | Pending \<Rightarrow> insert a (as_waiters t))"
proof (cases "as_poll a w t")
  case (Pair r t')
  show ?thesis
  proof (cases r)
    case (Ready u)
    then have "as_poll a w t = (Ready (), t')" using Pair by simp
    from as_poll_ReadyD [OF this] consider "as_queue t = []" "t' = t\<lparr>as_out := as_out t + 1\<rparr>"
      | v ws where "as_queue t = (a, v) # ws" "t' = as_wake (t\<lparr>as_queue := ws, as_out := as_out t + 1\<rparr>)"
      by blast
    then show ?thesis
    proof cases
      case 2
      then have "as_waiters t' = fst ` set ws" by (simp add: as_waiters_def del: set_map flip: set_map)
      with 2 assms Pair Ready show ?thesis by (simp add: as_waiters_def)
    qed (simp add: Pair Ready as_waiters_def)
  next
    case Pending
    then have "t' = as_register a w (as_enqueue a t)" using as_poll_PendingD Pair by blast
    then have "map fst (as_queue t') = map fst (as_queue (as_enqueue a t))" by simp
    then have "as_waiters t' = as_waiters (as_enqueue a t)" unfolding as_waiters_def by (rule arg_cong)
    with Pair Pending show ?thesis by (auto simp: as_waiters_def as_enqueue_def)
  qed
qed

lemma as_waiters_drop: "as_waiters (as_drop a t) = as_waiters t - {a}"
proof (cases "a \<in> set (map fst (as_queue t))")
  case True
  then have "as_waiters (as_drop a t) = as_waiters (t\<lparr>as_queue := filter (\<lambda>(b, v). b \<noteq> a) (as_queue t)\<rparr>)"
    by (simp add: as_drop_def Let_def)
  then show ?thesis by (auto simp: as_waiters_def)
qed (auto simp: as_drop_def as_waiters_def)

lemma poll_waiters:
  assumes "sem_ok s" "acquire_poll a w s = Inr (r, s')"
  shows "waiters s' = (case r of Ready _ \<Rightarrow> waiters s - {a} | Pending \<Rightarrow> insert a (waiters s))"
proof -
  obtain t where t: "sem_abs s t" using assms(1) by (auto simp: sem_ok_def)
  then have dist: "distinct (map fst (as_queue t))"
    by (auto simp: sem_abs_def queue_repr_def dest: linked_distinct)
  from acquire_poll_refines_abs [OF t, of a w] assms(2)
  have "r = fst (as_poll a w t)" "sem_abs s' (snd (as_poll a w t))" by auto
  with as_waiters_poll [OF dist] show ?thesis
    using waiters_abs [OF t] waiters_abs [of s' "snd (as_poll a w t)"]
    by (simp split: poll.split)
qed

lemma drop_waiters:
  assumes "sem_ok s" "acquire_drop a s = Inr s'"
  shows "waiters s' = waiters s - {a}"
proof -
  obtain t where t: "sem_abs s t" using assms(1) by (auto simp: sem_ok_def)
  from acquire_drop_refines_abs [OF t, of a] assms(2) have "sem_abs s' (as_drop a t)" by auto
  with t show ?thesis by (simp add: waiters_abs as_waiters_drop)
qed

lemma wake_waiters: "maybe_wake s = Inr s' \<Longrightarrow> waiters s' = waiters s"
  by (auto simp: maybe_wake_def deref_def set_node_def waiters_def split: if_splits option.splits)

lemma waiters_simps [simp]:
  "waiters (s\<lparr>total_permits := n\<rparr>) = waiters s" "waiters (s\<lparr>outstanding_permits := n\<rparr>) = waiters s"
  by (simp_all add: waiters_def)

lemma release_waiters: "permit_drop s = Inr s' \<Longrightarrow> waiters s' = waiters s"
  by (auto simp: permit_drop_def dest: wake_waiters split: option.splits)

lemma adjust_waiters:
  "adjust_permits old new c = Inr c' \<Longrightarrow> waiters (semaphore c') = waiters (semaphore c)"
  by (auto simp: adjust_permits_def Let_def and_then_Inr_iff add_permits_def remove_permits_def
      dest: wake_waiters split: if_splits option.splits)

lemma upd_step_waiters:
  "upd_step f pc c = Inr (pc', c') \<Longrightarrow> waiters (semaphore c') = waiters (semaphore c)"
  by (cases pc) (auto simp: and_then_Inr_iff dest: adjust_waiters split: option.splits if_splits)

subsection \<open>What a step does to the roles\<close>

text \<open>The next atomic action of the drop of task \<open>t\<close>'s permit.\<close>

definition next_drop :: "nat \<Rightarrow> ciad_sys \<Rightarrow> ciad_event" where
  "next_drop t \<sigma> =
     (case holders \<sigma> t of
        Some (_, Updating _) \<Rightarrow> CUpdate t
      | Some (_, Releasing) \<Rightarrow> CRelease t
      | _ \<Rightarrow> CDrop t)"

definition has_slot :: "nat \<Rightarrow> ciad_sys \<Rightarrow> bool" where
  "has_slot t \<sigma> \<longleftrightarrow> holders \<sigma> t \<noteq> None"

definition others_stay :: "nat \<Rightarrow> ciad_sys \<Rightarrow> ciad_sys \<Rightarrow> bool" where
  "others_stay t \<sigma> \<sigma>' \<longleftrightarrow> (\<forall>u r. u \<noteq> t \<longrightarrow> plays r u \<sigma>' = plays r u \<sigma>)"

lemma others_stayI:
  assumes "\<And>u. u \<noteq> t \<Longrightarrow> holders \<sigma>' u = holders \<sigma> u" "\<And>u. u \<noteq> t \<Longrightarrow> queued u \<sigma>' = queued u \<sigma>"
  shows "others_stay t \<sigma> \<sigma>'"
  unfolding others_stay_def using assms by (intro allI impI) (rule plays_frame)

lemma reach_sem: "ciad_reachable \<sigma> \<Longrightarrow> sem_ok (semaphore (cs_ciad \<sigma>))"
  using ciad_reachable_inv by (simp add: ciad_inv_def)

lemma poll_stepD:
  assumes "ciad_step (CPoll a w i) \<sigma> = Some (Inr \<sigma>')"
  obtains r s where "holders \<sigma> i = None" "acquire_poll a w (semaphore (cs_ciad \<sigma>)) = Inr (r, s)"
    "\<sigma>' = (case r of
      Pending \<Rightarrow> \<sigma>\<lparr>cs_ciad := (cs_ciad \<sigma>)\<lparr>semaphore := s\<rparr>\<rparr>
    | Ready _ \<Rightarrow> \<sigma>\<lparr>cs_ciad := (cs_ciad \<sigma>)\<lparr>semaphore := s\<rparr>,
                   holders := (holders \<sigma>)(i \<mapsto> (blank_permit, Granted))\<rparr>)"
  using assms by (cases "holders \<sigma> i") (auto simp: and_then_Inr_iff Let_def split: if_splits)

lemma poll_role:
  assumes "ciad_reachable \<sigma>" "plays r t \<sigma>" "r = Outside \<or> r = Queued"
    and "ciad_step (CPoll t w t) \<sigma> = Some (Inr \<sigma>')"
  shows "plays (if has_slot t \<sigma>' then Entering else Queued) t \<sigma>' \<and> others_stay t \<sigma> \<sigma>'"
proof -
  from assms(4) obtain x s where h: "holders \<sigma> t = None"
    and p: "acquire_poll t w (semaphore (cs_ciad \<sigma>)) = Inr (x, s)"
    and s': "\<sigma>' = (case x of
      Pending \<Rightarrow> \<sigma>\<lparr>cs_ciad := (cs_ciad \<sigma>)\<lparr>semaphore := s\<rparr>\<rparr>
    | Ready _ \<Rightarrow> \<sigma>\<lparr>cs_ciad := (cs_ciad \<sigma>)\<lparr>semaphore := s\<rparr>,
                   holders := (holders \<sigma>)(t \<mapsto> (blank_permit, Granted))\<rparr>)"
    by (rule poll_stepD)
  from poll_waiters [OF reach_sem [OF assms(1)] p] h show ?thesis
    by (cases x) (simp_all add: s' queued_def has_slot_def others_stayI)
qed

lemma cancel_role:
  assumes "ciad_reachable \<sigma>" "plays Queued t \<sigma>" "ciad_step (CCancel t) \<sigma> = Some (Inr \<sigma>')"
  shows "plays Outside t \<sigma>' \<and> others_stay t \<sigma> \<sigma>'"
proof -
  obtain s where p: "acquire_drop t (semaphore (cs_ciad \<sigma>)) = Inr s"
    and s': "\<sigma>' = \<sigma>\<lparr>cs_ciad := (cs_ciad \<sigma>)\<lparr>semaphore := s\<rparr>\<rparr>"
    using assms(3) by (auto simp: and_then_Inr_iff)
  from drop_waiters [OF reach_sem [OF assms(1)] p] assms(2) show ?thesis
    by (simp add: s' queued_def others_stayI)
qed

lemma enter_role:
  assumes "plays Entering t \<sigma>" "ciad_step (CEnter t) \<sigma> = Some (Inr \<sigma>')"
  shows "plays Holding t \<sigma>' \<and> others_stay t \<sigma> \<sigma>'"
proof -
  obtain p where "holders \<sigma> t = Some (p, Granted)" "\<not> queued t \<sigma>" using assms(1) by auto
  with assms(2) have "\<not> queued t \<sigma>" and "\<sigma>' = \<sigma>\<lparr>cs_ciad := snd (ciad_enter (cs_ciad \<sigma>)),
      holders := (holders \<sigma>)(t \<mapsto> (fst (ciad_enter (cs_ciad \<sigma>)), Held))\<rparr>"
    by (simp_all add: ciad_enter_def)
  then show ?thesis by (simp add: queued_def ciad_enter_def others_stayI)
qed

lemma respond_role:
  assumes "plays Holding t \<sigma>" "ciad_step (CRespond t m) \<sigma> = Some (Inr \<sigma>')"
  shows "plays Holding t \<sigma>' \<and> others_stay t \<sigma> \<sigma>'"
proof -
  obtain p where "holders \<sigma> t = Some (p, Held)" "\<not> queued t \<sigma>" using assms(1) by auto
  with assms(2) have "\<not> queued t \<sigma>"
    and "\<sigma>' = \<sigma>\<lparr>holders := (holders \<sigma>)(t \<mapsto> (p\<lparr>permit_mode := m\<rparr>, Held))\<rparr>"
    by simp_all
  then show ?thesis by (simp add: queued_def others_stayI)
qed

lemma holding_leaves: "plays Holding t \<sigma> \<Longrightarrow> plays Leaving t \<sigma>"
  by auto

lemma leave_role:
  assumes "plays Leaving t \<sigma>" "ciad_step (next_drop t \<sigma>) \<sigma> = Some (Inr \<sigma>')"
  shows "plays (if has_slot t \<sigma>' then Leaving else Outside) t \<sigma>' \<and> others_stay t \<sigma> \<sigma>'"
proof -
  obtain p pc where h: "holders \<sigma> t = Some (p, pc)" "pc \<noteq> Granted" "\<not> queued t \<sigma>"
    using assms(1) by auto
  then consider "pc = Held" | x where "pc = Updating x" | "pc = Releasing" by (cases pc) auto
  then show ?thesis
  proof cases
    case 1
    let ?pc = "if permit_mode p = Ignore then Releasing else Updating UpdStart"
    have "\<sigma>' = \<sigma>\<lparr>cs_ciad := (cs_ciad \<sigma>)\<lparr>in_flight := in_flight (cs_ciad \<sigma>) - 1\<rparr>,
        holders := (holders \<sigma>)(t \<mapsto> (p, ?pc))\<rparr>"
      using 1 h assms(2) by (simp add: next_drop_def)
    with h show ?thesis by (simp add: queued_def has_slot_def others_stayI)
  next
    case (2 x)
    with h assms(2) obtain pc' c where st: "upd_step (permit_update p) x (cs_ciad \<sigma>) = Inr (pc', c)"
      and "\<sigma>' = \<sigma>\<lparr>cs_ciad := c, holders := (holders \<sigma>)(t \<mapsto>
        (p, if pc' = UpdDone then Releasing else Updating pc'))\<rparr>"
      by (auto simp: next_drop_def and_then_Inr_iff)
    with h upd_step_waiters [OF st] show ?thesis by (simp add: queued_def has_slot_def others_stayI)
  next
    case 3
    with h assms(2) obtain s where st: "permit_drop (semaphore (cs_ciad \<sigma>)) = Inr s"
      and "\<sigma>' = \<sigma>\<lparr>cs_ciad := (cs_ciad \<sigma>)\<lparr>semaphore := s\<rparr>, holders := (holders \<sigma>)(t := None)\<rparr>"
      by (auto simp: next_drop_def and_then_Inr_iff)
    with h release_waiters [OF st] show ?thesis by (simp add: queued_def has_slot_def others_stayI)
  qed
qed

subsection \<open>The limiter runs the semaphore's system\<close>

definition sem_view :: "sem \<Rightarrow> nat \<Rightarrow> bool" where
  "sem_view s n \<longleftrightarrow> (\<exists>\<tau>. sem_reachable INITIAL_LIMIT \<tau> \<and> sys_sem \<tau> = s \<and> sys_live \<tau> = n)"

lemma sem_viewI:
  assumes "sem_reachable INITIAL_LIMIT \<tau>" "sem_step \<tau> e \<tau>'" "sys_sem \<tau>' = s" "sys_live \<tau>' = n"
  shows "sem_view s n"
  using sem_reach_step [OF assms(1,2)] assms(3,4) by (auto simp: sem_view_def)

lemma poll_view:
  assumes "sem_view s n" "acquire_poll a w s = Inr (r, s')"
  shows "sem_view s' (case r of Ready _ \<Rightarrow> n + 1 | Pending \<Rightarrow> n)"
proof -
  from assms(1) obtain \<tau> where v: "sem_reachable INITIAL_LIMIT \<tau>" "sys_sem \<tau> = s" "sys_live \<tau> = n"
    by (auto simp: sem_view_def)
  show ?thesis
  proof (cases r)
    case (Ready u)
    with assms(2) v(2) have p: "acquire_poll a w (sys_sem \<tau>) = Inr (Ready (), s')" by simp
    show ?thesis by (rule sem_viewI [OF v(1) grant [OF p]]) (simp_all add: v Ready)
  next
    case Pending
    with assms(2) v(2) have p: "acquire_poll a w (sys_sem \<tau>) = Inr (Pending, s')" by simp
    show ?thesis by (rule sem_viewI [OF v(1) wait [OF p]]) (simp_all add: v Pending)
  qed
qed

lemma drop_view:
  assumes "sem_view s n" "acquire_drop a s = Inr s'"
  shows "sem_view s' n"
  using assms by (auto simp: sem_view_def [of s] intro!: sem_viewI [OF _ cancel])

lemma release_view:
  assumes "sem_view s n" "0 < n" "permit_drop s = Inr s'"
  shows "sem_view s' (n - 1)"
  using assms by (auto simp: sem_view_def [of s] intro!: sem_viewI [OF _ release])

lemma adjust_view:
  assumes "sem_view (semaphore c) n" "adjust_permits old new c = Inr c'"
  shows "sem_view (semaphore c') n"
proof -
  from assms(1) obtain \<tau> where v: "sem_reachable INITIAL_LIMIT \<tau>" "sys_sem \<tau> = semaphore c" "sys_live \<tau> = n"
    by (auto simp: sem_view_def)
  have "(\<exists>m. add_permits m (sys_sem \<tau>) = Inr (semaphore c')) \<or>
      (\<exists>m. remove_permits m (sys_sem \<tau>) = Inr (semaphore c')) \<or> semaphore c' = semaphore c"
    using assms(2) by (auto simp: adjust_permits_def Let_def and_then_Inr_iff v split: if_splits)
  then show ?thesis
    using sem_viewI [OF v(1) add] sem_viewI [OF v(1) remove] assms(1) v by auto
qed

lemma upd_step_view:
  assumes "sem_view (semaphore c) n" "upd_step f pc c = Inr (pc', c')"
  shows "sem_view (semaphore c') n"
  using assms by (cases pc) (auto simp: and_then_Inr_iff dest: adjust_view split: option.splits if_splits)

lemma ciad_step_view:
  assumes r: "ciad_reachable \<sigma>" and v: "sem_view (semaphore (cs_ciad \<sigma>)) (card (dom (holders \<sigma>)))"
    and st: "ciad_step e \<sigma> = Some (Inr \<sigma>')"
  shows "sem_view (semaphore (cs_ciad \<sigma>')) (card (dom (holders \<sigma>')))"
proof -
  have fin: "finite (dom (holders \<sigma>))" using ciad_reachable_inv [OF r] by (simp add: ciad_inv_def)
  show ?thesis
  proof (cases e)
    case (CPoll a w i)
    with st obtain r s where i: "holders \<sigma> i = None"
      and p: "acquire_poll a w (semaphore (cs_ciad \<sigma>)) = Inr (r, s)"
      and "\<sigma>' = (case r of
        Pending \<Rightarrow> \<sigma>\<lparr>cs_ciad := (cs_ciad \<sigma>)\<lparr>semaphore := s\<rparr>\<rparr>
      | Ready _ \<Rightarrow> \<sigma>\<lparr>cs_ciad := (cs_ciad \<sigma>)\<lparr>semaphore := s\<rparr>,
                     holders := (holders \<sigma>)(i \<mapsto> (blank_permit, Granted))\<rparr>)"
      by (blast elim: poll_stepD)
    with poll_view [OF v p] fin show ?thesis by (cases r) (simp_all add: domIff)
  next
    case (CCancel a)
    with st drop_view [OF v, of a] show ?thesis by (auto simp: and_then_Inr_iff)
  next
    case (CUpdate i)
    with st upd_step_view [OF v] show ?thesis
      by (auto simp: and_then_Inr_iff insert_absorb domI split: option.splits drop_pc.splits)
  next
    case (CRelease i)
    then obtain p where h: "holders \<sigma> i = Some (p, Releasing)"
      using st by (auto split: option.splits drop_pc.splits)
    then have "0 < card (dom (holders \<sigma>))" using fin by (auto simp: card_gt_0_iff)
    with st CRelease h fin release_view [OF v] show ?thesis
      by (auto simp: and_then_Inr_iff domI card_Diff_singleton)
  qed (use st v in \<open>auto simp: ciad_enter_def insert_absorb domI split: option.splits drop_pc.splits\<close>)
qed

lemma ciad_view:
  assumes "ciad_reachable \<sigma>"
  shows "sem_view (semaphore (cs_ciad \<sigma>)) (card (dom (holders \<sigma>)))"
  using assms
proof induction
  case ciad_reach_init
  have "sem_view (sem_new INITIAL_LIMIT) 0"
    using sem_reach_init [of INITIAL_LIMIT] by (auto simp: sem_view_def sys_init_def)
  then show ?case by (simp add: ciad_init_def ciad_new_def)
qed (rule ciad_step_view)

text \<open>A free permit with somebody waiting: the head of the queue has had its waker called, and the
  poll that follows gets the permit.\<close>

lemma view_head_grants:
  assumes "sem_view s n" "n < unat (total_permits s)" "waiters s \<noteq> {}"
  shows "\<exists>h nd. h \<in> waiters s \<and> nodes s h = Some nd \<and> nd_waker nd = None \<and>
    (\<forall>w. \<exists>s'. acquire_poll h w s = Inr (Ready (), s'))"
proof -
  obtain \<tau> where v: "sem_reachable INITIAL_LIMIT \<tau>" "sys_sem \<tau> = s" "sys_live \<tau> = n"
    using assms(1) by (auto simp: sem_view_def)
  obtain t where inv: "sys_inv \<tau> t" using sem_reachable_inv [OF v(1)] by blast
  then have abs: "sem_abs s t" and out: "unat (as_out t) = n" and ok: "head_ok t"
    using v by (auto simp: sys_inv_def)
  obtain h u ws where q: "as_queue t = (h, u) # ws"
    using assms(3) waiters_abs [OF abs] by (cases "as_queue t") (auto simp: as_waiters_def)
  have has: "as_has t"
    using assms(2) out sem_abs_counts [OF abs] by (simp add: as_has_def word_less_nat_alt)
  have l: "linked s ([] @ (h, u) # ws)" using abs q by (simp add: sem_abs_def queue_repr_def)
  have "u = None" using ok has q by (simp add: head_ok_def)
  moreover have "fst (as_poll h w t) = Ready ()" for w
    using q has by (simp add: as_poll_def as_enqueue_def)
  moreover have "h \<in> waiters s" using waiters_abs [OF abs] q by (simp add: as_waiters_def)
  ultimately show ?thesis
    using linked_node [OF l] acquire_poll_refines_abs [OF abs, of h] by (metis sem_node.select_convs(1))
qed

subsection \<open>The in-flight counter\<close>

definition counted :: "ciad_sys \<Rightarrow> nat set" where
  "counted \<sigma> = {i. \<exists>p. holders \<sigma> i = Some (p, Held)}"

lemma counted_finite: "ciad_reachable \<sigma> \<Longrightarrow> finite (counted \<sigma>)"
  by (rule finite_subset [of _ "dom (holders \<sigma>)"])
    (use ciad_reachable_inv in \<open>auto simp: counted_def ciad_inv_def\<close>)

lemma upd_step_in_flight: "upd_step f pc c = Inr (pc', c') \<Longrightarrow> in_flight c' = in_flight c"
  by (cases pc) (auto simp: and_then_Inr_iff adjust_permits_def Let_def split: option.splits if_splits)

lemma counted_upd:
  "counted (\<sigma>\<lparr>cs_ciad := c, holders := (holders \<sigma>)(i \<mapsto> (p, pc))\<rparr>) =
     (if pc = Held then insert i (counted \<sigma>) else counted \<sigma> - {i})"
  "counted (\<sigma>\<lparr>holders := (holders \<sigma>)(i \<mapsto> (p, pc))\<rparr>) =
     (if pc = Held then insert i (counted \<sigma>) else counted \<sigma> - {i})"
  "counted (\<sigma>\<lparr>cs_ciad := c, holders := (holders \<sigma>)(i := None)\<rparr>) = counted \<sigma> - {i}"
  "counted (\<sigma>\<lparr>cs_ciad := c\<rparr>) = counted \<sigma>"
  by (auto simp: counted_def)

lemma ciad_step_in_flight:
  assumes r: "ciad_reachable \<sigma>" and st: "ciad_step e \<sigma> = Some (Inr \<sigma>')"
    and eq: "in_flight (cs_ciad \<sigma>) = of_nat (card (counted \<sigma>))"
  shows "in_flight (cs_ciad \<sigma>') = of_nat (card (counted \<sigma>'))"
proof -
  note fin = counted_finite [OF r]
  have out: "i \<notin> counted \<sigma>" if "holders \<sigma> i = None \<or> (\<exists>p pc. holders \<sigma> i = Some (p, pc) \<and> pc \<noteq> Held)" for i
    using that by (auto simp: counted_def)
  show ?thesis
  proof (cases e)
    case (CPoll a w i)
    with st obtain x s where i: "holders \<sigma> i = None"
      and "acquire_poll a w (semaphore (cs_ciad \<sigma>)) = Inr (x, s)"
      and "\<sigma>' = (case x of
        Pending \<Rightarrow> \<sigma>\<lparr>cs_ciad := (cs_ciad \<sigma>)\<lparr>semaphore := s\<rparr>\<rparr>
      | Ready _ \<Rightarrow> \<sigma>\<lparr>cs_ciad := (cs_ciad \<sigma>)\<lparr>semaphore := s\<rparr>,
                     holders := (holders \<sigma>)(i \<mapsto> (blank_permit, Granted))\<rparr>)"
      by (blast elim: poll_stepD)
    with eq out [of i] show ?thesis by (cases x) (simp_all add: counted_upd)
  next
    case (CCancel a)
    with st eq show ?thesis by (auto simp: and_then_Inr_iff counted_upd)
  next
    case (CEnter i)
    then obtain p where h: "holders \<sigma> i = Some (p, Granted)"
      using st by (auto split: option.splits drop_pc.splits)
    with st CEnter eq fin out [of i] show ?thesis by (auto simp: ciad_enter_def counted_upd)
  next
    case (CRespond i m)
    then obtain p where h: "holders \<sigma> i = Some (p, Held)"
      using st by (auto split: option.splits drop_pc.splits)
    then have "i \<in> counted \<sigma>" by (simp add: counted_def)
    with st CRespond h eq show ?thesis by (auto simp: counted_upd insert_absorb)
  next
    case (CDrop i)
    then obtain p where h: "holders \<sigma> i = Some (p, Held)"
      using st by (auto split: option.splits drop_pc.splits)
    then have "i \<in> counted \<sigma>" by (simp add: counted_def)
    then have "card (counted \<sigma>) = Suc (card (counted \<sigma> - {i}))" using fin by (metis card.remove)
    with st CDrop h eq show ?thesis by (auto simp: counted_upd)
  next
    case (CUpdate i)
    with st obtain p pc pc' c where h: "holders \<sigma> i = Some (p, Updating pc)"
      and u: "upd_step (permit_update p) pc (cs_ciad \<sigma>) = Inr (pc', c)"
      and "\<sigma>' = \<sigma>\<lparr>cs_ciad := c, holders := (holders \<sigma>)(i \<mapsto>
             (p, if pc' = UpdDone then Releasing else Updating pc'))\<rparr>"
      by (auto simp: and_then_Inr_iff split: option.splits drop_pc.splits)
    with eq out [of i] upd_step_in_flight [OF u] show ?thesis by (simp add: counted_upd)
  next
    case (CRelease i)
    then obtain p where h: "holders \<sigma> i = Some (p, Releasing)"
      using st by (auto split: option.splits drop_pc.splits)
    with st CRelease eq out [of i] show ?thesis by (auto simp: and_then_Inr_iff counted_upd)
  qed
qed

lemma ciad_in_flight:
  assumes "ciad_reachable \<sigma>"
  shows "in_flight (cs_ciad \<sigma>) = of_nat (card (counted \<sigma>))"
  using assms
  by induction (simp_all add: ciad_init_def ciad_new_def counted_def ciad_step_in_flight)

end
