(* ===== verification/LimiterSystem.thy ===== *)
theory LimiterSystem
  imports CiadRoles Limiter
begin

text \<open>
  One node's limiter (\<^verbatim>\<open>service/node/limiter/mod.rs\<close>) shared by any number of requests. The state is
  the host's limiter and the endpoints' limiters, each with its holders as in \<open>CiadSystem\<close>, and for
  every task the point its call has reached: \<^verbatim>\<open>Limiter::acquire\<close> with its two awaits, the life of
  the \<^verbatim>\<open>Permit\<close>, and its drop, field by field in the order of the struct. One step is one atomic
  action of one task, and the steps interleave in any order; a task can be cancelled at either await
  and, holding its permit, at any time. A task is the future of one acquisition and the permit it
  yields; its number is the address of the futures the semaphores see, and is free for another
  acquisition once the task is back at \<open>LIdle\<close>. Recording a response writes to the task's own permit
  only, so both writes are one step.
\<close>

datatype lim_pc =
    LIdle
  | LStart endpoint_key
  | LEndPoll endpoint_key
  | LEndWait endpoint_key
  | LEndEnter endpoint_key
  | LHostPoll endpoint_key
  | LHostWait endpoint_key
  | LHostEnter endpoint_key
  | LHeld endpoint_key
  | LEndDrop bool endpoint_key
  | LHostDrop endpoint_key

record lim_sys =
  ls_host :: ciad_sys
  ls_ends :: "endpoint_key \<rightharpoonup> ciad_sys"
  ls_pcs :: "nat \<Rightarrow> lim_pc"

datatype 'e lim_event =
    LimCall nat endpoint_key
  | LimRun nat waker
  | LimResponse nat "'e + status"
  | LimGiveBack nat
  | LimCancel nat

definition lim_init :: lim_sys where
  "lim_init = \<lparr>ls_host = ciad_init, ls_ends = Map.empty, ls_pcs = (\<lambda>_. LIdle)\<rparr>"

definition goto :: "nat \<Rightarrow> lim_pc \<Rightarrow> lim_sys \<Rightarrow> lim_sys" where
  "goto t pc \<sigma> = \<sigma>\<lparr>ls_pcs := (ls_pcs \<sigma>)(t := pc)\<rparr>"

definition on_host ::
  "ciad_event \<Rightarrow> (ciad_sys \<Rightarrow> lim_pc) \<Rightarrow> nat \<Rightarrow> lim_sys \<Rightarrow> (sem_fault + lim_sys) option" where
  "on_host e succ t \<sigma> =
     (case ciad_step e (ls_host \<sigma>) of
        None \<Rightarrow> None
      | Some (Inl f) \<Rightarrow> Some (Inl f)
      | Some (Inr s) \<Rightarrow> Some (Inr (goto t (succ s) (\<sigma>\<lparr>ls_host := s\<rparr>))))"

definition on_end ::
  "endpoint_key \<Rightarrow> (ciad_sys \<Rightarrow> ciad_event) \<Rightarrow> (ciad_sys \<Rightarrow> lim_pc) \<Rightarrow> nat \<Rightarrow> lim_sys \<Rightarrow>
   (sem_fault + lim_sys) option" where
  "on_end k e succ t \<sigma> =
     (case ls_ends \<sigma> k of
        None \<Rightarrow> None
      | Some c \<Rightarrow>
          (case ciad_step (e c) c of
             None \<Rightarrow> None
           | Some (Inl f) \<Rightarrow> Some (Inl f)
           | Some (Inr s) \<Rightarrow>
               Some (Inr (goto t (succ s) (\<sigma>\<lparr>ls_ends := (ls_ends \<sigma>)(k \<mapsto> s)\<rparr>)))))"

fun lim_run :: "nat \<Rightarrow> waker \<Rightarrow> lim_pc \<Rightarrow> lim_sys \<Rightarrow> (sem_fault + lim_sys) option" where
  "lim_run t w (LStart k) \<sigma> =
     Some (Inr (goto t (LEndPoll k) (\<sigma>\<lparr>ls_ends :=
       (case ls_ends \<sigma> k of Some _ \<Rightarrow> ls_ends \<sigma> | None \<Rightarrow> (ls_ends \<sigma>)(k \<mapsto> ciad_init))\<rparr>)))"
| "lim_run t w (LEndPoll k) \<sigma> =
     on_end k (\<lambda>_. CPoll t w t) (\<lambda>s. if has_slot t s then LEndEnter k else LEndWait k) t \<sigma>"
| "lim_run t w (LEndWait k) \<sigma> =
     on_end k (\<lambda>_. CPoll t w t) (\<lambda>s. if has_slot t s then LEndEnter k else LEndWait k) t \<sigma>"
| "lim_run t w (LEndEnter k) \<sigma> = on_end k (\<lambda>_. CEnter t) (\<lambda>_. LHostPoll k) t \<sigma>"
| "lim_run t w (LHostPoll k) \<sigma> =
     on_host (CPoll t w t) (\<lambda>s. if has_slot t s then LHostEnter k else LHostWait k) t \<sigma>"
| "lim_run t w (LHostWait k) \<sigma> =
     on_host (CPoll t w t) (\<lambda>s. if has_slot t s then LHostEnter k else LHostWait k) t \<sigma>"
| "lim_run t w (LHostEnter k) \<sigma> = on_host (CEnter t) (\<lambda>_. LHeld k) t \<sigma>"
| "lim_run t w (LEndDrop both k) \<sigma> =
     on_end k (next_drop t)
       (\<lambda>s. if has_slot t s then LEndDrop both k else if both then LHostDrop k else LIdle) t \<sigma>"
| "lim_run t w (LHostDrop k) \<sigma> =
     on_host (next_drop t (ls_host \<sigma>)) (\<lambda>s. if has_slot t s then LHostDrop k else LIdle) t \<sigma>"
| "lim_run t w _ \<sigma> = None"

definition response_mode :: "http_api \<Rightarrow> 'e error_api \<Rightarrow> behavior \<Rightarrow> 'e + status \<Rightarrow> mode" where
  "response_mode H E b r = (case r of Inr code \<Rightarrow> on_success H b code | Inl e \<Rightarrow> on_failure E b e)"

fun lim_step ::
  "http_api \<Rightarrow> 'e error_api \<Rightarrow> 'e lim_event \<Rightarrow> lim_sys \<Rightarrow> (sem_fault + lim_sys) option" where
  "lim_step H E (LimCall t k) \<sigma> =
     (if ls_pcs \<sigma> t = LIdle then Some (Inr (goto t (LStart k) \<sigma>)) else None)"
| "lim_step H E (LimRun t w) \<sigma> = lim_run t w (ls_pcs \<sigma> t) \<sigma>"
| "lim_step H E (LimResponse t r) \<sigma> =
     (case ls_pcs \<sigma> t of
        LHeld k \<Rightarrow>
          (case on_end k (\<lambda>_. CRespond t (response_mode H E EndpointLevel r)) (\<lambda>_. LHeld k) t \<sigma> of
             Some (Inr \<sigma>') \<Rightarrow> on_host (CRespond t (response_mode H E HostLevel r)) (\<lambda>_. LHeld k) t \<sigma>'
           | x \<Rightarrow> x)
      | _ \<Rightarrow> None)"
| "lim_step H E (LimGiveBack t) \<sigma> =
     (case ls_pcs \<sigma> t of LHeld k \<Rightarrow> Some (Inr (goto t (LEndDrop True k) \<sigma>)) | _ \<Rightarrow> None)"
| "lim_step H E (LimCancel t) \<sigma> =
     (case ls_pcs \<sigma> t of
        LStart k \<Rightarrow> Some (Inr (goto t LIdle \<sigma>))
      | LEndWait k \<Rightarrow> on_end k (\<lambda>_. CCancel t) (\<lambda>_. LIdle) t \<sigma>
      | LHostWait k \<Rightarrow> on_host (CCancel t) (\<lambda>_. LEndDrop False k) t \<sigma>
      | _ \<Rightarrow> None)"

inductive lim_reachable :: "http_api \<Rightarrow> 'e error_api \<Rightarrow> lim_sys \<Rightarrow> bool" for H E where
  lim_reach_init: "lim_reachable H E lim_init"
| lim_reach_step:
    "lim_reachable H E \<sigma> \<Longrightarrow> lim_step H E ev \<sigma> = Some (Inr \<sigma>') \<Longrightarrow> lim_reachable H E \<sigma>'"

lemma response_mode_eq: "on_response H E b r p = p\<lparr>permit_mode := response_mode H E b r\<rparr>"
  by (simp add: on_response_def response_mode_def)

lemma on_host_Inr:
  "on_host e succ t \<sigma> = Some (Inr \<sigma>') \<longleftrightarrow>
     (\<exists>s. ciad_step e (ls_host \<sigma>) = Some (Inr s) \<and> \<sigma>' = goto t (succ s) (\<sigma>\<lparr>ls_host := s\<rparr>))"
  by (auto simp: on_host_def split: option.splits sum.splits)

lemma on_end_Inr:
  "on_end k e succ t \<sigma> = Some (Inr \<sigma>') \<longleftrightarrow>
     (\<exists>c s. ls_ends \<sigma> k = Some c \<and> ciad_step (e c) c = Some (Inr s) \<and>
        \<sigma>' = goto t (succ s) (\<sigma>\<lparr>ls_ends := (ls_ends \<sigma>)(k \<mapsto> s)\<rparr>))"
  by (auto simp: on_end_def split: option.splits sum.splits)

lemma goto_simps [simp]:
  "ls_host (goto t pc \<sigma>) = ls_host \<sigma>" "ls_ends (goto t pc \<sigma>) = ls_ends \<sigma>"
  "ls_pcs (goto t pc \<sigma>) = (ls_pcs \<sigma>)(t := pc)"
  by (simp_all add: goto_def)

subsection \<open>The role of a task at each limiter\<close>

fun host_role :: "lim_pc \<Rightarrow> role" where
  "host_role (LHostWait _) = Queued"
| "host_role (LHostEnter _) = Entering"
| "host_role (LHeld _) = Holding"
| "host_role (LEndDrop both _) = (if both then Holding else Outside)"
| "host_role (LHostDrop _) = Leaving"
| "host_role _ = Outside"

fun own_role :: "lim_pc \<Rightarrow> role" where
  "own_role (LEndWait _) = Queued"
| "own_role (LEndEnter _) = Entering"
| "own_role (LHostPoll _) = Holding"
| "own_role (LHostWait _) = Holding"
| "own_role (LHostEnter _) = Holding"
| "own_role (LHeld _) = Holding"
| "own_role (LEndDrop _ _) = Leaving"
| "own_role _ = Outside"

fun own_key :: "lim_pc \<Rightarrow> endpoint_key option" where
  "own_key LIdle = None"
| "own_key (LStart _) = None"
| "own_key (LEndPoll k) = Some k"
| "own_key (LEndWait k) = Some k"
| "own_key (LEndEnter k) = Some k"
| "own_key (LHostPoll k) = Some k"
| "own_key (LHostWait k) = Some k"
| "own_key (LHostEnter k) = Some k"
| "own_key (LHeld k) = Some k"
| "own_key (LEndDrop _ k) = Some k"
| "own_key (LHostDrop _) = None"

definition end_role :: "endpoint_key \<Rightarrow> lim_pc \<Rightarrow> role" where
  "end_role k pc = (if own_key pc = Some k then own_role pc else Outside)"

definition lim_inv :: "lim_sys \<Rightarrow> bool" where
  "lim_inv \<sigma> \<longleftrightarrow>
     ciad_reachable (ls_host \<sigma>) \<and> (\<forall>t. plays (host_role (ls_pcs \<sigma> t)) t (ls_host \<sigma>)) \<and>
     (\<forall>k c. ls_ends \<sigma> k = Some c \<longrightarrow>
        ciad_reachable c \<and> (\<forall>t. plays (end_role k (ls_pcs \<sigma> t)) t c)) \<and>
     (\<forall>t k. own_key (ls_pcs \<sigma> t) = Some k \<longrightarrow> ls_ends \<sigma> k \<noteq> None)"

lemma plays_init: "plays r t ciad_init \<longleftrightarrow> r = Outside"
  by (cases r) (auto simp: ciad_init_def queued_def waiters_def ciad_new_def sem_new_def)

lemma lim_init_inv: "lim_inv lim_init"
  by (simp add: lim_inv_def lim_init_def plays_init ciad_reach_init del: plays.simps)

lemma goto_inv:
  assumes "lim_inv \<sigma>" "plays (host_role pc) t (ls_host \<sigma>)"
    and "\<And>k c. ls_ends \<sigma> k = Some c \<Longrightarrow> plays (end_role k pc) t c"
    and "\<And>k. own_key pc = Some k \<Longrightarrow> ls_ends \<sigma> k \<noteq> None"
  shows "lim_inv (goto t pc \<sigma>)"
  using assms by (auto simp: lim_inv_def)

lemma host_move_inv:
  assumes inv: "lim_inv \<sigma>" and st: "ciad_step e (ls_host \<sigma>) = Some (Inr s)"
    and mv: "plays (host_role pc) t s \<and> others_stay t (ls_host \<sigma>) s"
    and own: "\<And>k c. plays (end_role k (ls_pcs \<sigma> t)) t c \<Longrightarrow> plays (end_role k pc) t c"
      "own_key pc \<in> {None, own_key (ls_pcs \<sigma> t)}"
  shows "lim_inv (goto t pc (\<sigma>\<lparr>ls_host := s\<rparr>))"
  using inv ciad_reach_step [OF _ st] mv own
  by (auto simp: lim_inv_def others_stay_def)

lemma end_move_inv:
  assumes inv: "lim_inv \<sigma>" and k: "ls_ends \<sigma> k = Some c" and st: "ciad_step e c = Some (Inr s)"
    and mv: "plays (end_role k pc) t s \<and> others_stay t c s" and key: "own_key (ls_pcs \<sigma> t) = Some k"
    and pc: "own_key pc \<in> {None, Some k}" "plays (host_role pc) t (ls_host \<sigma>)"
  shows "lim_inv (goto t pc (\<sigma>\<lparr>ls_ends := (ls_ends \<sigma>)(k \<mapsto> s)\<rparr>))"
proof -
  have c: "ciad_reachable c" "\<And>u. plays (end_role k (ls_pcs \<sigma> u)) u c"
    using inv k by (auto simp: lim_inv_def)
  have s: "ciad_reachable s" using ciad_reach_step [OF c(1) st] .
  have "end_role k' pc = end_role k' (ls_pcs \<sigma> t)" if "k' \<noteq> k" for k'
    using that pc(1) key by (auto simp: end_role_def)
  with inv k s mv c(2) pc show ?thesis
    by (auto simp: lim_inv_def others_stay_def)
qed

lemma inv_host: "lim_inv \<sigma> \<Longrightarrow> ciad_reachable (ls_host \<sigma>) \<and> plays (host_role (ls_pcs \<sigma> t)) t (ls_host \<sigma>)"
  by (simp add: lim_inv_def)

lemma inv_end:
  "lim_inv \<sigma> \<Longrightarrow> ls_ends \<sigma> k = Some c \<Longrightarrow> ciad_reachable c \<and> plays (end_role k (ls_pcs \<sigma> t)) t c"
  by (simp add: lim_inv_def)

lemma new_end_inv:
  assumes "lim_inv \<sigma>" "ls_ends \<sigma> k = None"
  shows "lim_inv (\<sigma>\<lparr>ls_ends := (ls_ends \<sigma>)(k \<mapsto> ciad_init)\<rparr>)"
proof -
  have "own_key (ls_pcs \<sigma> u) \<noteq> Some k" for u using assms unfolding lim_inv_def by metis
  then have "plays (end_role k (ls_pcs \<sigma> u)) u ciad_init" for u by (simp add: plays_init end_role_def)
  with assms ciad_reach_init show ?thesis by (auto simp: lim_inv_def simp del: plays.simps)
qed

lemma start_inv:
  assumes "lim_inv \<sigma>" "ls_pcs \<sigma> t = LStart k"
  shows "lim_inv (goto t (LEndPoll k) (\<sigma>\<lparr>ls_ends :=
    (case ls_ends \<sigma> k of Some _ \<Rightarrow> ls_ends \<sigma> | None \<Rightarrow> (ls_ends \<sigma>)(k \<mapsto> ciad_init))\<rparr>))"
    (is "lim_inv (goto t _ ?\<tau>)")
proof -
  have inv: "lim_inv ?\<tau>" using assms(1) new_end_inv by (cases "ls_ends \<sigma> k") auto
  have "end_role k' (LEndPoll k) = end_role k' (ls_pcs ?\<tau> t)" for k'
    using assms(2) by (simp add: end_role_def)
  moreover have "host_role (LEndPoll k) = host_role (ls_pcs ?\<tau> t)" using assms(2) by simp
  moreover have "ls_ends ?\<tau> k \<noteq> None" by (simp split: option.split)
  ultimately show ?thesis
    using inv_host [OF inv, of t] inv_end [OF inv, of _ _ t]
    by (intro goto_inv [OF inv]) (auto simp del: plays.simps)
qed

lemma end_poll_inv:
  assumes inv: "lim_inv \<sigma>" and pc: "ls_pcs \<sigma> t = LEndPoll k \<or> ls_pcs \<sigma> t = LEndWait k"
    and st: "on_end k (\<lambda>_. CPoll t w t) (\<lambda>s. if has_slot t s then LEndEnter k else LEndWait k) t \<sigma> = Some (Inr \<sigma>')"
  shows "lim_inv \<sigma>'"
proof -
  from st obtain c s where c: "ls_ends \<sigma> k = Some c" and s: "ciad_step (CPoll t w t) c = Some (Inr s)"
    and s': "\<sigma>' = goto t (if has_slot t s then LEndEnter k else LEndWait k) (\<sigma>\<lparr>ls_ends := (ls_ends \<sigma>)(k \<mapsto> s)\<rparr>)"
    by (auto simp: on_end_Inr)
  have r: "end_role k (ls_pcs \<sigma> t) = Outside \<or> end_role k (ls_pcs \<sigma> t) = Queued"
    and key: "own_key (ls_pcs \<sigma> t) = Some k" using pc by (auto simp: end_role_def)
  have "plays Outside t (ls_host \<sigma>)" using inv_host [OF inv, of t] pc by (auto simp del: plays.simps)
  with poll_role [OF _ _ r s] inv_end [OF inv c, of t] show ?thesis unfolding s'
    by (intro end_move_inv [OF inv c s _ key]) (auto simp: end_role_def simp del: plays.simps)
qed

lemma host_poll_inv:
  assumes inv: "lim_inv \<sigma>" and pc: "ls_pcs \<sigma> t = LHostPoll k \<or> ls_pcs \<sigma> t = LHostWait k"
    and st: "on_host (CPoll t w t) (\<lambda>s. if has_slot t s then LHostEnter k else LHostWait k) t \<sigma> = Some (Inr \<sigma>')"
  shows "lim_inv \<sigma>'"
proof -
  from st obtain s where s: "ciad_step (CPoll t w t) (ls_host \<sigma>) = Some (Inr s)"
    and s': "\<sigma>' = goto t (if has_slot t s then LHostEnter k else LHostWait k) (\<sigma>\<lparr>ls_host := s\<rparr>)"
    by (auto simp: on_host_Inr)
  have r: "host_role (ls_pcs \<sigma> t) = Outside \<or> host_role (ls_pcs \<sigma> t) = Queued" using pc by auto
  from poll_role [OF _ _ r s] inv_host [OF inv, of t] pc show ?thesis unfolding s'
    by (intro host_move_inv [OF inv s]) (auto simp: end_role_def simp del: plays.simps)
qed

lemma lim_run_inv:
  assumes inv: "lim_inv \<sigma>" and st: "lim_run t w (ls_pcs \<sigma> t) \<sigma> = Some (Inr \<sigma>')"
  shows "lim_inv \<sigma>'"
proof -
  note h = inv_host [OF inv, of t] and e = inv_end [OF inv, of _ _ t]
  note [simp del] = plays.simps
  show ?thesis
  proof (cases "ls_pcs \<sigma> t")
    case (LStart k)
    with st start_inv [OF inv LStart] show ?thesis by auto
  next
    case (LEndPoll k)
    with st show ?thesis by (auto intro: end_poll_inv [OF inv])
  next
    case (LEndWait k)
    with st show ?thesis by (auto intro: end_poll_inv [OF inv])
  next
    case (LEndEnter k)
    with st obtain c s where c: "ls_ends \<sigma> k = Some c" and s: "ciad_step (CEnter t) c = Some (Inr s)"
      and s': "\<sigma>' = goto t (LHostPoll k) (\<sigma>\<lparr>ls_ends := (ls_ends \<sigma>)(k \<mapsto> s)\<rparr>)"
      by (auto simp: on_end_Inr)
    show ?thesis unfolding s' using LEndEnter e [OF c] h enter_role [OF _ s]
      by (intro end_move_inv [OF inv c s]) (auto simp: end_role_def)
  next
    case (LHostPoll k)
    with st show ?thesis by (auto intro: host_poll_inv [OF inv])
  next
    case (LHostWait k)
    with st show ?thesis by (auto intro: host_poll_inv [OF inv])
  next
    case (LHostEnter k)
    with st obtain s where s: "ciad_step (CEnter t) (ls_host \<sigma>) = Some (Inr s)"
      and s': "\<sigma>' = goto t (LHeld k) (\<sigma>\<lparr>ls_host := s\<rparr>)"
      by (auto simp: on_host_Inr)
    show ?thesis unfolding s' using LHostEnter h enter_role [OF _ s]
      by (intro host_move_inv [OF inv s]) (auto simp: end_role_def)
  next
    case (LEndDrop both k)
    with st obtain c s where c: "ls_ends \<sigma> k = Some c" and s: "ciad_step (next_drop t c) c = Some (Inr s)"
      and s': "\<sigma>' = goto t (if has_slot t s then LEndDrop both k else if both then LHostDrop k else LIdle)
        (\<sigma>\<lparr>ls_ends := (ls_ends \<sigma>)(k \<mapsto> s)\<rparr>)"
      by (auto simp: on_end_Inr)
    show ?thesis unfolding s' using LEndDrop e [OF c] h leave_role [OF _ s] holding_leaves [of t "ls_host \<sigma>"]
      by (intro end_move_inv [OF inv c s]) (auto simp: end_role_def split: if_splits)
  next
    case (LHostDrop k)
    with st obtain s where s: "ciad_step (next_drop t (ls_host \<sigma>)) (ls_host \<sigma>) = Some (Inr s)"
      and s': "\<sigma>' = goto t (if has_slot t s then LHostDrop k else LIdle) (\<sigma>\<lparr>ls_host := s\<rparr>)"
      by (auto simp: on_host_Inr)
    show ?thesis unfolding s' using LHostDrop h leave_role [OF _ s]
      by (intro host_move_inv [OF inv s]) (auto simp: end_role_def split: if_splits)
  qed (use st in auto)
qed

lemma lim_step_inv:
  fixes E :: "'e error_api"
  assumes inv: "lim_inv \<sigma>" and st: "lim_step H E ev \<sigma> = Some (Inr \<sigma>')"
  shows "lim_inv \<sigma>'"
proof -
  note h = inv_host [OF inv] and e = inv_end [OF inv]
  note [simp del] = plays.simps
  show ?thesis
  proof (cases ev)
    case (LimCall t k)
    then have pc: "ls_pcs \<sigma> t = LIdle" and s': "\<sigma>' = goto t (LStart k) \<sigma>"
      using st by (auto split: if_splits)
    show ?thesis unfolding s' using pc h [of t] e [of _ _ t]
      by (intro goto_inv [OF inv]) (auto simp: end_role_def)
  next
    case (LimRun t w)
    with st lim_run_inv [OF inv] show ?thesis by simp
  next
    case (LimResponse t r)
    with st obtain k \<tau> where pc: "ls_pcs \<sigma> t = LHeld k"
      and 1: "on_end k (\<lambda>_. CRespond t (response_mode H E EndpointLevel r)) (\<lambda>_. LHeld k) t \<sigma> = Some (Inr \<tau>)"
      and 2: "on_host (CRespond t (response_mode H E HostLevel r)) (\<lambda>_. LHeld k) t \<tau> = Some (Inr \<sigma>')"
      by (auto split: lim_pc.splits option.splits sum.splits)
    from 1 obtain c s where c: "ls_ends \<sigma> k = Some c"
      and s: "ciad_step (CRespond t (response_mode H E EndpointLevel r)) c = Some (Inr s)"
      and \<tau>: "\<tau> = goto t (LHeld k) (\<sigma>\<lparr>ls_ends := (ls_ends \<sigma>)(k \<mapsto> s)\<rparr>)"
      by (auto simp: on_end_Inr simp del: ciad_step.simps)
    have inv': "lim_inv \<tau>" unfolding \<tau> using pc e [OF c, of t] h [of t] respond_role [OF _ s]
      by (intro end_move_inv [OF inv c s]) (auto simp: end_role_def simp del: ciad_step.simps)
    from 2 obtain u where u: "ciad_step (CRespond t (response_mode H E HostLevel r)) (ls_host \<tau>) = Some (Inr u)"
      and s': "\<sigma>' = goto t (LHeld k) (\<tau>\<lparr>ls_host := u\<rparr>)"
      by (auto simp: on_host_Inr simp del: ciad_step.simps)
    have "ls_pcs \<tau> t = LHeld k" by (simp add: \<tau>)
    then show ?thesis unfolding s' using inv_host [OF inv', of t] respond_role [OF _ u]
      by (intro host_move_inv [OF inv' u]) auto
  next
    case (LimGiveBack t)
    then obtain k where pc: "ls_pcs \<sigma> t = LHeld k" and s': "\<sigma>' = goto t (LEndDrop True k) \<sigma>"
      using st by (auto split: lim_pc.splits)
    have "plays (end_role k' (LEndDrop True k)) t c" if "ls_ends \<sigma> k' = Some c" for k' c
      using e [OF that, of t] pc by (auto simp: end_role_def intro: holding_leaves)
    moreover have "ls_ends \<sigma> k \<noteq> None" using inv pc by (auto simp: lim_inv_def dest: spec [of _ t])
    ultimately show ?thesis unfolding s' using pc h [of t]
      by (intro goto_inv [OF inv]) auto
  next
    case (LimCancel t)
    then consider k where "ls_pcs \<sigma> t = LStart k" "\<sigma>' = goto t LIdle \<sigma>"
      | k where "ls_pcs \<sigma> t = LEndWait k" "on_end k (\<lambda>_. CCancel t) (\<lambda>_. LIdle) t \<sigma> = Some (Inr \<sigma>')"
      | k where "ls_pcs \<sigma> t = LHostWait k" "on_host (CCancel t) (\<lambda>_. LEndDrop False k) t \<sigma> = Some (Inr \<sigma>')"
      using st by (auto split: lim_pc.splits)
    then show ?thesis
    proof cases
      case (1 k)
      then show ?thesis using h [of t] e [of _ _ t]
        by (auto simp: end_role_def intro!: goto_inv [OF inv])
    next
      case (2 k)
      then obtain c s where c: "ls_ends \<sigma> k = Some c" and s: "ciad_step (CCancel t) c = Some (Inr s)"
        and s': "\<sigma>' = goto t LIdle (\<sigma>\<lparr>ls_ends := (ls_ends \<sigma>)(k \<mapsto> s)\<rparr>)"
        by (auto simp: on_end_Inr simp del: ciad_step.simps)
      show ?thesis unfolding s' using 2(1) e [OF c, of t] h [of t] cancel_role [OF _ _ s]
        by (intro end_move_inv [OF inv c s]) (auto simp: end_role_def)
    next
      case (3 k)
      then obtain s where s: "ciad_step (CCancel t) (ls_host \<sigma>) = Some (Inr s)"
        and s': "\<sigma>' = goto t (LEndDrop False k) (\<sigma>\<lparr>ls_host := s\<rparr>)"
        by (auto simp: on_host_Inr simp del: ciad_step.simps)
      show ?thesis unfolding s' using 3(1) h [of t] cancel_role [OF _ _ s]
        by (intro host_move_inv [OF inv s]) (auto simp: end_role_def intro: holding_leaves)
    qed
  qed
qed

lemma lim_reachable_inv: "lim_reachable H E \<sigma> \<Longrightarrow> lim_inv \<sigma>"
  by (induction rule: lim_reachable.induct) (auto intro: lim_init_inv lim_step_inv)

subsection \<open>Who holds what\<close>

lemma host_sets:
  assumes "lim_inv \<sigma>"
  shows "dom (holders (ls_host \<sigma>)) = {t. keeps_role (host_role (ls_pcs \<sigma> t))}"
    and "waiters (semaphore (cs_ciad (ls_host \<sigma>))) = {t. host_role (ls_pcs \<sigma> t) = Queued}"
  by (rule played_sets; use inv_host [OF assms] in blast)+

lemma end_sets:
  assumes "lim_inv \<sigma>" "ls_ends \<sigma> k = Some c"
  shows "dom (holders c) = {t. keeps_role (end_role k (ls_pcs \<sigma> t))}"
    and "waiters (semaphore (cs_ciad c)) = {t. end_role k (ls_pcs \<sigma> t) = Queued}"
  by (rule played_sets; use inv_end [OF assms] in blast)+

fun resting :: "lim_pc \<Rightarrow> bool" where
  "resting LIdle \<longleftrightarrow> True"
| "resting (LEndWait _) \<longleftrightarrow> True"
| "resting (LHostWait _) \<longleftrightarrow> True"
| "resting (LHeld _) \<longleftrightarrow> True"
| "resting _ \<longleftrightarrow> False"

lemma resting_roles:
  assumes "resting pc"
  shows "keeps_role (host_role pc) \<longleftrightarrow> (\<exists>k. pc = LHeld k)"
    and "keeps_role (host_role pc) \<Longrightarrow> host_role pc = Holding"
    and "keeps_role (end_role k pc) \<longleftrightarrow> pc = LHeld k \<or> pc = LHostWait k"
    and "keeps_role (end_role k pc) \<Longrightarrow> end_role k pc = Holding"
    and "host_role pc = Queued \<longleftrightarrow> (\<exists>k. pc = LHostWait k)"
    and "end_role k pc = Queued \<longleftrightarrow> pc = LEndWait k"
  using assms by (cases pc rule: resting.cases; simp add: end_role_def keeps_role_def split: if_splits)+

text \<open>A limiter none of whose holders has begun its drop.\<close>

definition settled :: "ciad_sys \<Rightarrow> bool" where
  "settled c \<longleftrightarrow> (\<forall>t \<in> dom (holders c). plays Holding t c)"

lemma settled_counts:
  assumes "ciad_reachable c" "settled c"
  shows "in_flight (cs_ciad c) = outstanding_permits (semaphore (cs_ciad c))"
    and "int (unat (total_permits (semaphore (cs_ciad c)))) = \<lfloor>limit (cs_ciad c)\<rfloor>"
    and "1 \<le> \<lfloor>limit (cs_ciad c)\<rfloor>"
proof -
  note inv = ciad_reachable_inv [OF assms(1)]
  have held: "\<exists>p. holders c t = Some (p, Held)" if "t \<in> dom (holders c)" for t
    using assms(2) that by (auto simp: settled_def)
  then have "counted c = dom (holders c)" by (auto simp: counted_def)
  then have "in_flight (cs_ciad c) = of_nat (unat (outstanding_permits (semaphore (cs_ciad c))))"
    using ciad_in_flight [OF assms(1)] inv by (simp add: ciad_inv_def)
  then show "in_flight (cs_ciad c) = outstanding_permits (semaphore (cs_ciad c))" by simp
  have "owed c = 0" using held by (force simp: owed_def intro: sum.neutral)
  with inv show "int (unat (total_permits (semaphore (cs_ciad c)))) = \<lfloor>limit (cs_ciad c)\<rfloor>"
    "1 \<le> \<lfloor>limit (cs_ciad c)\<rfloor>"
    by (simp_all add: ciad_inv_def limit_ok_def)
qed

lemma host_settled:
  assumes "lim_inv \<sigma>" "\<And>t. resting (ls_pcs \<sigma> t)"
  shows "settled (ls_host \<sigma>)"
  unfolding settled_def
proof
  fix t assume "t \<in> dom (holders (ls_host \<sigma>))"
  then show "plays Holding t (ls_host \<sigma>)"
    using host_sets(1) [OF assms(1)] resting_roles(2) [OF assms(2), of t] inv_host [OF assms(1), of t] by auto
qed

lemma end_settled:
  assumes "lim_inv \<sigma>" "\<And>t. resting (ls_pcs \<sigma> t)" "ls_ends \<sigma> k = Some c"
  shows "settled c"
  unfolding settled_def
proof
  fix t assume "t \<in> dom (holders c)"
  then show "plays Holding t c"
    using end_sets(1) [OF assms(1,3)] resting_roles(4) [OF assms(2), of k t] inv_end [OF assms(1,3), of t] by auto
qed

definition all_limiters :: "lim_sys \<Rightarrow> ciad_sys set" where
  "all_limiters \<sigma> = insert (ls_host \<sigma>) (ran (ls_ends \<sigma>))"

lemma idle_limiter:
  assumes "lim_inv \<sigma>" "\<And>t. ls_pcs \<sigma> t = LIdle" "c \<in> all_limiters \<sigma>"
  shows "ciad_reachable c \<and> holders c = Map.empty \<and> waiters (semaphore (cs_ciad c)) = {} \<and> settled c"
proof -
  consider "c = ls_host \<sigma>" | k where "ls_ends \<sigma> k = Some c"
    using assms(3) by (auto simp: all_limiters_def ran_def)
  then have "ciad_reachable c" "dom (holders c) = {}" "waiters (semaphore (cs_ciad c)) = {}"
    using host_sets(1) [OF assms(1)] host_sets(2) [OF assms(1)] inv_host [OF assms(1)]
      end_sets(1) [OF assms(1)] end_sets(2) [OF assms(1)] inv_end [OF assms(1)] assms(2)
    by (cases; simp add: keeps_role_def end_role_def)+
  then show ?thesis by (simp add: settled_def)
qed

lemma limiter_exact:
  assumes inv: "lim_inv \<sigma>"
  shows "unat (outstanding_permits (semaphore (cs_ciad (ls_host \<sigma>)))) =
      card {t. keeps_role (host_role (ls_pcs \<sigma> t))}"
    and "ls_ends \<sigma> k = Some c \<Longrightarrow>
      unat (outstanding_permits (semaphore (cs_ciad c))) = card {t. keeps_role (end_role k (ls_pcs \<sigma> t))}"
  using ciad_reachable_inv inv_host [OF inv] inv_end [OF inv] host_sets(1) [OF inv] end_sets(1) [OF inv]
  by (auto simp: ciad_inv_def)

text \<open>C12: Permits are conserved through the whole life of every request, under any interleaving of any
  number of them and with cancellation at any await: the host's outstanding permits are exactly the
  requests that hold a host permit, and each endpoint's are those that hold one of its permits, the
  ones still waiting for the host among them. Whenever no request stands inside an acquire or a drop,
  each limiter's in-flight counter equals its outstanding permits and its semaphore's total is the
  integer part of its limit; and once no request is under way, nothing is checked out and nobody is
  queued anywhere.\<close>

theorem limiter_permits_exact:
  assumes "lim_reachable H E \<sigma>"
  shows "unat (outstanding_permits (semaphore (cs_ciad (ls_host \<sigma>)))) =
      card {t. keeps_role (host_role (ls_pcs \<sigma> t))} \<and>
    (\<forall>k c. ls_ends \<sigma> k = Some c \<longrightarrow>
      unat (outstanding_permits (semaphore (cs_ciad c))) = card {t. keeps_role (end_role k (ls_pcs \<sigma> t))}) \<and>
    ((\<forall>t. resting (ls_pcs \<sigma> t)) \<longrightarrow> (\<forall>c \<in> all_limiters \<sigma>.
      in_flight (cs_ciad c) = outstanding_permits (semaphore (cs_ciad c)) \<and>
      int (unat (total_permits (semaphore (cs_ciad c)))) = \<lfloor>limit (cs_ciad c)\<rfloor>)) \<and>
    ((\<forall>t. ls_pcs \<sigma> t = LIdle) \<longrightarrow> (\<forall>c \<in> all_limiters \<sigma>.
      outstanding_permits (semaphore (cs_ciad c)) = 0 \<and> in_flight (cs_ciad c) = 0 \<and>
      waiters (semaphore (cs_ciad c)) = {}))"
proof -
  have inv: "lim_inv \<sigma>" by (rule lim_reachable_inv [OF assms])
  have rest: "in_flight (cs_ciad c) = outstanding_permits (semaphore (cs_ciad c)) \<and>
      int (unat (total_permits (semaphore (cs_ciad c)))) = \<lfloor>limit (cs_ciad c)\<rfloor>"
    if r: "\<forall>t. resting (ls_pcs \<sigma> t)" "c \<in> all_limiters \<sigma>" for c
  proof -
    have "ciad_reachable c \<and> settled c"
      using r host_settled [OF inv] end_settled [OF inv] inv_host [OF inv] inv_end [OF inv]
      by (auto simp: all_limiters_def ran_def)
    then show ?thesis using settled_counts by blast
  qed
  have "outstanding_permits (semaphore (cs_ciad c)) = 0 \<and> in_flight (cs_ciad c) = 0 \<and>
      waiters (semaphore (cs_ciad c)) = {}"
    if r: "\<forall>t. ls_pcs \<sigma> t = LIdle" "c \<in> all_limiters \<sigma>" for c
  proof -
    note c = idle_limiter [OF inv r(1) [rule_format] r(2)]
    then have "unat (outstanding_permits (semaphore (cs_ciad c))) = 0"
      using ciad_reachable_inv [of c] by (simp add: ciad_inv_def)
    then have "outstanding_permits (semaphore (cs_ciad c)) = 0" by (simp add: unat_eq_0)
    with c settled_counts(1) [of c] show ?thesis by simp
  qed
  with rest limiter_exact [OF inv] show ?thesis by blast
qed

subsection \<open>Waiting requests get through\<close>

definition was_woken :: "nat \<Rightarrow> ciad_sys \<Rightarrow> bool" where
  "was_woken t c \<longleftrightarrow>
     (case nodes (semaphore (cs_ciad c)) t of Some nd \<Rightarrow> nd_waker nd = None | None \<Rightarrow> False)"

definition moves_on :: "http_api \<Rightarrow> 'e error_api \<Rightarrow> lim_sys \<Rightarrow> nat \<Rightarrow> lim_pc \<Rightarrow> bool" where
  "moves_on H E \<sigma> t pc \<longleftrightarrow>
     (\<forall>w. \<exists>\<sigma>'. lim_step H E (LimRun t w) \<sigma> = Some (Inr \<sigma>') \<and> ls_pcs \<sigma>' t = pc)"

lemma settled_grants:
  assumes "ciad_reachable c" "settled c" "int (card (dom (holders c))) < \<lfloor>limit (cs_ciad c)\<rfloor>"
    and "waiters (semaphore (cs_ciad c)) \<noteq> {}" "dom (holders c) \<inter> waiters (semaphore (cs_ciad c)) = {}"
  shows "\<exists>t \<in> waiters (semaphore (cs_ciad c)). was_woken t c \<and>
    (\<forall>w. \<exists>s. ciad_step (CPoll t w t) c = Some (Inr s) \<and> has_slot t s)"
proof -
  have "card (dom (holders c)) < unat (total_permits (semaphore (cs_ciad c)))"
    using assms(3) settled_counts(2) [OF assms(1,2)] by linarith
  from view_head_grants [OF ciad_view [OF assms(1)] this assms(4)]
  obtain h nd where h: "h \<in> waiters (semaphore (cs_ciad c))" "nodes (semaphore (cs_ciad c)) h = Some nd"
    "nd_waker nd = None" "\<forall>w. \<exists>s'. acquire_poll h w (semaphore (cs_ciad c)) = Inr (Ready (), s')" by blast
  have "h \<notin> dom (holders c)" using h(1) assms(5) by blast
  then have "\<exists>s. ciad_step (CPoll h w h) c = Some (Inr s) \<and> has_slot h s" for w
    using h(4) [rule_format, of w] by (auto simp: has_slot_def)
  moreover have "was_woken h c" using h by (simp add: was_woken_def)
  ultimately show ?thesis using h(1) by blast
qed

lemma host_grants:
  assumes inv: "lim_inv \<sigma>" and rest: "\<And>t. resting (ls_pcs \<sigma> t)"
    and few: "int (card {t. \<exists>k. ls_pcs \<sigma> t = LHeld k}) < \<lfloor>limit (cs_ciad (ls_host \<sigma>))\<rfloor>"
    and w: "ls_pcs \<sigma> t = LHostWait k"
  shows "\<exists>u j. ls_pcs \<sigma> u = LHostWait j \<and> was_woken u (ls_host \<sigma>) \<and> moves_on H E \<sigma> u (LHostEnter j)"
proof -
  note sets = host_sets [OF inv] and roles = resting_roles [OF rest]
  have dom: "dom (holders (ls_host \<sigma>)) = {t. \<exists>k. ls_pcs \<sigma> t = LHeld k}"
    and wait: "waiters (semaphore (cs_ciad (ls_host \<sigma>))) = {t. \<exists>k. ls_pcs \<sigma> t = LHostWait k}"
    using sets roles(1,5) by simp_all
  have "waiters (semaphore (cs_ciad (ls_host \<sigma>))) \<noteq> {}"
    "dom (holders (ls_host \<sigma>)) \<inter> waiters (semaphore (cs_ciad (ls_host \<sigma>))) = {}"
    unfolding dom wait using w by auto
  from settled_grants [OF conjunct1 [OF inv_host [OF inv]] host_settled [OF inv rest] few [folded dom] this]
  obtain u where "u \<in> waiters (semaphore (cs_ciad (ls_host \<sigma>)))" and wk: "was_woken u (ls_host \<sigma>)"
    and g: "\<And>w. \<exists>s. ciad_step (CPoll u w u) (ls_host \<sigma>) = Some (Inr s) \<and> has_slot u s"
    by blast
  then obtain j where u: "ls_pcs \<sigma> u = LHostWait j" unfolding wait by blast
  have "\<exists>\<sigma>'. lim_step H E (LimRun u w) \<sigma> = Some (Inr \<sigma>') \<and> ls_pcs \<sigma>' u = LHostEnter j" for w
    using g [of w] by (auto simp: u on_host_def simp del: ciad_step.simps)
  then have "moves_on H E \<sigma> u (LHostEnter j)" unfolding moves_on_def by blast
  with u wk show ?thesis by blast
qed

lemma end_grants:
  assumes inv: "lim_inv \<sigma>" and rest: "\<And>t. resting (ls_pcs \<sigma> t)" and c: "ls_ends \<sigma> k = Some c"
    and few: "int (card {t. ls_pcs \<sigma> t = LHeld k \<or> ls_pcs \<sigma> t = LHostWait k}) < \<lfloor>limit (cs_ciad c)\<rfloor>"
    and w: "ls_pcs \<sigma> t = LEndWait k"
  shows "\<exists>u. ls_pcs \<sigma> u = LEndWait k \<and> was_woken u c \<and> moves_on H E \<sigma> u (LEndEnter k)"
proof -
  note sets = end_sets [OF inv c] and roles = resting_roles [OF rest]
  have dom: "dom (holders c) = {t. ls_pcs \<sigma> t = LHeld k \<or> ls_pcs \<sigma> t = LHostWait k}"
    and wait: "waiters (semaphore (cs_ciad c)) = {t. ls_pcs \<sigma> t = LEndWait k}"
    using sets roles(3,6) by simp_all
  have "waiters (semaphore (cs_ciad c)) \<noteq> {}" "dom (holders c) \<inter> waiters (semaphore (cs_ciad c)) = {}"
    unfolding dom wait using w by auto
  from settled_grants [OF conjunct1 [OF inv_end [OF inv c]] end_settled [OF inv rest c] few [folded dom] this]
  obtain u where "u \<in> waiters (semaphore (cs_ciad c))" and wk: "was_woken u c"
    and g: "\<And>w. \<exists>s. ciad_step (CPoll u w u) c = Some (Inr s) \<and> has_slot u s"
    by blast
  then have u: "ls_pcs \<sigma> u = LEndWait k" unfolding wait by blast
  have "\<exists>\<sigma>'. lim_step H E (LimRun u w) \<sigma> = Some (Inr \<sigma>') \<and> ls_pcs \<sigma>' u = LEndEnter k" for w
    using g [of w] by (auto simp: u c on_end_def simp del: ciad_step.simps)
  then have "moves_on H E \<sigma> u (LEndEnter k)" unfolding moves_on_def by blast
  with u wk show ?thesis by blast
qed

lemma host_limit_pos: "lim_inv \<sigma> \<Longrightarrow> (\<And>t. resting (ls_pcs \<sigma> t)) \<Longrightarrow> 1 \<le> \<lfloor>limit (cs_ciad (ls_host \<sigma>))\<rfloor>"
  using settled_counts(3) host_settled inv_host by blast

lemma end_limit_pos:
  "lim_inv \<sigma> \<Longrightarrow> (\<And>t. resting (ls_pcs \<sigma> t)) \<Longrightarrow> ls_ends \<sigma> k = Some c \<Longrightarrow> 1 \<le> \<lfloor>limit (cs_ciad c)\<rfloor>"
  using settled_counts(3) end_settled inv_end by blast

lemma own_limiter: "lim_inv \<sigma> \<Longrightarrow> own_key (ls_pcs \<sigma> t) = Some k \<Longrightarrow> \<exists>c. ls_ends \<sigma> k = Some c"
  unfolding lim_inv_def by blast

lemma someone_grants:
  assumes inv: "lim_inv \<sigma>" and rest: "\<And>t. resting (ls_pcs \<sigma> t)" and none: "\<And>t k. ls_pcs \<sigma> t \<noteq> LHeld k"
    and w: "ls_pcs \<sigma> t \<noteq> LIdle"
  shows "\<exists>u k. ls_pcs \<sigma> u = LHostWait k \<and> was_woken u (ls_host \<sigma>) \<and> moves_on H E \<sigma> u (LHostEnter k) \<or>
    ls_pcs \<sigma> u = LEndWait k \<and> was_woken u (the (ls_ends \<sigma> k)) \<and> moves_on H E \<sigma> u (LEndEnter k)"
proof (cases "\<exists>u j. ls_pcs \<sigma> u = LHostWait j")
  case True
  then obtain u j where "ls_pcs \<sigma> u = LHostWait j" by blast
  with host_grants [OF inv rest _ this, of H E] host_limit_pos [OF inv rest] none show ?thesis by auto
next
  case False
  with w none rest [of t] obtain k where k: "ls_pcs \<sigma> t = LEndWait k"
    by (cases "ls_pcs \<sigma> t") auto
  obtain c where c: "ls_ends \<sigma> k = Some c" using own_limiter [OF inv, of t k] k by auto
  from end_limit_pos [OF inv rest c] none False
  have "int (card {t. ls_pcs \<sigma> t = LHeld k \<or> ls_pcs \<sigma> t = LHostWait k}) < \<lfloor>limit (cs_ciad c)\<rfloor>" by simp
  from end_grants [OF inv rest c this k, of H E] c show ?thesis by (metis option.sel)
qed

text \<open>C13: No request waits for capacity that is there, and requests never wait for one another in a
  circle: whenever every request is at an await or holds its permit, if fewer requests hold a host
  permit than the integer part of the host's limit, then some request waiting for the host has been
  woken and its next poll gets the permit, and likewise at every endpoint. So if no request holds its
  permit and one is waiting anywhere, one that is waiting has been woken and gets through when polled,
  though requests wait for the host while keeping their endpoint's permit.\<close>

theorem limiter_no_deadlock:
  assumes "lim_reachable H E \<sigma>" and "\<forall>t. resting (ls_pcs \<sigma> t)"
  shows "((\<exists>t k. ls_pcs \<sigma> t = LHostWait k) \<longrightarrow>
      int (card {t. \<exists>k. ls_pcs \<sigma> t = LHeld k}) < \<lfloor>limit (cs_ciad (ls_host \<sigma>))\<rfloor> \<longrightarrow>
      (\<exists>t k. ls_pcs \<sigma> t = LHostWait k \<and> was_woken t (ls_host \<sigma>) \<and> moves_on H E \<sigma> t (LHostEnter k))) \<and>
    (\<forall>k c. ls_ends \<sigma> k = Some c \<longrightarrow> (\<exists>t. ls_pcs \<sigma> t = LEndWait k) \<longrightarrow>
      int (card {t. ls_pcs \<sigma> t = LHeld k \<or> ls_pcs \<sigma> t = LHostWait k}) < \<lfloor>limit (cs_ciad c)\<rfloor> \<longrightarrow>
      (\<exists>t. ls_pcs \<sigma> t = LEndWait k \<and> was_woken t c \<and> moves_on H E \<sigma> t (LEndEnter k))) \<and>
    ((\<forall>t k. ls_pcs \<sigma> t \<noteq> LHeld k) \<longrightarrow> (\<exists>t. ls_pcs \<sigma> t \<noteq> LIdle) \<longrightarrow>
      (\<exists>t k. ls_pcs \<sigma> t = LHostWait k \<and> was_woken t (ls_host \<sigma>) \<and> moves_on H E \<sigma> t (LHostEnter k) \<or>
         ls_pcs \<sigma> t = LEndWait k \<and> was_woken t (the (ls_ends \<sigma> k)) \<and> moves_on H E \<sigma> t (LEndEnter k)))"
proof -
  have inv: "lim_inv \<sigma>" by (rule lim_reachable_inv [OF assms(1)])
  note rest = assms(2) [rule_format]
  show ?thesis
    using host_grants [OF inv rest, where H = H and E = E] end_grants [OF inv rest, where H = H and E = E]
      someone_grants [OF inv rest, where H = H and E = E]
    by (intro conjI allI impI; blast)
qed

subsection \<open>A crowded limiter\<close>

text \<open>
  Twenty requests to one endpoint take all its permits and all the host's, the next one queues at the
  endpoint, and then the twenty give their permits back. The states of this run witness the hypotheses
  of the theorems above.
\<close>

definition demo_key :: endpoint_key where
  "demo_key = \<lparr>ep_method = ''GET'', ep_pattern = ''/foo''\<rparr>"

definition crowd :: "nat \<Rightarrow> sem \<Rightarrow> ciad_sys" where
  "crowd n s =
     \<lparr>cs_ciad = \<lparr>semaphore = s, limit = 20, in_flight = of_nat n\<rparr>,
      holders = (\<lambda>i. if i < n
        then Some (\<lparr>in_flight_snapshot = of_nat i + 1, permit_mode = Ignore\<rparr>, Held) else None)\<rparr>"

definition crowd_sys :: "nat \<Rightarrow> lim_sys" where
  "crowd_sys n =
     \<lparr>ls_host = crowd n (idle_sem 20 (of_nat n)),
      ls_ends = (if n = 0 then Map.empty else [demo_key \<mapsto> crowd n (idle_sem 20 (of_nat n))]),
      ls_pcs = (\<lambda>i. if i < n then LHeld demo_key else LIdle)\<rparr>"

definition waiting_sem :: "nat \<Rightarrow> sem" where
  "waiting_sem n =
     \<lparr>total_permits = 20, outstanding_permits = of_nat n, head = Some 20, tail = Some 20,
      nodes = [20 \<mapsto> \<lparr>nd_waker = (if n = 20 then Some 9 else None), nd_next = None, nd_prev = None\<rparr>],
      woken = (if n = 20 then [] else [9])\<rparr>"

definition waiting_sys :: "nat \<Rightarrow> lim_sys" where
  "waiting_sys n =
     \<lparr>ls_host = crowd n (idle_sem 20 (of_nat n)), ls_ends = [demo_key \<mapsto> crowd n (waiting_sem n)],
      ls_pcs = (\<lambda>i. if i < n then LHeld demo_key else if i = 20 then LEndWait demo_key else LIdle)\<rparr>"

fun lim_exec ::
  "http_api \<Rightarrow> 'e error_api \<Rightarrow> 'e lim_event list \<Rightarrow> lim_sys \<Rightarrow> (sem_fault + lim_sys) option" where
  "lim_exec H E [] \<sigma> = Some (Inr \<sigma>)"
| "lim_exec H E (ev # evs) \<sigma> =
     (case lim_step H E ev \<sigma> of Some (Inr \<sigma>') \<Rightarrow> lim_exec H E evs \<sigma>' | x \<Rightarrow> x)"

lemma lim_exec_reachable:
  "lim_reachable H E \<sigma> \<Longrightarrow> lim_exec H E evs \<sigma> = Some (Inr \<sigma>') \<Longrightarrow> lim_reachable H E \<sigma>'"
  by (induction evs arbitrary: \<sigma>) (auto split: option.splits sum.splits intro: lim_reach_step)

lemma crowd_empty: "crowd 0 (idle_sem 20 0) = ciad_init" "ciad_init = crowd 0 (idle_sem 20 0)"
  by (simp_all add: crowd_def idle_sem_def ciad_init_def ciad_new_def sem_new_def limit_consts)
    (simp_all add: INITIAL_LIMIT_def)

lemma crowd_start: "crowd_sys 0 = lim_init"
  by (simp add: crowd_sys_def lim_init_def crowd_empty(1))

lemma crowd_poll:
  assumes "n < 20"
  shows "ciad_step (CPoll n w n) (crowd n (idle_sem 20 (of_nat n))) =
      Some (Inr ((crowd n (idle_sem 20 (of_nat n + 1)))\<lparr>holders :=
        (holders (crowd n (idle_sem 20 (of_nat n))))(n \<mapsto> (blank_permit, Granted))\<rparr>))"
proof -
  have "(of_nat n :: usize) < 20" using assms by (simp add: word_less_nat_alt unat_of_nat)
  then show ?thesis
    by (simp add: acquire_poll_def crowd_def idle_sem_def has_permits_def domIff)
qed

lemma crowd_enter:
  "ciad_step (CEnter n) ((crowd n s)\<lparr>holders :=
      (holders (crowd n s'))(n \<mapsto> (blank_permit, Granted))\<rparr>) = Some (Inr (crowd (Suc n) s))"
  by (auto simp: crowd_def ciad_enter_def less_Suc_eq fun_eq_iff add.commute)

lemma crowd_grow:
  assumes "n < 20"
  shows "lim_exec H E [LimCall n demo_key, LimRun n w, LimRun n w, LimRun n w, LimRun n w, LimRun n w]
      (crowd_sys n) = Some (Inr (crowd_sys (Suc n)))"
proof -
  define c where "c = crowd n (idle_sem 20 (of_nat n))"
  define c1 where "c1 = (crowd n (idle_sem 20 (of_nat n + 1)))\<lparr>holders := (holders c)(n \<mapsto> (blank_permit, Granted))\<rparr>"
  define c2 where "c2 = crowd (Suc n) (idle_sem 20 (of_nat n + 1))"
  have st: "ciad_step (CPoll n w n) c = Some (Inr c1)" "ciad_step (CEnter n) c1 = Some (Inr c2)"
    using crowd_poll [OF assms] crowd_enter by (simp_all add: c_def c1_def c2_def)
  have slot: "has_slot n c1" by (simp add: has_slot_def c1_def)
  define pcs where "pcs = (\<lambda>i. if i < n then LHeld demo_key else LIdle)"
  have pcs: "pcs n = LIdle" "(\<lambda>i. if i < Suc n then LHeld demo_key else LIdle) = pcs(n := LHeld demo_key)"
    by (auto simp: pcs_def fun_eq_iff less_Suc_eq)
  have post: "crowd_sys (Suc n) = \<lparr>ls_host = c2, ls_ends = [demo_key \<mapsto> c2], ls_pcs = pcs(n := LHeld demo_key)\<rparr>"
    by (simp add: crowd_sys_def c2_def pcs(2) add.commute)
  have pre: "crowd_sys n = \<lparr>ls_host = c, ls_ends = e, ls_pcs = pcs\<rparr>"
    if "e = (if n = 0 then Map.empty else [demo_key \<mapsto> c])" for e
    using that by (simp add: crowd_sys_def c_def pcs_def)
  note run = st slot pcs(1) on_end_def on_host_def goto_def
  show ?thesis
  proof (cases "n = 0")
    case True
    then have i: "ciad_init = c" by (simp add: c_def crowd_empty(1))
    have "crowd_sys n = \<lparr>ls_host = c, ls_ends = Map.empty, ls_pcs = pcs\<rparr>" by (rule pre) (simp add: True)
    then show ?thesis unfolding post by (simp add: run i del: ciad_step.simps)
  next
    case False
    have "crowd_sys n = \<lparr>ls_host = c, ls_ends = [demo_key \<mapsto> c], ls_pcs = pcs\<rparr>" by (rule pre) (simp add: False)
    then show ?thesis unfolding post by (simp add: run del: ciad_step.simps)
  qed
qed

lemma crowd_reachable: "n \<le> 20 \<Longrightarrow> lim_reachable H E (crowd_sys n)"
proof (induction n)
  case 0
  show ?case unfolding crowd_start by (rule lim_reach_init)
next
  case (Suc n)
  from lim_exec_reachable [OF Suc.IH crowd_grow [where w = 0]] Suc.prems show ?case by simp
qed

lemma crowd_wait:
  "lim_exec H E [LimCall 20 demo_key, LimRun 20 9, LimRun 20 9] (crowd_sys 20) = Some (Inr (waiting_sys 20))"
proof -
  have "ciad_step (CPoll 20 9 20) (crowd 20 (idle_sem 20 20)) = Some (Inr (crowd 20 (waiting_sem 20)))"
    by (simp add: acquire_poll_def crowd_def idle_sem_def has_permits_def waiting_sem_def domIff prog_defs)
  moreover have "\<not> has_slot 20 (crowd 20 (waiting_sem 20))" by (simp add: has_slot_def crowd_def)
  ultimately show ?thesis
    by (simp add: crowd_sys_def waiting_sys_def on_end_def goto_def fun_eq_iff del: ciad_step.simps)
qed

lemma give_back_count:
  "ciad_step (CDrop n) (crowd (Suc n) s) = Some (Inr ((crowd n s)\<lparr>holders :=
     (holders (crowd n s))(n \<mapsto> (\<lparr>in_flight_snapshot = of_nat n + 1, permit_mode = Ignore\<rparr>, Releasing))\<rparr>))"
  by (simp add: crowd_def fun_eq_iff less_Suc_eq)

lemma give_back_release:
  assumes "permit_drop s = Inr s'"
  shows "ciad_step (CRelease n) ((crowd n s)\<lparr>holders :=
     (holders (crowd n s))(n \<mapsto> (p, Releasing))\<rparr>) = Some (Inr (crowd n s'))"
  using assms by (simp add: crowd_def fun_eq_iff)

lemma give_back_sems:
  assumes "n < 20"
  shows "permit_drop (idle_sem 20 (of_nat (Suc n))) = Inr (idle_sem 20 (of_nat n))"
    and "permit_drop (waiting_sem (Suc n)) = Inr (waiting_sem n)"
proof -
  have "unat (of_nat (Suc n) :: usize) = Suc n" "(of_nat n :: usize) < 20"
    using assms by (simp_all add: word_less_nat_alt unat_of_nat del: of_nat_Suc)
  then have c: "checked_sub (of_nat (Suc n) :: usize) 1 = Some (of_nat n)" "(of_nat n :: usize) < 20"
    by (simp_all add: checked_sub_def word_le_nat_alt)
  show "permit_drop (idle_sem 20 (of_nat (Suc n))) = Inr (idle_sem 20 (of_nat n))"
    using c by (simp add: permit_drop_def idle_sem_def maybe_wake_def)
  show "permit_drop (waiting_sem (Suc n)) = Inr (waiting_sem n)"
    using c assms by (simp add: permit_drop_def waiting_sem_def maybe_wake_def has_permits_def deref_def
        set_node_def)
qed

lemma give_back_one:
  fixes n :: nat
  assumes "permit_drop s = Inr s'"
  defines "c1 \<equiv> (crowd n s)\<lparr>holders := (holders (crowd n s))(n \<mapsto>
    (\<lparr>in_flight_snapshot = of_nat n + 1, permit_mode = Ignore\<rparr>, Releasing))\<rparr>"
  shows "next_drop n (crowd (Suc n) s) = CDrop n" "ciad_step (CDrop n) (crowd (Suc n) s) = Some (Inr c1)"
    "has_slot n c1" "next_drop n c1 = CRelease n" "ciad_step (CRelease n) c1 = Some (Inr (crowd n s'))"
    "\<not> has_slot n (crowd n s')"
  using give_back_count [of n s] give_back_release [OF assms(1)]
  by (simp_all add: c1_def next_drop_def has_slot_def del: ciad_step.simps) (simp_all add: crowd_def)

lemma crowd_shrink:
  assumes "n < 20"
  shows "lim_exec H E [LimGiveBack n, LimRun n w, LimRun n w, LimRun n w, LimRun n w] (waiting_sys (Suc n)) =
    Some (Inr (waiting_sys n))"
proof -
  define pcs where "pcs = ls_pcs (waiting_sys (Suc n))"
  have pre: "waiting_sys (Suc n) = \<lparr>ls_host = crowd (Suc n) (idle_sem 20 (of_nat (Suc n))),
      ls_ends = [demo_key \<mapsto> crowd (Suc n) (waiting_sem (Suc n))], ls_pcs = pcs\<rparr>"
    by (simp add: waiting_sys_def pcs_def)
  have post: "waiting_sys n = \<lparr>ls_host = crowd n (idle_sem 20 (of_nat n)),
      ls_ends = [demo_key \<mapsto> crowd n (waiting_sem n)], ls_pcs = pcs(n := LIdle)\<rparr>"
    and here: "pcs n = LHeld demo_key"
    using assms by (auto simp: waiting_sys_def pcs_def fun_eq_iff)
  note h = give_back_one [OF give_back_sems(1) [OF assms]] and e = give_back_one [OF give_back_sems(2) [OF assms]]
  show ?thesis unfolding pre post
    by (simp add: here h e on_end_def on_host_def goto_def del: ciad_step.simps of_nat_Suc)
qed

lemma waiting_reachable: "n \<le> 20 \<Longrightarrow> lim_reachable H E (waiting_sys n)"
proof (induction "20 - n" arbitrary: n)
  case 0
  then have "n = 20" by simp
  then show ?case using lim_exec_reachable [OF crowd_reachable crowd_wait] by simp
next
  case (Suc m)
  then have "lim_reachable H E (waiting_sys (Suc n))" "n < 20" by auto
  from lim_exec_reachable [OF this(1) crowd_shrink [OF this(2), where w = 0]] show ?case .
qed

theorem limiter_permits_exact_witness:
  "lim_reachable std_http std_errors (crowd_sys 3) \<and>
   card {t. keeps_role (host_role (ls_pcs (crowd_sys 3) t))} = 3"
proof -
  have r: "lim_reachable std_http std_errors (crowd_sys 3)" by (rule crowd_reachable) simp
  have "unat (outstanding_permits (semaphore (cs_ciad (ls_host (crowd_sys 3))))) = 3"
    by (simp add: crowd_sys_def crowd_def idle_sem_def)
  with limiter_permits_exact [OF r] r show ?thesis by simp
qed

theorem limiter_no_deadlock_witness:
  "lim_reachable std_http std_errors (waiting_sys 0) \<and>
   (\<exists>t. ls_pcs (waiting_sys 0) t = LEndWait demo_key \<and> was_woken t (the (ls_ends (waiting_sys 0) demo_key)) \<and>
      moves_on std_http std_errors (waiting_sys 0) t (LEndEnter demo_key))"
proof -
  have r: "lim_reachable std_http std_errors (waiting_sys 0)" by (rule waiting_reachable) simp
  have pcs: "ls_pcs (waiting_sys 0) t = (if t = 20 then LEndWait demo_key else LIdle)" for t
    by (simp add: waiting_sys_def)
  have "\<forall>t. resting (ls_pcs (waiting_sys 0) t)" by (simp add: pcs)
  from limiter_no_deadlock [OF r this, THEN conjunct2, THEN conjunct2] r show ?thesis
    by (auto simp: pcs split: if_splits)
qed

end
