(* ===== verification/LimiterRuns.thy ===== *)
theory LimiterRuns
  imports LimiterSystem Node
begin

text \<open>
  The whole operations of \<open>Limiter\<close> against the atomic steps of \<open>LimiterSystem\<close>: \<open>limiter_poll\<close>,
  \<open>limiter_on_response\<close>, \<open>limiter_permit_drop\<close> and \<open>limiter_acquire_drop\<close> are what a task's steps
  do when no other task's step comes between them.
\<close>

definition lim_abs :: "lim_sys \<Rightarrow> limiter" where
  "lim_abs \<sigma> = \<lparr>host = cs_ciad (ls_host \<sigma>), endpoints = map_option cs_ciad \<circ> ls_ends \<sigma>\<rparr>"

definition permit_at :: "nat \<Rightarrow> ciad_sys \<Rightarrow> ciad_permit" where
  "permit_at t c = fst (the (holders c t))"

definition task_of :: "nat \<Rightarrow> lim_sys \<Rightarrow> (limiter_acquire + limiter_permit) option" where
  "task_of t \<sigma> =
     (case ls_pcs \<sigma> t of
        LStart k \<Rightarrow> Some (Inl (AcqStart k))
      | LEndWait k \<Rightarrow> Some (Inl (AcqEndpoint k))
      | LHostWait k \<Rightarrow> Some (Inl (AcqHost k (permit_at t (the (ls_ends \<sigma> k)))))
      | LHeld k \<Rightarrow>
          Some (Inr \<lparr>lp_key = k, lp_endpoint = permit_at t (the (ls_ends \<sigma> k)),
            lp_host = permit_at t (ls_host \<sigma>)\<rparr>)
      | _ \<Rightarrow> None)"

inductive lim_runs :: "nat \<Rightarrow> waker \<Rightarrow> lim_sys \<Rightarrow> lim_sys \<Rightarrow> bool" for t w where
  runs_refl: "lim_runs t w \<sigma> \<sigma>"
| runs_step: "lim_run t w (ls_pcs \<sigma> t) \<sigma> = Some (Inr \<sigma>1) \<Longrightarrow> lim_runs t w \<sigma>1 \<sigma>' \<Longrightarrow> lim_runs t w \<sigma> \<sigma>'"

lemma runs_trans: "lim_runs t w \<sigma> \<sigma>1 \<Longrightarrow> lim_runs t w \<sigma>1 \<sigma>2 \<Longrightarrow> lim_runs t w \<sigma> \<sigma>2"
  by (induction rule: lim_runs.induct) (auto intro: runs_step)

lemma runs_exec:
  "lim_runs t w \<sigma> \<sigma>' \<Longrightarrow> \<exists>n. lim_exec H E (replicate n (LimRun t w)) \<sigma> = Some (Inr \<sigma>')"
proof (induction rule: lim_runs.induct)
  case (runs_refl \<sigma>)
  have "lim_exec H E (replicate 0 (LimRun t w)) \<sigma> = Some (Inr \<sigma>)" by simp
  then show ?case by blast
next
  case (runs_step \<sigma> \<sigma>1 \<sigma>')
  then obtain n where "lim_exec H E (replicate n (LimRun t w)) \<sigma>1 = Some (Inr \<sigma>')" by blast
  with runs_step have "lim_exec H E (replicate (Suc n) (LimRun t w)) \<sigma> = Some (Inr \<sigma>')" by simp
  then show ?case by blast
qed

subsection \<open>At one limiter\<close>

lemma ciad_poll_cases:
  assumes "ciad_acquire_poll a w c = Inr (r, x)"
  obtains s where "r = Pending" "acquire_poll a w (semaphore c) = Inr (Pending, s)" "x = c\<lparr>semaphore := s\<rparr>"
  | p s where "r = Ready p" "acquire_poll a w (semaphore c) = Inr (Ready (), s)"
      "ciad_enter (c\<lparr>semaphore := s\<rparr>) = (p, x)"
proof -
  from assms obtain u s where u: "acquire_poll a w (semaphore c) = Inr (u, s)"
    by (auto simp: ciad_acquire_poll_def and_then_Inr_iff)
  show thesis
  proof (cases u)
    case (Ready v)
    with assms u that(2) show ?thesis by (simp add: ciad_acquire_poll_def) (auto split: prod.splits)
  next
    case Pending
    with assms u that(1) show ?thesis by (simp add: ciad_acquire_poll_def)
  qed
qed

lemma poll_pending:
  assumes "holders c t = None" "ciad_acquire_poll t w (cs_ciad c) = Inr (Pending, x)"
  shows "ciad_step (CPoll t w t) c = Some (Inr (c\<lparr>cs_ciad := x\<rparr>))"
  using assms(2) by (rule ciad_poll_cases) (simp_all add: assms(1) domIff)

lemma poll_ready:
  assumes "holders c t = None" "ciad_acquire_poll t w (cs_ciad c) = Inr (Ready p, x)"
  shows "\<exists>c1. ciad_step (CPoll t w t) c = Some (Inr c1) \<and> has_slot t c1 \<and>
    ciad_step (CEnter t) c1 = Some (Inr (c\<lparr>cs_ciad := x, holders := (holders c)(t \<mapsto> (p, Held))\<rparr>))"
  using assms(2) by (rule ciad_poll_cases) (simp_all add: assms(1) domIff has_slot_def)

inductive drops :: "nat \<Rightarrow> ciad_sys \<Rightarrow> ciad_sys \<Rightarrow> bool" for t where
  drops_last: "ciad_step (next_drop t c) c = Some (Inr c') \<Longrightarrow> \<not> has_slot t c' \<Longrightarrow> drops t c c'"
| drops_more: "ciad_step (next_drop t c) c = Some (Inr c1) \<Longrightarrow> has_slot t c1 \<Longrightarrow> drops t c1 c' \<Longrightarrow>
    drops t c c'"

lemma drops_releasing:
  assumes "holders c t = Some (p, Releasing)" "permit_drop (semaphore (cs_ciad c)) = Inr s"
  shows "drops t c (c\<lparr>cs_ciad := (cs_ciad c)\<lparr>semaphore := s\<rparr>, holders := (holders c)(t := None)\<rparr>)"
  using assms by (intro drops_last) (simp_all add: next_drop_def has_slot_def)

lemma drops_updating:
  assumes "holders c t = Some (p, Updating pc)" "upd_step (permit_update p) pc (cs_ciad c) = Inr (pc', x)"
    and "drops t (c\<lparr>cs_ciad := x, holders := (holders c)(t \<mapsto>
      (p, if pc' = UpdDone then Releasing else Updating pc'))\<rparr>) c'"
  shows "drops t c c'"
  using assms(1,2) by (intro drops_more [OF _ _ assms(3)]) (simp_all add: next_drop_def has_slot_def)

lemma drops_update:
  assumes h: "holders c t = Some (p, Updating UpdStart)"
    and u: "update_limit (permit_update p) (cs_ciad c) = Inr x" and d: "permit_drop (semaphore x) = Inr s"
  shows "drops t c (c\<lparr>cs_ciad := x\<lparr>semaphore := s\<rparr>, holders := (holders c)(t := None)\<rparr>)"
proof -
  let ?c = "\<lambda>y pc. c\<lparr>cs_ciad := y, holders := (holders c)(t \<mapsto> (p, pc))\<rparr>"
  have rel: "drops t (?c x Releasing) (c\<lparr>cs_ciad := x\<lparr>semaphore := s\<rparr>, holders := (holders c)(t := None)\<rparr>)"
    using drops_releasing [of "?c x Releasing" t p s] d by simp
  have retry: "drops t (?c (cs_ciad c) (Updating (UpdTry (limit (cs_ciad c)))))
      (c\<lparr>cs_ciad := x\<lparr>semaphore := s\<rparr>, holders := (holders c)(t := None)\<rparr>)"
  proof (cases "permit_update p (limit (cs_ciad c))")
    case None
    with u have "x = cs_ciad c" by (simp add: update_limit_eq)
    with rel have rel: "drops t (?c (cs_ciad c) Releasing)
      (c\<lparr>cs_ciad := x\<lparr>semaphore := s\<rparr>, holders := (holders c)(t := None)\<rparr>)" by simp
    show ?thesis
      by (rule drops_updating [where pc' = UpdDone and x = "cs_ciad c"]) (use None rel in auto)
  next
    case (Some l)
    let ?y = "(cs_ciad c)\<lparr>limit := l\<rparr>"
    from Some u have a: "adjust_permits (limit (cs_ciad c)) l ?y = Inr x" by (simp add: update_limit_eq)
    have adj: "drops t (?c ?y (Updating (UpdAdjust (limit (cs_ciad c)) l)))
      (c\<lparr>cs_ciad := x\<lparr>semaphore := s\<rparr>, holders := (holders c)(t := None)\<rparr>)"
      by (rule drops_updating [where pc' = UpdDone and x = x]) (use a rel in auto)
    show ?thesis
      by (rule drops_updating [where pc = "UpdTry (limit (cs_ciad c))" and pc' = "UpdAdjust (limit (cs_ciad c)) l"
        and x = ?y and p = p]) (use Some adj in simp_all)
  qed
  show ?thesis
    by (rule drops_updating [OF h, where pc' = "UpdTry (limit (cs_ciad c))" and x = "cs_ciad c"]) (use retry in simp_all)
qed

lemma drops_permit:
  assumes h: "holders c t = Some (p, Held)" and d: "ciad_permit_drop p (cs_ciad c) = Inr x"
  shows "drops t c (c\<lparr>cs_ciad := x, holders := (holders c)(t := None)\<rparr>)"
proof -
  let ?y = "(cs_ciad c)\<lparr>in_flight := in_flight (cs_ciad c) - 1\<rparr>"
  let ?c = "c\<lparr>cs_ciad := ?y, holders := (holders c)(t \<mapsto>
    (p, if permit_mode p = Ignore then Releasing else Updating UpdStart))\<rparr>"
  from d obtain z s where z: "update_limit (permit_update p) ?y = Inr z" "permit_drop (semaphore z) = Inr s"
    and x: "x = z\<lparr>semaphore := s\<rparr>"
    by (auto simp: ciad_permit_drop_eq and_then_Inr_iff)
  have "drops t ?c (c\<lparr>cs_ciad := x, holders := (holders c)(t := None)\<rparr>)"
  proof (cases "permit_mode p = Ignore")
    case True
    then have "z = ?y" using z(1) by (simp add: permit_update_def update_limit_eq)
    with drops_releasing [of ?c t p s] True z x show ?thesis by simp
  next
    case False
    with drops_update [of ?c t p z s] z x show ?thesis by simp
  qed
  moreover have "ciad_step (next_drop t c) c = Some (Inr ?c)" using h by (simp add: next_drop_def)
  moreover have "has_slot t ?c" by (simp add: has_slot_def)
  ultimately show ?thesis by (blast intro: drops_more)
qed

subsection \<open>At the node's limiter\<close>

lemma abs_simps [simp]:
  "lim_abs (goto t pc \<sigma>) = lim_abs \<sigma>"
  "lim_abs (\<sigma>\<lparr>ls_host := s\<rparr>) = (lim_abs \<sigma>)\<lparr>host := cs_ciad s\<rparr>"
  "lim_abs (\<sigma>\<lparr>ls_ends := (ls_ends \<sigma>)(k \<mapsto> s)\<rparr>) =
     (lim_abs \<sigma>)\<lparr>endpoints := (endpoints (lim_abs \<sigma>))(k \<mapsto> cs_ciad s)\<rparr>"
  "host (lim_abs \<sigma>) = cs_ciad (ls_host \<sigma>)"
  "endpoints (lim_abs \<sigma>) k = map_option cs_ciad (ls_ends \<sigma> k)"
  by (auto simp: lim_abs_def goto_def)

lemma runs_two:
  "lim_run t w (ls_pcs \<sigma> t) \<sigma> = Some (Inr \<sigma>1) \<Longrightarrow> lim_run t w (ls_pcs \<sigma>1 t) \<sigma>1 = Some (Inr \<sigma>2) \<Longrightarrow>
   lim_runs t w \<sigma> \<sigma>2"
  by (blast intro: runs_step runs_refl)

lemma runs_one: "lim_run t w (ls_pcs \<sigma> t) \<sigma> = Some (Inr \<sigma>1) \<Longrightarrow> lim_runs t w \<sigma> \<sigma>1"
  by (blast intro: runs_step runs_refl)

lemma poll_host_runs:
  assumes pc: "ls_pcs \<sigma> t = LHostPoll k \<or> ls_pcs \<sigma> t = LHostWait k" and h: "holders (ls_host \<sigma>) t = None"
    and st: "poll_host t w k (permit_at t (the (ls_ends \<sigma> k))) (lim_abs \<sigma>) = Inr (r, l')"
  shows "\<exists>\<sigma>'. lim_runs t w \<sigma> \<sigma>' \<and> lim_abs \<sigma>' = l' \<and> task_of t \<sigma>' = Some r"
proof -
  let ?ep = "permit_at t (the (ls_ends \<sigma> k))"
  from st obtain u x where u: "ciad_acquire_poll t w (cs_ciad (ls_host \<sigma>)) = Inr (u, x)"
    by (auto simp: poll_host_def and_then_Inr_iff)
  show ?thesis
  proof (cases u)
    case Pending
    from poll_pending [OF h u [unfolded Pending]]
    have s: "ciad_step (CPoll t w t) (ls_host \<sigma>) = Some (Inr ((ls_host \<sigma>)\<lparr>cs_ciad := x\<rparr>))" .
    let ?s = "goto t (LHostWait k) (\<sigma>\<lparr>ls_host := (ls_host \<sigma>)\<lparr>cs_ciad := x\<rparr>\<rparr>)"
    have "lim_runs t w \<sigma> ?s"
      by (rule runs_one) (use pc s h in \<open>auto simp: on_host_def has_slot_def simp del: ciad_step.simps\<close>)
    moreover have "r = Inl (AcqHost k ?ep)" "l' = lim_abs ?s"
      using st u Pending by (simp_all add: poll_host_def)
    ultimately show ?thesis by (auto simp: task_of_def)
  next
    case (Ready p)
    from poll_ready [OF h u [unfolded Ready]] obtain c1 where
      c: "ciad_step (CPoll t w t) (ls_host \<sigma>) = Some (Inr c1)" "has_slot t c1"
      "ciad_step (CEnter t) c1 = Some (Inr ((ls_host \<sigma>)\<lparr>cs_ciad := x, holders := (holders (ls_host \<sigma>))(t \<mapsto> (p, Held))\<rparr>))"
      by blast
    let ?s1 = "goto t (LHostEnter k) (\<sigma>\<lparr>ls_host := c1\<rparr>)"
    let ?c2 = "(ls_host \<sigma>)\<lparr>cs_ciad := x, holders := (holders (ls_host \<sigma>))(t \<mapsto> (p, Held))\<rparr>"
    let ?s2 = "goto t (LHeld k) (?s1\<lparr>ls_host := ?c2\<rparr>)"
    have "lim_runs t w \<sigma> ?s2"
      by (rule runs_two [where ?\<sigma>1.0 = ?s1])
        (use pc c in \<open>auto simp: on_host_def simp del: ciad_step.simps\<close>)
    moreover have "r = Inr \<lparr>lp_key = k, lp_endpoint = ?ep, lp_host = p\<rparr>" "l' = lim_abs ?s2"
      using st u Ready by (simp_all add: poll_host_def)
    moreover have "task_of t ?s2 = Some (Inr \<lparr>lp_key = k, lp_endpoint = ?ep, lp_host = p\<rparr>)"
      by (simp add: task_of_def permit_at_def)
    ultimately show ?thesis by blast
  qed
qed

lemma poll_endpoint_runs:
  assumes pc: "ls_pcs \<sigma> t = LEndPoll k \<or> ls_pcs \<sigma> t = LEndWait k" and h: "holders (ls_host \<sigma>) t = None"
    and c: "ls_ends \<sigma> k = Some c" and e: "holders c t = None"
    and st: "poll_endpoint t w k (lim_abs \<sigma>) = Inr (r, l')"
  shows "\<exists>\<sigma>'. lim_runs t w \<sigma> \<sigma>' \<and> lim_abs \<sigma>' = l' \<and> task_of t \<sigma>' = Some r"
proof -
  from st c obtain u x where u: "ciad_acquire_poll t w (cs_ciad c) = Inr (u, x)"
    by (auto simp: poll_endpoint_def and_then_Inr_iff)
  show ?thesis
  proof (cases u)
    case Pending
    from poll_pending [OF e u [unfolded Pending]]
    have s: "ciad_step (CPoll t w t) c = Some (Inr (c\<lparr>cs_ciad := x\<rparr>))" .
    let ?s = "goto t (LEndWait k) (\<sigma>\<lparr>ls_ends := (ls_ends \<sigma>)(k \<mapsto> c\<lparr>cs_ciad := x\<rparr>)\<rparr>)"
    have "lim_runs t w \<sigma> ?s"
      by (rule runs_one) (use pc s c e in \<open>auto simp: on_end_def has_slot_def simp del: ciad_step.simps\<close>)
    moreover have "r = Inl (AcqEndpoint k)" "l' = lim_abs ?s"
      using st c u Pending by (simp_all add: poll_endpoint_def)
    ultimately show ?thesis by (auto simp: task_of_def)
  next
    case (Ready p)
    from poll_ready [OF e u [unfolded Ready]] obtain c1 where
      s: "ciad_step (CPoll t w t) c = Some (Inr c1)" "has_slot t c1"
      "ciad_step (CEnter t) c1 = Some (Inr (c\<lparr>cs_ciad := x, holders := (holders c)(t \<mapsto> (p, Held))\<rparr>))"
      by blast
    let ?s1 = "goto t (LEndEnter k) (\<sigma>\<lparr>ls_ends := (ls_ends \<sigma>)(k \<mapsto> c1)\<rparr>)"
    let ?c2 = "c\<lparr>cs_ciad := x, holders := (holders c)(t \<mapsto> (p, Held))\<rparr>"
    let ?s2 = "goto t (LHostPoll k) (?s1\<lparr>ls_ends := (ls_ends ?s1)(k \<mapsto> ?c2)\<rparr>)"
    have two: "lim_runs t w \<sigma> ?s2"
      by (rule runs_two [where ?\<sigma>1.0 = ?s1])
        (use pc c s in \<open>auto simp: on_end_def simp del: ciad_step.simps\<close>)
    have abs: "lim_abs ?s2 = (lim_abs \<sigma>)\<lparr>endpoints := (endpoints (lim_abs \<sigma>))(k \<mapsto> x)\<rparr>"
      by (simp add: lim_abs_def goto_def fun_eq_iff)
    have "permit_at t (the (ls_ends ?s2 k)) = p" by (simp add: permit_at_def)
    with st c u Ready have "poll_host t w k (permit_at t (the (ls_ends ?s2 k))) (lim_abs ?s2) = Inr (r, l')"
      unfolding abs by (simp add: poll_endpoint_def)
    from poll_host_runs [OF _ _ this] h obtain \<sigma>' where
      "lim_runs t w ?s2 \<sigma>'" "lim_abs \<sigma>' = l'" "task_of t \<sigma>' = Some r" by auto
    with runs_trans [OF two] show ?thesis by blast
  qed
qed

lemma limiter_poll_runs:
  assumes inv: "lim_inv \<sigma>" and f: "task_of t \<sigma> = Some (Inl f)"
    and st: "limiter_poll t w f (lim_abs \<sigma>) = Inr (r, l')"
  shows "\<exists>\<sigma>'. lim_runs t w \<sigma> \<sigma>' \<and> lim_abs \<sigma>' = l' \<and> task_of t \<sigma>' = Some r"
proof -
  note hr = inv_host [OF inv, of t] and er = inv_end [OF inv, of _ _ t]
  from f consider (start) k where "ls_pcs \<sigma> t = LStart k" "f = AcqStart k"
    | (ep) k where "ls_pcs \<sigma> t = LEndWait k" "f = AcqEndpoint k"
    | (hst) k where "ls_pcs \<sigma> t = LHostWait k" "f = AcqHost k (permit_at t (the (ls_ends \<sigma> k)))"
    by (auto simp: task_of_def split: lim_pc.splits)
  then show ?thesis
  proof cases
    case (start k)
    let ?s = "goto t (LEndPoll k) (\<sigma>\<lparr>ls_ends :=
      (case ls_ends \<sigma> k of Some _ \<Rightarrow> ls_ends \<sigma> | None \<Rightarrow> (ls_ends \<sigma>)(k \<mapsto> ciad_init))\<rparr>)"
    have one: "lim_runs t w \<sigma> ?s" by (rule runs_one) (simp add: start)
    have inv': "lim_inv ?s" by (rule start_inv [OF inv start(1)])
    have abs: "lim_abs ?s = entry_or_new k (lim_abs \<sigma>)"
      by (auto simp: entry_or_new_def ciad_init_def lim_abs_def goto_def fun_eq_iff split: option.split)
    obtain c where c: "ls_ends ?s k = Some c" using own_limiter [OF inv', of t k] by auto
    have "holders c t = None" using inv_end [OF inv' c, of t] by (simp add: end_role_def)
    moreover have "holders (ls_host ?s) t = None" using hr start by simp
    ultimately obtain \<sigma>' where "lim_runs t w ?s \<sigma>'" "lim_abs \<sigma>' = l'" "task_of t \<sigma>' = Some r"
      using poll_endpoint_runs [OF _ _ c, of t w r l'] st start abs by auto
    with runs_trans [OF one] show ?thesis by blast
  next
    case (ep k)
    obtain c where c: "ls_ends \<sigma> k = Some c" using own_limiter [OF inv, of t k] ep by auto
    have "holders c t = None" using er [OF c] ep by (simp add: end_role_def)
    then show ?thesis using poll_endpoint_runs [OF _ _ c] hr ep st by auto
  next
    case (hst k)
    then show ?thesis using poll_host_runs [of \<sigma> t k w r l'] hr st by auto
  qed
qed

subsection \<open>Giving permits back\<close>

lemma drops_end_runs:
  assumes "drops t c c'" "ls_pcs \<sigma> t = LEndDrop both k" "ls_ends \<sigma> k = Some c"
  shows "lim_runs t w \<sigma>
    (goto t (if both then LHostDrop k else LIdle) (\<sigma>\<lparr>ls_ends := (ls_ends \<sigma>)(k \<mapsto> c')\<rparr>))"
  using assms
proof (induction arbitrary: \<sigma>)
  case (drops_last c c')
  then show ?case by (intro runs_one) (simp add: on_end_def fun_upd_def)
next
  case (drops_more c c1 c')
  let ?s = "goto t (LEndDrop both k) (\<sigma>\<lparr>ls_ends := (ls_ends \<sigma>)(k \<mapsto> c1)\<rparr>)"
  have "lim_run t w (ls_pcs \<sigma> t) \<sigma> = Some (Inr ?s)" using drops_more by (simp add: on_end_def)
  moreover have "lim_runs t w ?s
      (goto t (if both then LHostDrop k else LIdle) (?s\<lparr>ls_ends := (ls_ends ?s)(k \<mapsto> c')\<rparr>))"
    by (rule drops_more.IH) simp_all
  moreover have "goto t pc (?s\<lparr>ls_ends := (ls_ends ?s)(k \<mapsto> c')\<rparr>) =
      goto t pc (\<sigma>\<lparr>ls_ends := (ls_ends \<sigma>)(k \<mapsto> c')\<rparr>)" for pc
    by (simp add: goto_def)
  ultimately show ?case by (metis runs_step)
qed

lemma drops_host_runs:
  assumes "drops t c c'" "ls_pcs \<sigma> t = LHostDrop k" "ls_host \<sigma> = c"
  shows "lim_runs t w \<sigma> (goto t LIdle (\<sigma>\<lparr>ls_host := c'\<rparr>))"
  using assms
proof (induction arbitrary: \<sigma>)
  case (drops_last c c')
  then show ?case by (intro runs_one) (simp add: on_host_def)
next
  case (drops_more c c1 c')
  let ?s = "goto t (LHostDrop k) (\<sigma>\<lparr>ls_host := c1\<rparr>)"
  have "lim_run t w (ls_pcs \<sigma> t) \<sigma> = Some (Inr ?s)" using drops_more by (simp add: on_host_def)
  moreover have "lim_runs t w ?s (goto t LIdle (?s\<lparr>ls_host := c'\<rparr>))"
    by (rule drops_more.IH) simp_all
  moreover have "goto t LIdle (?s\<lparr>ls_host := c'\<rparr>) = goto t LIdle (\<sigma>\<lparr>ls_host := c'\<rparr>)"
    by (simp add: goto_def)
  ultimately show ?case by (metis runs_step)
qed

lemma endpoint_drop_runs:
  assumes pc: "ls_pcs \<sigma> t = LEndDrop both k" and c: "ls_ends \<sigma> k = Some c" and h: "holders c t = Some (ep, Held)"
    and st: "endpoint_permit_drop k ep (lim_abs \<sigma>) = Inr l'"
  shows "\<exists>\<sigma>'. lim_runs t w \<sigma> \<sigma>' \<and> lim_abs \<sigma>' = l' \<and> ls_host \<sigma>' = ls_host \<sigma> \<and>
    ls_pcs \<sigma>' t = (if both then LHostDrop k else LIdle)"
proof -
  from st c obtain x where x: "ciad_permit_drop ep (cs_ciad c) = Inr x"
    and l': "l' = (lim_abs \<sigma>)\<lparr>endpoints := (endpoints (lim_abs \<sigma>))(k \<mapsto> x)\<rparr>"
    by (auto simp: endpoint_permit_drop_def and_then_Inr_iff)
  show ?thesis
    by (intro exI conjI, rule drops_end_runs [OF drops_permit [OF h x] pc c]) (simp_all add: l')
qed

lemma limiter_permit_drop_runs:
  assumes inv: "lim_inv \<sigma>" and p: "task_of t \<sigma> = Some (Inr p)"
    and st: "limiter_permit_drop p (lim_abs \<sigma>) = Inr l'"
  shows "\<exists>k \<sigma>'. ls_pcs \<sigma> t = LHeld k \<and> lim_runs t w (goto t (LEndDrop True k) \<sigma>) \<sigma>' \<and> lim_abs \<sigma>' = l' \<and>
    ls_pcs \<sigma>' t = LIdle"
proof -
  from p obtain k where k: "ls_pcs \<sigma> t = LHeld k" and pp: "p = \<lparr>lp_key = k,
      lp_endpoint = permit_at t (the (ls_ends \<sigma> k)), lp_host = permit_at t (ls_host \<sigma>)\<rparr>"
    by (auto simp: task_of_def split: lim_pc.splits)
  obtain c where c: "ls_ends \<sigma> k = Some c" using own_limiter [OF inv, of t k] k by auto
  obtain ep where ep: "holders c t = Some (ep, Held)" using inv_end [OF inv c, of t] k by (auto simp: end_role_def)
  obtain hp where hp: "holders (ls_host \<sigma>) t = Some (hp, Held)" using inv_host [OF inv, of t] k by auto
  have at: "permit_at t c = ep" "permit_at t (ls_host \<sigma>) = hp" using ep hp by (simp_all add: permit_at_def)
  from st c obtain l1 x where l1: "endpoint_permit_drop k ep (lim_abs \<sigma>) = Inr l1"
    and x: "ciad_permit_drop hp (host l1) = Inr x" and l': "l' = l1\<lparr>host := x\<rparr>"
    by (auto simp: limiter_permit_drop_def pp at and_then_Inr_iff)
  let ?s = "goto t (LEndDrop True k) \<sigma>"
  obtain \<sigma>1 where s1: "lim_runs t w ?s \<sigma>1" "lim_abs \<sigma>1 = l1" "ls_host \<sigma>1 = ls_host \<sigma>" "ls_pcs \<sigma>1 t = LHostDrop k"
    using endpoint_drop_runs [of ?s t True k c ep l1 w] c ep l1 by auto
  have "host l1 = cs_ciad (ls_host \<sigma>)" using s1 by auto
  with x have "drops t (ls_host \<sigma>) ((ls_host \<sigma>)\<lparr>cs_ciad := x, holders := (holders (ls_host \<sigma>))(t := None)\<rparr>)"
    using drops_permit [OF hp] by simp
  from drops_host_runs [OF this s1(4,3), of w] runs_trans [OF s1(1)] s1(2) l' k show ?thesis by fastforce
qed

lemma limiter_acquire_drop_runs:
  assumes inv: "lim_inv \<sigma>" and f: "task_of t \<sigma> = Some (Inl f)"
    and st: "limiter_acquire_drop t f (lim_abs \<sigma>) = Inr l'"
  shows "\<exists>\<sigma>1 \<sigma>'. lim_step H E (LimCancel t) \<sigma> = Some (Inr \<sigma>1) \<and> lim_runs t w \<sigma>1 \<sigma>' \<and> lim_abs \<sigma>' = l' \<and>
    ls_pcs \<sigma>' t = LIdle"
proof -
  from f consider (start) k where "ls_pcs \<sigma> t = LStart k" "f = AcqStart k"
    | (ep) k where "ls_pcs \<sigma> t = LEndWait k" "f = AcqEndpoint k"
    | (hst) k where "ls_pcs \<sigma> t = LHostWait k" "f = AcqHost k (permit_at t (the (ls_ends \<sigma> k)))"
    by (auto simp: task_of_def split: lim_pc.splits)
  then show ?thesis
  proof cases
    case (start k)
    with st have "lim_step H E (LimCancel t) \<sigma> = Some (Inr (goto t LIdle \<sigma>))" "lim_abs (goto t LIdle \<sigma>) = l'"
      by simp_all
    then show ?thesis by (metis runs_refl fun_upd_same goto_simps(3))
  next
    case (ep k)
    obtain c where c: "ls_ends \<sigma> k = Some c" using own_limiter [OF inv, of t k] ep by auto
    from st c ep obtain s where s: "acquire_drop t (semaphore (cs_ciad c)) = Inr s"
      and l': "l' = (lim_abs \<sigma>)\<lparr>endpoints := (endpoints (lim_abs \<sigma>))(k \<mapsto> (cs_ciad c)\<lparr>semaphore := s\<rparr>)\<rparr>"
      by (auto simp: and_then_Inr_iff)
    let ?s = "goto t LIdle (\<sigma>\<lparr>ls_ends := (ls_ends \<sigma>)(k \<mapsto> c\<lparr>cs_ciad := (cs_ciad c)\<lparr>semaphore := s\<rparr>\<rparr>)\<rparr>)"
    have "lim_step H E (LimCancel t) \<sigma> = Some (Inr ?s)" using ep c s by (simp add: on_end_def)
    moreover have "lim_abs ?s = l'" "ls_pcs ?s t = LIdle" by (simp_all add: l')
    ultimately show ?thesis using runs_refl by blast
  next
    case (hst k)
    obtain c where c: "ls_ends \<sigma> k = Some c" using own_limiter [OF inv, of t k] hst by auto
    obtain ep where ep: "holders c t = Some (ep, Held)"
      using inv_end [OF inv c, of t] hst by (auto simp: end_role_def)
    let ?u = "\<lambda>s. goto t (LEndDrop False k) (\<sigma>\<lparr>ls_host := (ls_host \<sigma>)\<lparr>cs_ciad := (cs_ciad (ls_host \<sigma>))\<lparr>semaphore := s\<rparr>\<rparr>\<rparr>)"
    from st c hst ep obtain s where s: "acquire_drop t (semaphore (cs_ciad (ls_host \<sigma>))) = Inr s"
      and d: "endpoint_permit_drop k ep (lim_abs (?u s)) = Inr l'"
      by (auto simp: and_then_Inr_iff permit_at_def)
    have "lim_step H E (LimCancel t) \<sigma> = Some (Inr (?u s))" using hst s by (simp add: on_host_def)
    moreover obtain \<sigma>' where "lim_runs t w (?u s) \<sigma>'" "lim_abs \<sigma>' = l'" "ls_pcs \<sigma>' t = LIdle"
      using endpoint_drop_runs [OF _ _ ep d, of False w] c by auto
    ultimately show ?thesis by blast
  qed
qed

lemma limiter_response_runs:
  assumes inv: "lim_inv \<sigma>" and p: "task_of t \<sigma> = Some (Inr p)"
  shows "\<exists>\<sigma>'. lim_step H E (LimResponse t r) \<sigma> = Some (Inr \<sigma>') \<and> lim_abs \<sigma>' = lim_abs \<sigma> \<and>
    task_of t \<sigma>' = Some (Inr (limiter_on_response H E r p))"
proof -
  from p obtain k where k: "ls_pcs \<sigma> t = LHeld k" and pp: "p = \<lparr>lp_key = k,
      lp_endpoint = permit_at t (the (ls_ends \<sigma> k)), lp_host = permit_at t (ls_host \<sigma>)\<rparr>"
    by (auto simp: task_of_def split: lim_pc.splits)
  obtain c where c: "ls_ends \<sigma> k = Some c" using own_limiter [OF inv, of t k] k by auto
  obtain ep where ep: "holders c t = Some (ep, Held)" using inv_end [OF inv c, of t] k by (auto simp: end_role_def)
  obtain hp where hp: "holders (ls_host \<sigma>) t = Some (hp, Held)" using inv_host [OF inv, of t] k by auto
  show ?thesis
    using k c ep hp
    by (simp add: on_end_def on_host_def task_of_def permit_at_def pp limiter_on_response_def response_mode_eq)
      (auto simp: lim_abs_def goto_def fun_eq_iff)
qed

lemma runs_exec_after:
  assumes "lim_step H E ev \<sigma> = Some (Inr \<sigma>1)" "lim_runs t w \<sigma>1 \<sigma>'"
  shows "\<exists>n. lim_exec H E (ev # replicate n (LimRun t w)) \<sigma> = Some (Inr \<sigma>')"
  using assms(1) runs_exec [OF assms(2), of H E] by simp

lemma give_back_step:
  "ls_pcs \<sigma> t = LHeld k \<Longrightarrow> lim_step H E (LimGiveBack t) \<sigma> = Some (Inr (goto t (LEndDrop True k) \<sigma>))"
  by simp

text \<open>C14: The limiter's operations are runs of its atomic steps: from any reachable state, one poll of
  a task's \<^verbatim>\<open>acquire\<close> future, the cancellation of that future, and the drop of a permit have exactly
  the effect of the task's steps taken one after another with nobody in between, and recording a
  response only rewrites the two modes the task's own permit carries. So what holds of every
  interleaving holds of the whole operations the node layer calls.\<close>

theorem limiter_ops_are_runs:
  assumes "lim_reachable H E \<sigma>"
  shows "(task_of t \<sigma> = Some (Inl f) \<longrightarrow> limiter_poll t w f (lim_abs \<sigma>) = Inr (r, l) \<longrightarrow>
      (\<exists>n \<sigma>'. lim_exec H E (replicate n (LimRun t w)) \<sigma> = Some (Inr \<sigma>') \<and>
         lim_abs \<sigma>' = l \<and> task_of t \<sigma>' = Some r)) \<and>
    (task_of t \<sigma> = Some (Inl f) \<longrightarrow> limiter_acquire_drop t f (lim_abs \<sigma>) = Inr l \<longrightarrow>
      (\<exists>n \<sigma>'. lim_exec H E (LimCancel t # replicate n (LimRun t w)) \<sigma> = Some (Inr \<sigma>') \<and>
         lim_abs \<sigma>' = l \<and> ls_pcs \<sigma>' t = LIdle)) \<and>
    (task_of t \<sigma> = Some (Inr p) \<longrightarrow> limiter_permit_drop p (lim_abs \<sigma>) = Inr l \<longrightarrow>
      (\<exists>n \<sigma>'. lim_exec H E (LimGiveBack t # replicate n (LimRun t w)) \<sigma> = Some (Inr \<sigma>') \<and>
         lim_abs \<sigma>' = l \<and> ls_pcs \<sigma>' t = LIdle)) \<and>
    (task_of t \<sigma> = Some (Inr p) \<longrightarrow>
      (\<exists>\<sigma>'. lim_step H E (LimResponse t e) \<sigma> = Some (Inr \<sigma>') \<and> lim_abs \<sigma>' = lim_abs \<sigma> \<and>
         task_of t \<sigma>' = Some (Inr (limiter_on_response H E e p))))"
proof -
  have inv: "lim_inv \<sigma>" by (rule lim_reachable_inv [OF assms])
  show ?thesis
  proof (intro conjI impI)
    assume "task_of t \<sigma> = Some (Inl f)" "limiter_poll t w f (lim_abs \<sigma>) = Inr (r, l)"
    from limiter_poll_runs [OF inv this] runs_exec [where H = H and E = E]
    show "\<exists>n \<sigma>'. lim_exec H E (replicate n (LimRun t w)) \<sigma> = Some (Inr \<sigma>') \<and> lim_abs \<sigma>' = l \<and>
      task_of t \<sigma>' = Some r" by blast
  next
    assume "task_of t \<sigma> = Some (Inl f)" "limiter_acquire_drop t f (lim_abs \<sigma>) = Inr l"
    from limiter_acquire_drop_runs [OF inv this, of H E w] runs_exec_after [where H = H and E = E]
    show "\<exists>n \<sigma>'. lim_exec H E (LimCancel t # replicate n (LimRun t w)) \<sigma> = Some (Inr \<sigma>') \<and> lim_abs \<sigma>' = l \<and>
      ls_pcs \<sigma>' t = LIdle" by blast
  next
    assume "task_of t \<sigma> = Some (Inr p)" "limiter_permit_drop p (lim_abs \<sigma>) = Inr l"
    from limiter_permit_drop_runs [OF inv this, of w] runs_exec_after [OF give_back_step, where H = H and E = E]
    show "\<exists>n \<sigma>'. lim_exec H E (LimGiveBack t # replicate n (LimRun t w)) \<sigma> = Some (Inr \<sigma>') \<and> lim_abs \<sigma>' = l \<and>
      ls_pcs \<sigma>' t = LIdle" by blast
  next
    assume "task_of t \<sigma> = Some (Inr p)"
    from limiter_response_runs [OF inv this, of H E e]
    show "\<exists>\<sigma>'. lim_step H E (LimResponse t e) \<sigma> = Some (Inr \<sigma>') \<and> lim_abs \<sigma>' = lim_abs \<sigma> \<and>
      task_of t \<sigma>' = Some (Inr (limiter_on_response H E e p))" .
  qed
qed

theorem limiter_ops_are_runs_witness:
  "\<exists>n p l \<sigma>'. lim_exec std_http std_errors (replicate n (LimRun 7 9)) (goto 7 (LStart demo_key) lim_init) =
     Some (Inr \<sigma>') \<and> limiter_poll 7 9 (AcqStart demo_key) limiter_new = Inr (Inr p, l) \<and>
     lim_abs \<sigma>' = l \<and> task_of 7 \<sigma>' = Some (Inr p)"
proof -
  let ?s = "goto 7 (LStart demo_key) lim_init"
  have "lim_step std_http std_errors (LimCall 7 demo_key) lim_init = Some (Inr ?s)"
    by (simp add: lim_init_def)
  from lim_reach_step [OF lim_reach_init this] have r: "lim_reachable std_http std_errors ?s" .
  have abs: "lim_abs ?s = limiter_new"
    by (simp add: lim_abs_def lim_init_def goto_def limiter_new_def ciad_init_def fun_eq_iff)
  have "task_of 7 ?s = Some (Inl (AcqStart demo_key))" by (simp add: task_of_def)
  moreover obtain p l where "limiter_poll 7 9 (AcqStart demo_key) limiter_new = Inr (Inr p, l)"
    using new_limiter_grants by blast
  ultimately show ?thesis
    using limiter_ops_are_runs [OF r, of 7 "AcqStart demo_key" 9 "Inr p" l] abs by auto
qed

end
