(* ===== verification/WeakCache.thy ===== *)
theory WeakCache
  imports Prelude
begin

text \<open>
  \<^verbatim>\<open>weak_cache.rs\<close>: a bounded cache of weak references, ordered by last use, whose entries remove
  themselves when the last strong reference goes away. \<^verbatim>\<open>LinkedHashMap\<close> is another crate's type: the
  operations the source calls are the fields of \<open>lhm_api\<close> and \<open>lhm_ok\<close> states their documented
  effect on the map's entries, oldest first.

  A cached value is identified by the id its evictor carries. \<open>wc_live\<close> are the values that are still
  strongly referenced, with their keys. When the last reference goes away the value dies first
  (\<open>weak_cache_die\<close>) and its evictor then takes the lock (\<open>weak_cache_evict\<close>); other threads may use
  the cache in between.
\<close>

record ('m, 'k) lhm_api =
  lhm_new :: 'm
  lhm_get :: "'m \<Rightarrow> 'k \<Rightarrow> nat option"
  lhm_get_refresh :: "'m \<Rightarrow> 'k \<Rightarrow> nat option \<times> 'm"
  lhm_insert :: "'m \<Rightarrow> 'k \<Rightarrow> nat \<Rightarrow> 'm"
  lhm_remove :: "'m \<Rightarrow> 'k \<Rightarrow> 'm"
  lhm_pop_front :: "'m \<Rightarrow> 'm"
  lhm_len :: "'m \<Rightarrow> nat"
  lhm_entries :: "'m \<Rightarrow> ('k \<times> nat) list"

definition del_key :: "'k \<Rightarrow> ('k \<times> 'v) list \<Rightarrow> ('k \<times> 'v) list" where
  "del_key k es = filter (\<lambda>(k', _). k' \<noteq> k) es"

definition lhm_ok :: "('m, 'k) lhm_api \<Rightarrow> bool" where
  "lhm_ok L \<longleftrightarrow>
     lhm_entries L (lhm_new L) = [] \<and>
     (\<forall>m k. lhm_get L m k = map_of (lhm_entries L m) k) \<and>
     (\<forall>m k. fst (lhm_get_refresh L m k) = map_of (lhm_entries L m) k \<and>
        lhm_entries L (snd (lhm_get_refresh L m k)) =
          (case map_of (lhm_entries L m) k of
             None \<Rightarrow> lhm_entries L m
           | Some v \<Rightarrow> del_key k (lhm_entries L m) @ [(k, v)])) \<and>
     (\<forall>m k v. lhm_entries L (lhm_insert L m k v) = del_key k (lhm_entries L m) @ [(k, v)]) \<and>
     (\<forall>m k. lhm_entries L (lhm_remove L m k) = del_key k (lhm_entries L m)) \<and>
     (\<forall>m. lhm_entries L (lhm_pop_front L m) = tl (lhm_entries L m)) \<and>
     (\<forall>m. lhm_len L m = length (lhm_entries L m))"

record ('m, 'k, 'v) weak_cache =
  wc_map :: 'm
  wc_capacity :: nat
  wc_next_id :: nat
  wc_live :: "nat \<rightharpoonup> 'k \<times> 'v"

definition weak_cache_new :: "('m, 'k) lhm_api \<Rightarrow> nat \<Rightarrow> ('m, 'k, 'v) weak_cache" where
  "weak_cache_new L capacity =
     \<lparr>wc_map = lhm_new L, wc_capacity = capacity, wc_next_id = 0, wc_live = Map.empty\<rparr>"

text \<open>The loop that drops the oldest entries; the map's length is enough fuel.\<close>

fun evict_loop :: "('m, 'k) lhm_api \<Rightarrow> nat \<Rightarrow> nat \<Rightarrow> 'm \<Rightarrow> 'm" where
  "evict_loop L capacity 0 m = m"
| "evict_loop L capacity (Suc n) m =
     (if lhm_len L m > capacity then evict_loop L capacity n (lhm_pop_front L m) else m)"

definition weak_cache_get ::
  "('m, 'k) lhm_api \<Rightarrow> 'k \<Rightarrow> 'e + 'v \<Rightarrow> ('m, 'k, 'v) weak_cache \<Rightarrow>
   ('e + nat \<times> 'v) \<times> ('m, 'k, 'v) weak_cache" where
  "weak_cache_get L key make_value c =
     (case lhm_get_refresh L (wc_map c) key of
        (found, m) \<Rightarrow>
          let c = c\<lparr>wc_map := m\<rparr>
          in case Option.bind found (\<lambda>i. map_option (\<lambda>(_, v). (i, v)) (wc_live c i)) of
               Some iv \<Rightarrow> (Inr iv, c)
             | None \<Rightarrow>
                 (case make_value of
                    Inl e \<Rightarrow> (Inl e, c)
                  | Inr v \<Rightarrow>
                      let vid = wc_next_id c;
                          m' = lhm_insert L (wc_map c) key vid
                      in (Inr (vid, v),
                          c\<lparr>wc_map := evict_loop L (wc_capacity c) (lhm_len L m') m',
                            wc_next_id := vid + 1,
                            wc_live := (wc_live c)(vid \<mapsto> (key, v))\<rparr>)))"

definition weak_cache_die :: "nat \<Rightarrow> ('m, 'k, 'v) weak_cache \<Rightarrow> ('m, 'k, 'v) weak_cache" where
  "weak_cache_die vid c = c\<lparr>wc_live := (wc_live c)(vid := None)\<rparr>"

definition weak_cache_evict ::
  "('m, 'k) lhm_api \<Rightarrow> 'k \<Rightarrow> nat \<Rightarrow> ('m, 'k, 'v) weak_cache \<Rightarrow> ('m, 'k, 'v) weak_cache" where
  "weak_cache_evict L key vid c =
     (case lhm_get L (wc_map c) key of
        Some vid' \<Rightarrow> if vid' = vid then c\<lparr>wc_map := lhm_remove L (wc_map c) key\<rparr> else c
      | None \<Rightarrow> c)"

subsection \<open>Entries\<close>

definition entries :: "('m, 'k) lhm_api \<Rightarrow> ('m, 'k, 'v) weak_cache \<Rightarrow> ('k \<times> nat) list" where
  "entries L c = lhm_entries L (wc_map c)"

lemma lhm_laws:
  assumes "lhm_ok L"
  shows "lhm_entries L (lhm_new L) = []" "lhm_get L m k = map_of (lhm_entries L m) k"
    "fst (lhm_get_refresh L m k) = map_of (lhm_entries L m) k"
    "lhm_entries L (snd (lhm_get_refresh L m k)) =
       (case map_of (lhm_entries L m) k of
          None \<Rightarrow> lhm_entries L m | Some v \<Rightarrow> del_key k (lhm_entries L m) @ [(k, v)])"
    "lhm_entries L (lhm_insert L m k v) = del_key k (lhm_entries L m) @ [(k, v)]"
    "lhm_entries L (lhm_remove L m k) = del_key k (lhm_entries L m)"
    "lhm_entries L (lhm_pop_front L m) = tl (lhm_entries L m)"
    "lhm_len L m = length (lhm_entries L m)"
  using assms unfolding lhm_ok_def by blast+

lemma evict_loop_entries:
  assumes "lhm_ok L" "length (lhm_entries L m) \<le> n"
  shows "lhm_entries L (evict_loop L cap n m) =
           drop (length (lhm_entries L m) - cap) (lhm_entries L m)"
  using assms(2)
proof (induction n arbitrary: m)
  case (Suc n)
  let ?es = "lhm_entries L m"
  show ?case
  proof (cases "length ?es > cap")
    case True
    have "lhm_entries L (evict_loop L cap n (lhm_pop_front L m)) =
        drop (length (tl ?es) - cap) (tl ?es)"
      using Suc lhm_laws(7) [OF assms(1), of m] by simp
    also have "\<dots> = drop (length ?es - cap) ?es"
      using True by (cases ?es) (auto simp: Suc_diff_le)
    finally show ?thesis using True lhm_laws(8) [OF assms(1), of m] by simp
  qed (use lhm_laws(8) [OF assms(1), of m] in simp)
qed (use assms(1) in simp)

lemma del_key_simps [simp]:
  "(k', v) \<in> set (del_key k es) \<longleftrightarrow> (k', v) \<in> set es \<and> k' \<noteq> k"
  "distinct (map fst es) \<Longrightarrow> distinct (map fst (del_key k es))"
  "length (del_key k es) \<le> length es"
  by (auto simp: del_key_def distinct_map_filter)

lemma del_key_fresh: "k \<notin> fst ` set (del_key k es)"
  by (auto simp: del_key_def)

lemma del_key_length:
  "map_of es k = Some v \<Longrightarrow> length (del_key k es) < length es"
  unfolding del_key_def
  by (rule length_filter_less [of "(k, v)"]) (auto dest: map_of_SomeD)

subsection \<open>Runs of the cache\<close>

record ('m, 'k, 'v) cache_sys =
  cy_cache :: "('m, 'k, 'v) weak_cache"
  cy_dying :: "('k \<times> nat) set"

text \<open>
  A lookup, the death of a value nobody references any more, and the evictor of a dead value, in any
  order. \<open>cy_dying\<close> are the dead values whose evictors have not run yet.
\<close>

inductive cache_step ::
  "('m, 'k) lhm_api \<Rightarrow> ('m, 'k, 'v) cache_sys \<Rightarrow> ('m, 'k, 'v) cache_sys \<Rightarrow> bool"
  for L :: "('m, 'k) lhm_api" where
  step_get: "weak_cache_get L k (mk :: unit + 'v) (cy_cache y) = (r, c) \<Longrightarrow> cache_step L y (y\<lparr>cy_cache := c\<rparr>)"
| step_die: "wc_live (cy_cache y) i = Some (k, v) \<Longrightarrow>
    cache_step L y (y\<lparr>cy_cache := weak_cache_die i (cy_cache y), cy_dying := insert (k, i) (cy_dying y)\<rparr>)"
| step_evict: "(k, i) \<in> cy_dying y \<Longrightarrow>
    cache_step L y (y\<lparr>cy_cache := weak_cache_evict L k i (cy_cache y), cy_dying := cy_dying y - {(k, i)}\<rparr>)"

inductive cache_reachable ::
  "('m, 'k) lhm_api \<Rightarrow> nat \<Rightarrow> ('m, 'k, 'v) cache_sys \<Rightarrow> bool"
  for L :: "('m, 'k) lhm_api" and cap :: nat where
  cache_init: "cache_reachable L cap \<lparr>cy_cache = weak_cache_new L cap, cy_dying = {}\<rparr>"
| cache_more: "cache_reachable L cap y \<Longrightarrow> cache_step L y y' \<Longrightarrow> cache_reachable L cap y'"

definition cache_inv :: "('m, 'k) lhm_api \<Rightarrow> nat \<Rightarrow> ('m, 'k, 'v) cache_sys \<Rightarrow> bool" where
  "cache_inv L cap y \<longleftrightarrow>
     (let c = cy_cache y; es = entries L c
      in wc_capacity c = cap \<and> length es \<le> cap \<and> distinct (map fst es) \<and>
         (\<forall>i. wc_live c i \<noteq> None \<longrightarrow> i < wc_next_id c) \<and>
         (\<forall>k i. (k, i) \<in> set es \<longrightarrow> (\<exists>v. wc_live c i = Some (k, v)) \<or> (k, i) \<in> cy_dying y) \<and>
         (\<forall>k i. (k, i) \<in> cy_dying y \<longrightarrow> i < wc_next_id c \<and> wc_live c i = None))"

lemma cache_invI:
  assumes "wc_capacity (cy_cache y) = cap" "length (entries L (cy_cache y)) \<le> cap"
    and "distinct (map fst (entries L (cy_cache y)))"
    and "\<And>i. wc_live (cy_cache y) i \<noteq> None \<Longrightarrow> i < wc_next_id (cy_cache y)"
    and "\<And>k i. (k, i) \<in> set (entries L (cy_cache y)) \<Longrightarrow>
      (\<exists>v. wc_live (cy_cache y) i = Some (k, v)) \<or> (k, i) \<in> cy_dying y"
    and "\<And>k i. (k, i) \<in> cy_dying y \<Longrightarrow> i < wc_next_id (cy_cache y) \<and> wc_live (cy_cache y) i = None"
  shows "cache_inv L cap y"
  using assms unfolding cache_inv_def Let_def by blast

lemma cache_inv_refresh:
  assumes "lhm_ok L" "cache_inv L cap y"
  shows "cache_inv L cap (y\<lparr>cy_cache := (cy_cache y)\<lparr>wc_map := snd (lhm_get_refresh L (wc_map (cy_cache y)) k)\<rparr>\<rparr>)"
proof (cases "map_of (entries L (cy_cache y)) k")
  case None
  then show ?thesis using assms lhm_laws(4) [OF assms(1)]
    by (simp add: cache_inv_def entries_def Let_def)
next
  case (Some i)
  let ?es = "entries L (cy_cache y)"
  have es: "lhm_entries L (snd (lhm_get_refresh L (wc_map (cy_cache y)) k)) = del_key k ?es @ [(k, i)]"
    using Some lhm_laws(4) [OF assms(1)] by (simp add: entries_def)
  have "length (del_key k ?es @ [(k, i)]) \<le> length ?es"
    using del_key_length [OF Some] by simp
  moreover have "(k, i) \<in> set ?es" using Some by (rule map_of_SomeD)
  ultimately show ?thesis
    using assms(2) del_key_fresh [of k ?es] unfolding cache_inv_def Let_def
    by (simp add: entries_def es)
qed

lemma cache_inv_insert:
  fixes k :: 'k
  assumes "lhm_ok L" "cache_inv L cap y"
  defines "c \<equiv> cy_cache y"
  defines "m \<equiv> lhm_insert L (wc_map c) k (wc_next_id c)"
  shows "cache_inv L cap (y\<lparr>cy_cache := c\<lparr>wc_map := evict_loop L cap (lhm_len L m) m,
           wc_next_id := wc_next_id c + 1, wc_live := (wc_live c)(wc_next_id c \<mapsto> (k, v))\<rparr>\<rparr>)"
proof -
  let ?es = "del_key k (entries L c) @ [(k, wc_next_id c)]"
  have m: "lhm_entries L m = ?es" using lhm_laws(5) [OF assms(1)] by (simp add: m_def entries_def)
  have es: "lhm_entries L (evict_loop L cap (lhm_len L m) m) = drop (length ?es - cap) ?es"
    using evict_loop_entries [OF assms(1), of m "lhm_len L m" cap] lhm_laws(8) [OF assms(1), of m] m
    by simp
  have inv: "distinct (map fst (entries L c))"
    "\<And>k i. (k, i) \<in> set (entries L c) \<Longrightarrow> (\<exists>v. wc_live c i = Some (k, v)) \<or> (k, i) \<in> cy_dying y"
    "\<And>i. wc_live c i \<noteq> None \<Longrightarrow> i < wc_next_id c"
    "\<And>k i. (k, i) \<in> cy_dying y \<Longrightarrow> i < wc_next_id c \<and> wc_live c i = None"
    "wc_capacity c = cap"
    using assms(2) by (auto simp: cache_inv_def Let_def c_def)
  have "distinct (map fst ?es)" using inv(1) del_key_fresh [of k "entries L c"] by simp
  then have "distinct (map fst (drop (length ?es - cap) ?es))"
    by (metis distinct_drop drop_map)
  moreover have "(\<exists>v'. ((wc_live c)(wc_next_id c \<mapsto> (k, v))) i = Some (k', v')) \<or> (k', i) \<in> cy_dying y"
    if "(k', i) \<in> set ?es" for k' i
    using that inv(2) [of k' i] inv(3) [of i] by auto
  then have own: "(\<exists>v'. ((wc_live c)(wc_next_id c \<mapsto> (k, v))) i = Some (k', v')) \<or> (k', i) \<in> cy_dying y"
    if "(k', i) \<in> set (drop (length ?es - cap) ?es)" for k' i
    using that by (meson in_set_dropD)
  moreover have "length (drop (length ?es - cap) ?es) \<le> cap" by simp
  moreover have "(k', wc_next_id c) \<notin> cy_dying y" for k' using inv(4) by blast
  ultimately show ?thesis
    using inv(5) less_SucI [OF inv(3)] less_SucI [OF conjunct1 [OF inv(4)]] inv(4)
    by (intro cache_invI) (auto simp: entries_def es simp del: drop_append length_append split: if_splits)
qed

lemma cache_inv_get:
  assumes "lhm_ok L" "cache_inv L cap y" "weak_cache_get L k mk (cy_cache y) = (r, c)"
  shows "cache_inv L cap (y\<lparr>cy_cache := c\<rparr>)"
proof -
  let ?y = "y\<lparr>cy_cache := (cy_cache y)\<lparr>wc_map := snd (lhm_get_refresh L (wc_map (cy_cache y)) k)\<rparr>\<rparr>"
  have inv: "cache_inv L cap ?y" by (rule cache_inv_refresh [OF assms(1,2)])
  have cap: "wc_capacity (cy_cache y) = cap" using assms(2) by (simp add: cache_inv_def Let_def)
  show ?thesis
    using assms(3) inv cache_inv_insert [OF assms(1) inv, of k] cap
    by (auto simp: weak_cache_get_def Let_def split: prod.splits option.splits sum.splits)
qed

lemma cache_inv_die:
  assumes "cache_inv L cap y" "wc_live (cy_cache y) i = Some (k, v)"
  shows "cache_inv L cap (y\<lparr>cy_cache := weak_cache_die i (cy_cache y),
           cy_dying := insert (k, i) (cy_dying y)\<rparr>)"
  using assms
  by (auto simp: cache_inv_def Let_def weak_cache_die_def entries_def split: if_splits) force+

lemma cache_inv_evict:
  assumes "lhm_ok L" "cache_inv L cap y" "(k, i) \<in> cy_dying y"
  shows "cache_inv L cap (y\<lparr>cy_cache := weak_cache_evict L k i (cy_cache y),
           cy_dying := cy_dying y - {(k, i)}\<rparr>)"
proof -
  let ?c = "cy_cache y"
  let ?es = "entries L ?c"
  have g: "lhm_get L (wc_map ?c) k = map_of ?es k" using lhm_laws(2) [OF assms(1)] by (simp add: entries_def)
  have d: "distinct (map fst ?es)" using assms(2) by (simp add: cache_inv_def Let_def)
  show ?thesis
  proof (cases "map_of ?es k = Some i")
    case True
    then have "entries L (weak_cache_evict L k i ?c) = del_key k ?es"
      "wc_live (weak_cache_evict L k i ?c) = wc_live ?c"
      "wc_next_id (weak_cache_evict L k i ?c) = wc_next_id ?c"
      "wc_capacity (weak_cache_evict L k i ?c) = wc_capacity ?c"
      using g lhm_laws(6) [OF assms(1)] by (simp_all add: weak_cache_evict_def entries_def)
    with assms(2) show ?thesis unfolding cache_inv_def Let_def
      by (auto intro: order_trans [OF del_key_simps(3)])
  next
    case False
    then have "weak_cache_evict L k i ?c = ?c"
      using g by (auto simp: weak_cache_evict_def split: option.splits)
    moreover have "(k, i) \<notin> set ?es" using False d by (simp add: map_of_eq_Some_iff)
    ultimately show ?thesis using assms(2) unfolding cache_inv_def Let_def by auto
  qed
qed

lemma cache_reachable_inv:
  assumes "lhm_ok L" "cache_reachable L cap y"
  shows "cache_inv L cap y"
  using assms(2)
proof (induction rule: cache_reachable.induct)
  case cache_init
  then show ?case using lhm_laws(1) [OF assms(1)]
    by (simp add: cache_inv_def weak_cache_new_def entries_def Let_def)
next
  case (cache_more y y')
  from cache_more(2,3) show ?case
    by (cases rule: cache_step.cases)
      (auto intro: cache_inv_get [OF assms(1)] cache_inv_die cache_inv_evict [OF assms(1)])
qed

subsection \<open>Properties\<close>

definition list_lhm :: "(('k \<times> nat) list, 'k) lhm_api" where
  "list_lhm =
     \<lparr>lhm_new = [], lhm_get = map_of,
      lhm_get_refresh = (\<lambda>m k. (map_of m k,
        case map_of m k of None \<Rightarrow> m | Some v \<Rightarrow> del_key k m @ [(k, v)])),
      lhm_insert = (\<lambda>m k v. del_key k m @ [(k, v)]), lhm_remove = (\<lambda>m k. del_key k m),
      lhm_pop_front = tl, lhm_len = length, lhm_entries = (\<lambda>m. m)\<rparr>"

lemma list_lhm_ok: "lhm_ok list_lhm"
  by (simp add: lhm_ok_def list_lhm_def split: option.split)

lemma entry_lookup:
  assumes "lhm_ok L" "cache_inv L cap y" "(k, i) \<in> set (entries L (cy_cache y))"
  shows "map_of (entries L (cy_cache y)) k = Some i"
  using assms(2,3) by (simp add: cache_inv_def Let_def map_of_eq_Some_iff)

text \<open>C18: The weak cache under every interleaving of lookups, dying values and evictors: it never
  holds more entries than its capacity nor two for one key, and an entry whose value is dead is one
  whose evictor has yet to run, so that no dead entry stays behind. While the value of an entry is
  alive, a lookup of its key returns that value and does not build another.\<close>

theorem weak_cache_shares_live_values:
  assumes "lhm_ok L" "cache_reachable L cap y"
  shows "length (entries L (cy_cache y)) \<le> cap \<and> distinct (map fst (entries L (cy_cache y))) \<and>
    (\<forall>k i. (k, i) \<in> set (entries L (cy_cache y)) \<longrightarrow>
       wc_live (cy_cache y) i \<noteq> None \<or> (k, i) \<in> cy_dying y) \<and>
    (\<forall>k i v. (k, i) \<in> set (entries L (cy_cache y)) \<longrightarrow> wc_live (cy_cache y) i = Some (k, v) \<longrightarrow>
       (\<exists>c'. weak_cache_get L k mk (cy_cache y) = (Inr (i, v), c') \<and>
          wc_live c' = wc_live (cy_cache y) \<and> wc_next_id c' = wc_next_id (cy_cache y)))"
proof -
  have inv: "cache_inv L cap y" by (rule cache_reachable_inv [OF assms])
  have "\<exists>c'. weak_cache_get L k mk (cy_cache y) = (Inr (i, v), c') \<and>
          wc_live c' = wc_live (cy_cache y) \<and> wc_next_id c' = wc_next_id (cy_cache y)"
    if "(k, i) \<in> set (entries L (cy_cache y))" "wc_live (cy_cache y) i = Some (k, v)" for k i v
  proof -
    have "fst (lhm_get_refresh L (wc_map (cy_cache y)) k) = Some i"
      using entry_lookup [OF assms(1) inv that(1)] lhm_laws(3) [OF assms(1)] by (simp add: entries_def)
    then obtain m where "lhm_get_refresh L (wc_map (cy_cache y)) k = (Some i, m)"
      by (cases "lhm_get_refresh L (wc_map (cy_cache y)) k") auto
    with that(2) show ?thesis by (simp add: weak_cache_get_def)
  qed
  moreover have "\<forall>k i. (k, i) \<in> set (entries L (cy_cache y)) \<longrightarrow>
       wc_live (cy_cache y) i \<noteq> None \<or> (k, i) \<in> cy_dying y"
    using inv unfolding cache_inv_def Let_def by fastforce
  ultimately show ?thesis using inv unfolding cache_inv_def Let_def by blast
qed

lemma demo_cache:
  "cache_reachable list_lhm 1 \<lparr>cy_cache = \<lparr>wc_map = [(''a'', 0)], wc_capacity = 1, wc_next_id = 1,
     wc_live = [0 \<mapsto> (''a'', True)]\<rparr>, cy_dying = {}\<rparr>"
proof -
  let ?y = "\<lparr>cy_cache = weak_cache_new list_lhm 1, cy_dying = {}\<rparr> ::
      ((string \<times> nat) list, string, bool) cache_sys"
  have "weak_cache_get list_lhm ''a'' (Inr True :: unit + bool) (cy_cache ?y) =
      (Inr (0, True), \<lparr>wc_map = [(''a'', 0)], wc_capacity = 1, wc_next_id = 1,
         wc_live = [0 \<mapsto> (''a'', True)]\<rparr>)"
    by (simp add: weak_cache_get_def weak_cache_new_def list_lhm_def del_key_def)
  from cache_more [OF cache_init step_get [OF this]] show ?thesis by simp
qed

theorem weak_cache_shares_live_values_witness:
  "\<exists>c'. weak_cache_get list_lhm ''a'' (Inl () :: unit + bool) \<lparr>wc_map = [(''a'', 0)], wc_capacity = 1,
     wc_next_id = 1, wc_live = [0 \<mapsto> (''a'', True)]\<rparr> = (Inr (0, True), c')"
proof -
  have "(''a'', 0) \<in> set (entries list_lhm \<lparr>wc_map = [(''a'', 0)], wc_capacity = 1, wc_next_id = 1,
     wc_live = [0 \<mapsto> (''a'', True)]\<rparr>)"
    by (simp add: entries_def list_lhm_def)
  then show ?thesis
    using weak_cache_shares_live_values [OF list_lhm_ok demo_cache, of "Inl () :: unit + bool"]
    by fastforce
qed

text \<open>C19: A late evictor never removes a newer entry: when a value dies and another thread caches a
  new value for the same key before the old evictor runs, the evictor leaves the new entry alone.\<close>

theorem late_evictor_harmless:
  assumes "lhm_ok L" "cache_reachable L cap y" "(k, i) \<in> cy_dying y"
    and "(k', j) \<in> set (entries L (cy_cache y))" "wc_live (cy_cache y) j = Some (k', v)"
  shows "(k', j) \<in> set (entries L (weak_cache_evict L k i (cy_cache y)))"
proof -
  have inv: "cache_inv L cap y" by (rule cache_reachable_inv [OF assms(1,2)])
  have ne: "j \<noteq> i" using inv assms(3,5) unfolding cache_inv_def Let_def by force
  have "k' \<noteq> k" if "map_of (entries L (cy_cache y)) k = Some i"
    using that ne entry_lookup [OF assms(1) inv assms(4)] by auto
  then show ?thesis
    using assms(4) lhm_laws(2,6) [OF assms(1)]
    by (auto simp: weak_cache_evict_def entries_def split: option.splits)
qed

theorem late_evictor_harmless_witness:
  "(''a'', 1) \<in> set (entries list_lhm (weak_cache_evict list_lhm ''a'' 0 (\<lparr>wc_map = [(''a'', 1)],
     wc_capacity = 1, wc_next_id = 2, wc_live = [1 \<mapsto> (''a'', False)]\<rparr> ::
       ((string \<times> nat) list, string, bool) weak_cache)))"
proof -
  let ?y1 = "\<lparr>cy_cache = \<lparr>wc_map = [(''a'', 0)], wc_capacity = 1, wc_next_id = 1, wc_live = Map.empty\<rparr>,
      cy_dying = {(''a'', 0)}\<rparr> :: ((string \<times> nat) list, string, bool) cache_sys"
  let ?y2 = "\<lparr>cy_cache = \<lparr>wc_map = [(''a'', 1)], wc_capacity = 1, wc_next_id = 2,
      wc_live = [1 \<mapsto> (''a'', False)]\<rparr>, cy_dying = {(''a'', 0)}\<rparr> ::
      ((string \<times> nat) list, string, bool) cache_sys"
  have "cache_reachable list_lhm 1 ?y1"
    using cache_more [OF demo_cache step_die [of _ 0 "''a''" True]]
    by (simp add: weak_cache_die_def)
  moreover have "weak_cache_get list_lhm ''a'' (Inr False :: unit + bool) (cy_cache ?y1) =
      (Inr (1, False), cy_cache ?y2)"
    by (simp add: weak_cache_get_def list_lhm_def del_key_def)
  ultimately have "cache_reachable list_lhm 1 ?y2" using cache_more [OF _ step_get] by fastforce
  from late_evictor_harmless [OF list_lhm_ok this, of "''a''" 0 "''a''" 1 False]
  show ?thesis by (simp add: entries_def list_lhm_def)
qed

end
