(* ===== verification/ClientFactory.thy ===== *)
theory ClientFactory
  imports Builder WeakCache
begin

text \<open>
  \<^verbatim>\<open>client_factory.rs\<close>, \<^verbatim>\<open>per_host_clients.rs\<close> and the client handle of \<^verbatim>\<open>client.rs\<close>. Factories, the
  state builders they hand to their clients and the clones of both share caches by reference, so
  the caches live in a store (\<open>world\<close>) and a \<open>cache_manager\<close> holds the address of its cache. The
  \<^verbatim>\<open>ArcSwap\<close> every clone of a client reads is a cell of the same store.

  Building a \<^verbatim>\<open>ClientState\<close> (\<^verbatim>\<open>RawClient::new\<close> and the layers) is the parameter \<open>mk\<close>; its first
  argument numbers the calls, so that two calls with one builder may differ. The \<^verbatim>\<open>refreshable\<close> crate
  is the parameter \<open>refreshable_api\<close>: whether subscribing runs the callback at once, and whether a
  refresh from one value to another runs the callbacks.
\<close>

definition STATE_CACHE_CAPACITY :: nat where
  "STATE_CACHE_CAPACITY = 10000"

record cache_manager =
  uncached_inner :: uncached_config
  cm_cache :: nat

record client_factory =
  cf_user_agent :: user_agent
  cf_client_qos :: client_qos
  cf_server_qos :: server_qos
  cf_service_error :: service_error
  cf_idempotency :: idempotency
  cf_node_selection_strategy :: node_selection_strategy
  cf_error_parameter_format :: error_parameter_format
  cf_cache_manager :: cache_manager

record state_builder =
  sb_service :: string
  sb_user_agent :: user_agent
  sb_client_qos :: client_qos
  sb_server_qos :: server_qos
  sb_service_error :: service_error
  sb_idempotency :: idempotency
  sb_node_selection_strategy :: node_selection_strategy
  sb_error_parameter_format :: error_parameter_format
  sb_cache_manager :: cache_manager

record ('m, 'st) world =
  w_caches :: "nat \<Rightarrow> ('m, cached_config, 'st) cache_sys"
  w_next_cache :: nat
  w_calls :: nat
  w_clients :: "nat \<rightharpoonup> nat \<times> 'st"
  w_next_client :: nat

definition fresh_cache ::
  "('m, cached_config) lhm_api \<Rightarrow> ('m, 'st) world \<Rightarrow> nat \<times> ('m, 'st) world" where
  "fresh_cache L w =
     (w_next_cache w,
      w\<lparr>w_caches := (w_caches w)(w_next_cache w :=
           \<lparr>cy_cache = weak_cache_new L STATE_CACHE_CAPACITY, cy_dying = {}\<rparr>),
        w_next_cache := w_next_cache w + 1\<rparr>)"

definition uncached_mut ::
  "('m, cached_config) lhm_api \<Rightarrow> (uncached_config \<Rightarrow> uncached_config) \<Rightarrow> cache_manager \<Rightarrow>
   ('m, 'st) world \<Rightarrow> cache_manager \<times> ('m, 'st) world" where
  "uncached_mut L f cm w =
     (case fresh_cache L w of
        (a, w) \<Rightarrow> (cm\<lparr>cm_cache := a, uncached_inner := f (uncached_inner cm)\<rparr>, w))"

definition client_factory_new ::
  "('m, cached_config) lhm_api \<Rightarrow> handle \<Rightarrow> user_agent \<Rightarrow> ('m, 'st) world \<Rightarrow>
   client_factory \<times> ('m, 'st) world" where
  "client_factory_new L runtime agent w =
     (case fresh_cache L w of
        (a, w) \<Rightarrow>
          (\<lparr>cf_user_agent = agent, cf_client_qos = Enabled, cf_server_qos = AutomaticRetry,
            cf_service_error = WrapInNewError, cf_idempotency = ByMethod,
            cf_node_selection_strategy = PinUntilError, cf_error_parameter_format = Legacy,
            cf_cache_manager =
              \<lparr>uncached_inner = \<lparr>uc_metrics = None, uc_host_metrics = None,
                 uc_blocking_handle = None, uc_conjure_runtime = runtime\<rparr>,
               cm_cache = a\<rparr>\<rparr>, w))"

text \<open>
  The setters. Those of the cached options change only the factory; the four of the uncached ones
  go through \<open>uncached_mut\<close>.
\<close>

datatype factory_option =
    SetUserAgent user_agent
  | SetClientQos client_qos
  | SetServerQos server_qos
  | SetServiceError service_error
  | SetIdempotency idempotency
  | SetNodeSelectionStrategy node_selection_strategy
  | SetErrorParameterFormat error_parameter_format

fun set_option :: "factory_option \<Rightarrow> client_factory \<Rightarrow> client_factory" where
  "set_option (SetUserAgent a) f = f\<lparr>cf_user_agent := a\<rparr>"
| "set_option (SetClientQos q) f = f\<lparr>cf_client_qos := q\<rparr>"
| "set_option (SetServerQos q) f = f\<lparr>cf_server_qos := q\<rparr>"
| "set_option (SetServiceError e) f = f\<lparr>cf_service_error := e\<rparr>"
| "set_option (SetIdempotency i) f = f\<lparr>cf_idempotency := i\<rparr>"
| "set_option (SetNodeSelectionStrategy s) f = f\<lparr>cf_node_selection_strategy := s\<rparr>"
| "set_option (SetErrorParameterFormat p) f = f\<lparr>cf_error_parameter_format := p\<rparr>"

datatype uncached_option =
    SetMetrics handle
  | SetHostMetrics handle
  | SetConjureRuntime handle
  | SetBlockingHandle handle

fun apply_uncached :: "uncached_option \<Rightarrow> uncached_config \<Rightarrow> uncached_config" where
  "apply_uncached (SetMetrics h) u = u\<lparr>uc_metrics := Some h\<rparr>"
| "apply_uncached (SetHostMetrics h) u = u\<lparr>uc_host_metrics := Some h\<rparr>"
| "apply_uncached (SetConjureRuntime h) u = u\<lparr>uc_conjure_runtime := h\<rparr>"
| "apply_uncached (SetBlockingHandle h) u = u\<lparr>uc_blocking_handle := Some h\<rparr>"

definition set_uncached ::
  "('m, cached_config) lhm_api \<Rightarrow> uncached_option \<Rightarrow> client_factory \<Rightarrow> ('m, 'st) world \<Rightarrow>
   client_factory \<times> ('m, 'st) world" where
  "set_uncached L opt f w =
     (case uncached_mut L (apply_uncached opt) (cf_cache_manager f) w of
        (cm, w) \<Rightarrow> (f\<lparr>cf_cache_manager := cm\<rparr>, w))"

definition state_builder_of :: "string \<Rightarrow> client_factory \<Rightarrow> state_builder" where
  "state_builder_of service f =
     \<lparr>sb_service = service, sb_user_agent = cf_user_agent f, sb_client_qos = cf_client_qos f,
      sb_server_qos = cf_server_qos f, sb_service_error = cf_service_error f,
      sb_idempotency = cf_idempotency f,
      sb_node_selection_strategy = cf_node_selection_strategy f,
      sb_error_parameter_format = cf_error_parameter_format f,
      sb_cache_manager = cf_cache_manager f\<rparr>"

text \<open>\<open>rt\<close> is the runtime \<^verbatim>\<open>Client::builder\<close> allocates before the manager's replaces it.\<close>

definition sb_builder ::
  "handle \<Rightarrow> state_builder \<Rightarrow> service_config \<Rightarrow> usize option \<Rightarrow> builder" where
  "sb_builder rt sb config override_index =
     (let u = uncached_inner (sb_cache_manager sb);
          b = builder_new rt (sb_service sb) (sb_user_agent sb);
          b = from_config config b;
          b = b_client_qos (sb_client_qos sb) b;
          b = b_server_qos (sb_server_qos sb) b;
          b = b_service_error (sb_service_error sb) b;
          b = b_idempotency (sb_idempotency sb) b;
          b = b_node_selection_strategy (sb_node_selection_strategy sb) b;
          b = b_error_parameter_format (sb_error_parameter_format sb) b;
          b = b_conjure_runtime (uc_conjure_runtime u) b;
          b = set_opt b_metrics (uc_metrics u) b;
          b = set_opt b_host_metrics (uc_host_metrics u) b
      in set_opt b_override_host_index override_index b)"

definition sb_build ::
  "('m, cached_config) lhm_api \<Rightarrow> (nat \<Rightarrow> builder \<Rightarrow> 'e + 'st) \<Rightarrow> handle \<Rightarrow> state_builder \<Rightarrow>
   service_config \<Rightarrow> usize option \<Rightarrow> ('m, 'st) world \<Rightarrow> ('e + nat \<times> 'st) \<times> ('m, 'st) world" where
  "sb_build L mk rt sb config override_index w =
     (let b = sb_builder rt sb config override_index;
          a = cm_cache (sb_cache_manager sb);
          y = w_caches w a
      in case weak_cache_get L (cached b) (mk (w_calls w) b) (cy_cache y) of
           (r, c) \<Rightarrow> (r, w\<lparr>w_caches := (w_caches w)(a := y\<lparr>cy_cache := c\<rparr>), w_calls := w_calls w + 1\<rparr>))"

subsection \<open>Clients\<close>

record refreshable_api =
  rf_on_subscribe :: bool
  rf_notify :: "service_config \<Rightarrow> service_config \<Rightarrow> bool"

definition refreshable_ok :: "refreshable_api \<Rightarrow> bool" where
  "refreshable_ok R \<longleftrightarrow> (\<forall>old new. old \<noteq> new \<longrightarrow> rf_notify R old new)"

text \<open>The subscription's callback: a failed build leaves the client's state alone.\<close>

definition client_callback ::
  "('m, cached_config) lhm_api \<Rightarrow> (nat \<Rightarrow> builder \<Rightarrow> 'e + 'st) \<Rightarrow> handle \<Rightarrow> state_builder \<Rightarrow>
   usize option \<Rightarrow> nat \<Rightarrow> service_config \<Rightarrow> ('m, 'st) world \<Rightarrow> ('e + unit) \<times> ('m, 'st) world" where
  "client_callback L mk rt sb override_index client config w =
     (case sb_build L mk rt sb config override_index w of
        (Inl e, w) \<Rightarrow> (Inl e, w)
      | (Inr st, w) \<Rightarrow> (Inr (), w\<lparr>w_clients := (w_clients w)(client \<mapsto> st)\<rparr>))"

definition raw_client ::
  "('m, cached_config) lhm_api \<Rightarrow> (nat \<Rightarrow> builder \<Rightarrow> 'e + 'st) \<Rightarrow> handle \<Rightarrow> refreshable_api \<Rightarrow>
   state_builder \<Rightarrow> service_config \<Rightarrow> usize option \<Rightarrow> ('m, 'st) world \<Rightarrow> ('e + nat) \<times> ('m, 'st) world" where
  "raw_client L mk rt R sb config override_index w =
     (case sb_build L mk rt sb config override_index w of
        (Inl e, w) \<Rightarrow> (Inl e, w)
      | (Inr st, w) \<Rightarrow>
          let client = w_next_client w;
              w = w\<lparr>w_clients := (w_clients w)(client \<mapsto> st), w_next_client := client + 1\<rparr>
          in if rf_on_subscribe R then
               (case client_callback L mk rt sb override_index client config w of
                  (Inl e, w) \<Rightarrow> (Inl e, w)
                | (Inr _, w) \<Rightarrow> (Inr client, w))
             else (Inr client, w))"

definition service_config_default :: service_config where
  "service_config_default =
     \<lparr>sc_uris = [], sc_security = None, sc_proxy = None, sc_connect_timeout = None,
      sc_read_timeout = None, sc_write_timeout = None, sc_backoff_slot_size = None,
      sc_max_num_retries = None\<rparr>"

definition merged_or_default :: "string \<Rightarrow> services_config \<Rightarrow> service_config" where
  "merged_or_default service c =
     (case merged_service c service of Some s \<Rightarrow> s | None \<Rightarrow> service_config_default)"

definition client_inner ::
  "('m, cached_config) lhm_api \<Rightarrow> (nat \<Rightarrow> builder \<Rightarrow> 'e + 'st) \<Rightarrow> handle \<Rightarrow> refreshable_api \<Rightarrow>
   client_factory \<Rightarrow> string \<Rightarrow> services_config \<Rightarrow> ('m, 'st) world \<Rightarrow> ('e + nat) \<times> ('m, 'st) world" where
  "client_inner L mk rt R f service config w =
     raw_client L mk rt R (state_builder_of service f) (merged_or_default service config) None w"

record blocking_client =
  bc_client :: nat
  bc_handle :: "handle option"

definition blocking_client_inner ::
  "('m, cached_config) lhm_api \<Rightarrow> (nat \<Rightarrow> builder \<Rightarrow> 'e + 'st) \<Rightarrow> handle \<Rightarrow> refreshable_api \<Rightarrow>
   client_factory \<Rightarrow> string \<Rightarrow> services_config \<Rightarrow> ('m, 'st) world \<Rightarrow>
   ('e + blocking_client) \<times> ('m, 'st) world" where
  "blocking_client_inner L mk rt R f service config w =
     (case client_inner L mk rt R f service config w of
        (r, w) \<Rightarrow>
          (map_sum (\<lambda>e. e) (\<lambda>c. \<lparr>bc_client = c,
             bc_handle = uc_blocking_handle (uncached_inner (cf_cache_manager f))\<rparr>) r, w))"

subsection \<open>Per-host clients\<close>

record client_handle =
  ch_client :: nat
  ch_index :: usize
  ch_config :: service_config

definition host_config :: "service_config \<Rightarrow> url \<Rightarrow> service_config" where
  "host_config c uri = c\<lparr>sc_uris := [uri]\<rparr>"

definition handle_refresh ::
  "('m, cached_config) lhm_api \<Rightarrow> (nat \<Rightarrow> builder \<Rightarrow> 'e + 'st) \<Rightarrow> handle \<Rightarrow> refreshable_api \<Rightarrow>
   state_builder \<Rightarrow> service_config \<Rightarrow> client_handle \<Rightarrow> ('m, 'st) world \<Rightarrow>
   'e list \<times> client_handle \<times> ('m, 'st) world" where
  "handle_refresh L mk rt R sb config h w =
     (if rf_notify R (ch_config h) config then
        (case client_callback L mk rt sb (Some (ch_index h)) (ch_client h) config w of
           (Inl e, w) \<Rightarrow> ([e], h\<lparr>ch_config := config\<rparr>, w)
         | (Inr _, w) \<Rightarrow> ([], h\<lparr>ch_config := config\<rparr>, w))
      else ([], h, w))"

text \<open>The loop over the URIs: the handles still to be claimed, the new handles, the new clients,
  the errors in the order they were pushed, and the store.\<close>

fun per_host_loop ::
  "('m, cached_config) lhm_api \<Rightarrow> (nat \<Rightarrow> builder \<Rightarrow> 'e + 'st) \<Rightarrow> handle \<Rightarrow> refreshable_api \<Rightarrow>
   state_builder \<Rightarrow> service_config \<Rightarrow> (nat \<times> url) list \<Rightarrow> (url \<rightharpoonup> client_handle) \<Rightarrow>
   (url \<rightharpoonup> client_handle) \<Rightarrow> (url \<rightharpoonup> nat) \<Rightarrow> 'e list \<Rightarrow> ('m, 'st) world \<Rightarrow>
   (url \<rightharpoonup> client_handle) \<times> (url \<rightharpoonup> nat) \<times> 'e list \<times> ('m, 'st) world" where
  "per_host_loop L mk rt R sb c [] old new clients errors w = (new, clients, errors, w)"
| "per_host_loop L mk rt R sb c ((i, uri) # rest) old new clients errors w =
     (case old uri of
        Some h \<Rightarrow>
          (case handle_refresh L mk rt R sb (host_config c uri) h w of
             (es, h', w) \<Rightarrow>
               per_host_loop L mk rt R sb c rest (old(uri := None)) (new(uri \<mapsto> h'))
                 (clients(uri \<mapsto> ch_client h')) (errors @ es) w)
      | None \<Rightarrow>
          (case raw_client L mk rt R sb (host_config c uri) (Some (of_nat i)) w of
             (Inl e, w) \<Rightarrow>
               per_host_loop L mk rt R sb c rest old new clients (errors @ [e]) w
           | (Inr client, w) \<Rightarrow>
               per_host_loop L mk rt R sb c rest old
                 (new(uri \<mapsto> \<lparr>ch_client = client, ch_index = of_nat i, ch_config = host_config c uri\<rparr>))
                 (clients(uri \<mapsto> client)) errors w))"

definition per_host_refresh ::
  "('m, cached_config) lhm_api \<Rightarrow> (nat \<Rightarrow> builder \<Rightarrow> 'e + 'st) \<Rightarrow> handle \<Rightarrow> refreshable_api \<Rightarrow>
   state_builder \<Rightarrow> service_config \<Rightarrow> (url \<rightharpoonup> client_handle) \<Rightarrow> ('m, 'st) world \<Rightarrow>
   ('e + (url \<rightharpoonup> nat)) \<times> (url \<rightharpoonup> client_handle) \<times> ('m, 'st) world" where
  "per_host_refresh L mk rt R sb c handles w =
     (case per_host_loop L mk rt R sb c (enumerate 0 (sc_uris c)) handles Map.empty Map.empty [] w of
        (new, clients, errors, w) \<Rightarrow>
          (if errors = [] then Inr clients else Inl (last errors), new, w))"

definition per_host_eq :: "(url \<rightharpoonup> 'a) \<Rightarrow> (url \<rightharpoonup> 'b) \<Rightarrow> bool" where
  "per_host_eq a b \<longleftrightarrow> card (dom a) = card (dom b) \<and> (\<forall>k \<in> dom a. b k \<noteq> None)"

subsection \<open>Factories, state builders and their caches in operation\<close>

record ('m, 'st) factory_sys =
  fs_factories :: "client_factory set"
  fs_builders :: "state_builder set"
  fs_world :: "('m, 'st) world"

definition world_new :: "('m, cached_config) lhm_api \<Rightarrow> ('m, 'st) world" where
  "world_new L =
     \<lparr>w_caches = (\<lambda>_. \<lparr>cy_cache = weak_cache_new L STATE_CACHE_CAPACITY, cy_dying = {}\<rparr>),
      w_next_cache = 0, w_calls = 0, w_clients = Map.empty, w_next_client = 0\<rparr>"

text \<open>
  Factories are created, cloned and configured and hand out state builders; state builders build;
  the cached states die and their evictors run, all in any order. A factory that was replaced by its
  updated copy stays in the set: it may have been cloned before. \<open>fs_clients\<close> allows any change to
  the clients' cells.
\<close>

inductive factory_step ::
  "('m, cached_config) lhm_api \<Rightarrow> (nat \<Rightarrow> builder \<Rightarrow> 'e + 'st) \<Rightarrow>
   ('m, 'st) factory_sys \<Rightarrow> ('m, 'st) factory_sys \<Rightarrow> bool"
  for L :: "('m, cached_config) lhm_api" and mk :: "nat \<Rightarrow> builder \<Rightarrow> 'e + 'st" where
  fs_new: "client_factory_new L h agent (fs_world y) = (f, w) \<Longrightarrow>
    factory_step L mk y (y\<lparr>fs_factories := insert f (fs_factories y), fs_world := w\<rparr>)"
| fs_set: "f \<in> fs_factories y \<Longrightarrow>
    factory_step L mk y (y\<lparr>fs_factories := insert (set_option opt f) (fs_factories y)\<rparr>)"
| fs_uncached: "f \<in> fs_factories y \<Longrightarrow> set_uncached L uopt f (fs_world y) = (f', w) \<Longrightarrow>
    factory_step L mk y (y\<lparr>fs_factories := insert f' (fs_factories y), fs_world := w\<rparr>)"
| fs_state_builder: "f \<in> fs_factories y \<Longrightarrow>
    factory_step L mk y (y\<lparr>fs_builders := insert (state_builder_of service f) (fs_builders y)\<rparr>)"
| fs_build: "sb \<in> fs_builders y \<Longrightarrow> sb_build L mk rt sb config oi (fs_world y) = (r, w) \<Longrightarrow>
    factory_step L mk y (y\<lparr>fs_world := w\<rparr>)"
| fs_clients: "factory_step L mk y
    (y\<lparr>fs_world := (fs_world y)\<lparr>w_clients := cells, w_next_client := n\<rparr>\<rparr>)"
| fs_cache: "a < w_next_cache (fs_world y) \<Longrightarrow>
    c = w_caches (fs_world y) a \<Longrightarrow>
    wc_live (cy_cache c) i = Some (k, v) \<and>
      c' = c\<lparr>cy_cache := weak_cache_die i (cy_cache c), cy_dying := insert (k, i) (cy_dying c)\<rparr> \<or>
    (k, i) \<in> cy_dying c \<and>
      c' = c\<lparr>cy_cache := weak_cache_evict L k i (cy_cache c), cy_dying := cy_dying c - {(k, i)}\<rparr> \<Longrightarrow>
    factory_step L mk y (y\<lparr>fs_world := (fs_world y)\<lparr>w_caches := (w_caches (fs_world y))(a := c')\<rparr>\<rparr>)"

inductive factory_reachable ::
  "('m, cached_config) lhm_api \<Rightarrow> (nat \<Rightarrow> builder \<Rightarrow> 'e + 'st) \<Rightarrow> ('m, 'st) factory_sys \<Rightarrow> bool"
  for L :: "('m, cached_config) lhm_api" and mk :: "nat \<Rightarrow> builder \<Rightarrow> 'e + 'st" where
  fs_init: "factory_reachable L mk \<lparr>fs_factories = {}, fs_builders = {}, fs_world = world_new L\<rparr>"
| fs_more: "factory_reachable L mk y \<Longrightarrow> factory_step L mk y y' \<Longrightarrow> factory_reachable L mk y'"

definition managers :: "('m, 'st) factory_sys \<Rightarrow> cache_manager set" where
  "managers y = cf_cache_manager ` fs_factories y \<union> sb_cache_manager ` fs_builders y"

text \<open>What a state can see of the uncached configuration: everything but the blocking handle.\<close>

definition visible :: "uncached_config \<Rightarrow> uncached_config" where
  "visible u = u\<lparr>uc_blocking_handle := None\<rparr>"

lemma from_config_uncached: "uncached (from_config c b) = uncached b"
  unfolding from_config_def Let_def set_opt_eq by (simp add: with_cached_def b_uris_def)

lemma set_opt_uncached:
  "set_opt b_metrics x b = with_uncached (\<lambda>u. u\<lparr>uc_metrics := or_else x (uc_metrics u)\<rparr>) b"
  "set_opt b_host_metrics x b = with_uncached (\<lambda>u. u\<lparr>uc_host_metrics := or_else x (uc_host_metrics u)\<rparr>) b"
  "uncached (set_opt b_override_host_index i b) = uncached b"
  by (simp_all add: set_opt_def builder_setters split: option.split)

lemma or_else_None [simp]: "or_else x None = x"
  by (cases x) simp_all

lemma sb_builder_uncached:
  "uncached (sb_builder rt sb config oi) = visible (uncached_inner (sb_cache_manager sb))"
  unfolding sb_builder_def Let_def set_opt_uncached
  by (simp add: builder_setters from_config_uncached visible_def builder_new_def)

definition made_for ::
  "(nat \<Rightarrow> builder \<Rightarrow> 'e + 'st) \<Rightarrow> cached_config \<Rightarrow> uncached_config \<Rightarrow> 'st \<Rightarrow> bool" where
  "made_for mk k u st \<longleftrightarrow> (\<exists>n b. mk n b = Inr st \<and> cached b = k \<and> uncached b = u)"

definition world_inv ::
  "('m, cached_config) lhm_api \<Rightarrow> (nat \<Rightarrow> builder \<Rightarrow> 'e + 'st) \<Rightarrow> cache_manager set \<Rightarrow>
   ('m, 'st) world \<Rightarrow> bool" where
  "world_inv L mk M w \<longleftrightarrow>
     (\<forall>cm \<in> M. cm_cache cm < w_next_cache w) \<and>
     (\<forall>a < w_next_cache w. cache_inv L STATE_CACHE_CAPACITY (w_caches w a)) \<and>
     (\<forall>cm \<in> M. \<forall>i k st. wc_live (cy_cache (w_caches w (cm_cache cm))) i = Some (k, st) \<longrightarrow>
        made_for mk k (visible (uncached_inner cm)) st) \<and>
     (\<forall>cm \<in> M. \<forall>cm' \<in> M. cm_cache cm = cm_cache cm' \<longrightarrow> uncached_inner cm = uncached_inner cm')"

lemma world_invD:
  assumes "world_inv L mk M w" "cm \<in> M"
  shows "cm_cache cm < w_next_cache w"
    "cache_inv L STATE_CACHE_CAPACITY (w_caches w (cm_cache cm))"
    "wc_live (cy_cache (w_caches w (cm_cache cm))) i = Some (k, st) \<Longrightarrow>
       made_for mk k (visible (uncached_inner cm)) st"
    "cm' \<in> M \<Longrightarrow> cm_cache cm = cm_cache cm' \<Longrightarrow> uncached_inner cm = uncached_inner cm'"
  using assms unfolding world_inv_def by blast+

lemma world_inv_cong:
  "w_caches w' = w_caches w \<Longrightarrow> w_next_cache w' = w_next_cache w \<Longrightarrow>
   world_inv L mk M w' = world_inv L mk M w"
  by (simp only: world_inv_def)

lemma world_invI:
  assumes "\<And>cm. cm \<in> M \<Longrightarrow> cm_cache cm < w_next_cache w"
    and "\<And>a. a < w_next_cache w \<Longrightarrow> cache_inv L STATE_CACHE_CAPACITY (w_caches w a)"
    and "\<And>cm i k st. cm \<in> M \<Longrightarrow> wc_live (cy_cache (w_caches w (cm_cache cm))) i = Some (k, st) \<Longrightarrow>
      made_for mk k (visible (uncached_inner cm)) st"
    and "\<And>cm cm'. cm \<in> M \<Longrightarrow> cm' \<in> M \<Longrightarrow> cm_cache cm = cm_cache cm' \<Longrightarrow>
      uncached_inner cm = uncached_inner cm'"
  shows "world_inv L mk M w"
  using assms unfolding world_inv_def by blast

lemma cache_inv_new: "lhm_ok L \<Longrightarrow>
  cache_inv L cap \<lparr>cy_cache = weak_cache_new L cap, cy_dying = {}\<rparr>"
  by (rule cache_reachable_inv [OF _ cache_init])

lemma world_inv_fresh:
  assumes "lhm_ok L" "world_inv L mk M w" "fresh_cache L w = (a, w')"
  shows "world_inv L mk (insert \<lparr>uncached_inner = u, cm_cache = a\<rparr> M) w'"
proof -
  let ?cm = "\<lparr>uncached_inner = u, cm_cache = a\<rparr>"
  have a: "a = w_next_cache w" and w': "w_next_cache w' = Suc a"
    and cells: "w_caches w' a = \<lparr>cy_cache = weak_cache_new L STATE_CACHE_CAPACITY, cy_dying = {}\<rparr>"
      "\<And>b. b \<noteq> a \<Longrightarrow> w_caches w' b = w_caches w b"
    using assms(3) by (auto simp: fresh_cache_def)
  have ne: "cm_cache cm < a" if "cm \<in> M" for cm
    using world_invD(1) [OF assms(2) that] a by simp
  have old: "w_caches w' (cm_cache cm) = w_caches w (cm_cache cm)" if "cm \<in> M" for cm
    using cells(2) ne [OF that] by simp
  show ?thesis
  proof (rule world_invI)
    fix cm assume "cm \<in> insert ?cm M"
    then show "cm_cache cm < w_next_cache w'" using ne w' by (auto intro: less_SucI)
  next
    fix b assume "b < w_next_cache w'"
    then show "cache_inv L STATE_CACHE_CAPACITY (w_caches w' b)"
      using assms(2) cells cache_inv_new [OF assms(1)] a w'
      unfolding world_inv_def by (cases "b = a") simp_all
  next
    fix cm i k st
    assume "cm \<in> insert ?cm M" "wc_live (cy_cache (w_caches w' (cm_cache cm))) i = Some (k, st)"
    then show "made_for mk k (visible (uncached_inner cm)) st"
      using cells(1) old world_invD(3) [OF assms(2), of cm i k st]
      by (cases "cm = ?cm") (simp_all add: weak_cache_new_def)
  next
    fix cm cm' assume "cm \<in> insert ?cm M" "cm' \<in> insert ?cm M" "cm_cache cm = cm_cache cm'"
    then show "uncached_inner cm = uncached_inner cm'"
      using ne [of cm] ne [of cm'] world_invD(4) [OF assms(2), of cm cm'] by auto
  qed
qed

text \<open>A lookup returns a state made for the key and the manager's configuration.\<close>

lemma cache_get_made:
  assumes "lhm_ok L" "cache_inv L cap y"
    and "weak_cache_get L k mv (cy_cache y) = (Inr (i, st), c)"
  shows "(\<exists>j. wc_live (cy_cache y) j = Some (k, st)) \<or> mv = Inr st"
proof -
  let ?f = "fst (lhm_get_refresh L (wc_map (cy_cache y)) k)"
  have f: "?f = map_of (entries L (cy_cache y)) k"
    using lhm_laws(3) [OF assms(1)] by (simp add: entries_def)
  have "wc_live (cy_cache y) j = Some (k, st')"
    if "?f = Some j" "wc_live (cy_cache y) j = Some (k', st')" for j k' st'
  proof -
    have "(k, j) \<in> set (entries L (cy_cache y))" using that(1) f by (metis map_of_SomeD)
    then show ?thesis using assms(2) that(2) unfolding cache_inv_def Let_def by fastforce
  qed
  then show ?thesis
    using assms(3)
    by (fastforce simp: weak_cache_get_def Let_def Option.bind_eq_Some_conv
        split: prod.splits option.splits sum.splits)
qed

lemma cache_get_live:
  assumes "weak_cache_get L k mv c = (r, c')" "wc_live c' i = Some (k', st)"
  shows "wc_live c i = Some (k', st) \<or> k' = k \<and> mv = Inr st"
  using assms
  by (auto simp: weak_cache_get_def Let_def split: prod.splits option.splits sum.splits if_splits)


lemma world_inv_cell:
  assumes "world_inv L mk M w" "cache_inv L STATE_CACHE_CAPACITY y"
    and "\<And>cm i k st. cm \<in> M \<Longrightarrow> cm_cache cm = a \<Longrightarrow> wc_live (cy_cache y) i = Some (k, st) \<Longrightarrow>
      made_for mk k (visible (uncached_inner cm)) st"
  shows "world_inv L mk M (w\<lparr>w_caches := (w_caches w)(a := y)\<rparr>)"
proof (rule world_invI)
  fix cm i k st
  assume "cm \<in> M" "wc_live (cy_cache (w_caches (w\<lparr>w_caches := (w_caches w)(a := y)\<rparr>) (cm_cache cm))) i = Some (k, st)"
  then show "made_for mk k (visible (uncached_inner cm)) st"
    using assms(3) world_invD(3) [OF assms(1)] by (cases "cm_cache cm = a") auto
next
  fix cm assume "cm \<in> M"
  then show "cm_cache cm < w_next_cache (w\<lparr>w_caches := (w_caches w)(a := y)\<rparr>)"
    using world_invD(1) [OF assms(1)] by simp
next
  fix b assume "b < w_next_cache (w\<lparr>w_caches := (w_caches w)(a := y)\<rparr>)"
  then show "cache_inv L STATE_CACHE_CAPACITY (w_caches (w\<lparr>w_caches := (w_caches w)(a := y)\<rparr>) b)"
    using assms(1,2) by (cases "b = a") (simp_all add: world_inv_def)
qed (rule world_invD(4) [OF assms(1)])

lemma sb_build_world:
  assumes L: "lhm_ok L" and inv: "world_inv L mk M w" and sb: "sb_cache_manager sb \<in> M"
    and build: "sb_build L mk rt sb config oi w = (r, w')"
  shows "world_inv L mk M w'"
    and "r = Inr (i, st) \<Longrightarrow> \<exists>n b. mk n b = Inr st \<and> b = sb_builder rt sb config oi"
    and "w_clients w' = w_clients w" "w_next_client w' = w_next_client w"
proof -
  let ?b = "sb_builder rt sb config oi"
  let ?cm = "sb_cache_manager sb"
  let ?y = "w_caches w (cm_cache ?cm)"
  obtain c where get: "weak_cache_get L (cached ?b) (mk (w_calls w) ?b) (cy_cache ?y) = (r, c)"
    and w': "w' = w\<lparr>w_caches := (w_caches w)(cm_cache ?cm := ?y\<lparr>cy_cache := c\<rparr>), w_calls := w_calls w + 1\<rparr>"
    using build unfolding sb_build_def Let_def by (simp split: prod.splits)
  have yinv: "cache_inv L STATE_CACHE_CAPACITY ?y" by (rule world_invD(2) [OF inv sb])
  have own: "made_for mk (cached ?b) (visible (uncached_inner ?cm)) st" if "mk (w_calls w) ?b = Inr st" for st
    using that sb_builder_uncached [of rt sb config oi] unfolding made_for_def by blast
  let ?w = "w\<lparr>w_caches := (w_caches w)(cm_cache ?cm := ?y\<lparr>cy_cache := c\<rparr>)\<rparr>"
  have "world_inv L mk M ?w"
  proof (rule world_inv_cell [OF inv cache_inv_get [OF L yinv get]])
    fix cm i k st
    assume cm: "cm \<in> M" "cm_cache cm = cm_cache ?cm"
      and live: "wc_live (cy_cache (?y\<lparr>cy_cache := c\<rparr>)) i = Some (k, st)"
    have "uncached_inner cm = uncached_inner ?cm" by (rule world_invD(4) [OF inv cm(1) sb cm(2)])
    moreover have "wc_live c i = Some (k, st)" using live by simp
    from cache_get_live [OF get this] have "made_for mk k (visible (uncached_inner ?cm)) st"
      using own world_invD(3) [OF inv sb, of i k st] by blast
    ultimately show "made_for mk k (visible (uncached_inner cm)) st" by simp
  qed
  moreover have "world_inv L mk M w' = world_inv L mk M ?w" by (rule world_inv_cong) (simp_all add: w')
  ultimately show "world_inv L mk M w'" by simp
  show "\<exists>n b. mk n b = Inr st \<and> b = ?b" if "r = Inr (i, st)"
  proof -
    have "(\<exists>j. wc_live (cy_cache ?y) j = Some (cached ?b, st)) \<or> mk (w_calls w) ?b = Inr st"
      using cache_get_made [OF L yinv] get that by blast
    then have "made_for mk (cached ?b) (visible (uncached_inner ?cm)) st"
      using own world_invD(3) [OF inv sb] by blast
    then obtain n b where "mk n b = Inr st" "cached b = cached ?b" "uncached b = uncached ?b"
      unfolding made_for_def sb_builder_uncached by blast
    then show ?thesis by (intro exI [of _ n] exI [of _ b]) (simp add: builder.equality)
  qed
  show "w_clients w' = w_clients w" "w_next_client w' = w_next_client w" by (simp_all add: w')
qed

lemma weak_cache_get_total: "\<exists>iv c'. weak_cache_get L k (Inr v) c = (Inr iv, c')"
  by (auto simp: weak_cache_get_def Let_def split: prod.split option.split)

lemma sb_build_made:
  assumes st: "mk (w_calls w) (sb_builder rt sb config oi) = Inr st"
  shows "\<exists>i st w'. sb_build L mk rt sb config oi w = (Inr (i, st), w')"
proof -
  have "\<exists>iv c'. weak_cache_get L (cached (sb_builder rt sb config oi))
      (mk (w_calls w) (sb_builder rt sb config oi))
      (cy_cache (w_caches w (cm_cache (sb_cache_manager sb)))) = (Inr iv, c')"
    unfolding st by (rule weak_cache_get_total)
  then show ?thesis unfolding sb_build_def Let_def by (elim exE) (auto split: prod.split)
qed

lemma sb_build_total:
  assumes "\<And>n b. \<exists>st. mk n b = Inr st"
  shows "\<exists>i st w'. sb_build L mk rt sb config oi w = (Inr (i, st), w')"
  using sb_build_made assms by metis

lemma world_inv_mono: "world_inv L mk M w \<Longrightarrow> M' \<subseteq> M \<Longrightarrow> world_inv L mk M' w"
  unfolding world_inv_def by blast

lemma factory_step_inv:
  assumes L: "lhm_ok L" and inv: "world_inv L mk (managers y) (fs_world y)"
    and step: "factory_step L mk y y'"
  shows "world_inv L mk (managers y') (fs_world y')"
  using step
proof cases
  case (fs_new h agent f w)
  obtain a where a: "fresh_cache L (fs_world y) = (a, w)"
    and f: "\<exists>u. cf_cache_manager f = \<lparr>uncached_inner = u, cm_cache = a\<rparr>"
    using fs_new(2) by (auto simp: client_factory_new_def split: prod.splits)
  from f obtain u where "managers y' = insert \<lparr>uncached_inner = u, cm_cache = a\<rparr> (managers y)"
    using fs_new(1) by (auto simp: managers_def)
  then show ?thesis using world_inv_fresh [OF L inv a, of u] fs_new(1) by simp
next
  case (fs_set f opt)
  have "cf_cache_manager (set_option opt f) = cf_cache_manager f" by (cases opt) simp_all
  then have "managers y' = managers y" using fs_set by (auto simp: managers_def)
  then show ?thesis using inv fs_set(1) by simp
next
  case (fs_uncached f uopt f' w)
  obtain a where a: "fresh_cache L (fs_world y) = (a, w)"
    and f': "\<exists>u. cf_cache_manager f' = \<lparr>uncached_inner = u, cm_cache = a\<rparr>"
    using fs_uncached(3)
    by (cases "cf_cache_manager f") (auto simp: set_uncached_def uncached_mut_def split: prod.splits)
  from f' obtain u where "managers y' = insert \<lparr>uncached_inner = u, cm_cache = a\<rparr> (managers y)"
    using fs_uncached(1) by (auto simp: managers_def)
  then show ?thesis using world_inv_fresh [OF L inv a, of u] fs_uncached(1) by simp
next
  case (fs_state_builder f service)
  then have "managers y' \<subseteq> managers y" by (auto simp: managers_def state_builder_of_def)
  then show ?thesis using world_inv_mono [OF inv] fs_state_builder(1) by simp
next
  case (fs_build sb rt config oi r w)
  have "sb_cache_manager sb \<in> managers y" using fs_build(2) by (simp add: managers_def)
  from sb_build_world(1) [OF L inv this fs_build(3)] show ?thesis
    using fs_build(1) by (simp add: managers_def)
next
  case (fs_clients cells n)
  have "world_inv L mk (managers y) (fs_world y') = world_inv L mk (managers y) (fs_world y)"
    by (rule world_inv_cong) (simp_all add: fs_clients)
  then show ?thesis using inv fs_clients by (simp add: managers_def)
next
  case (fs_cache a c i k v c')
  have c: "cache_inv L STATE_CACHE_CAPACITY c"
    using inv fs_cache(2,3) unfolding world_inv_def by blast
  have "cache_inv L STATE_CACHE_CAPACITY c'"
    using fs_cache(4) cache_inv_die [OF c] cache_inv_evict [OF L c] by blast
  moreover have "wc_live (cy_cache c') j = Some p \<Longrightarrow> wc_live (cy_cache c) j = Some p" for j p
    using fs_cache(4)
    by (auto simp: weak_cache_die_def weak_cache_evict_def split: option.splits if_splits)
  ultimately have "world_inv L mk (managers y)
      ((fs_world y)\<lparr>w_caches := (w_caches (fs_world y))(a := c')\<rparr>)"
    using world_invD(3) [OF inv] fs_cache(3) by (intro world_inv_cell [OF inv]) blast+
  then show ?thesis using fs_cache(1) by (simp add: managers_def)
qed

lemma factory_reachable_inv:
  assumes "lhm_ok L" "factory_reachable L mk y"
  shows "world_inv L mk (managers y) (fs_world y)"
  using assms(2)
proof induction
  case fs_init
  then show ?case by (simp add: world_inv_def managers_def world_new_def)
next
  case (fs_more y y')
  then show ?case using factory_step_inv [OF assms(1)] by blast
qed

text \<open>C10: The cache of client states is transparent. Whatever factories were created, cloned and
  reconfigured before, and whatever other clients did with the shared caches, a client that is built
  gets a state that was made from exactly the builder its own factory settings, service
  configuration and host index describe: never one made with another metrics registry, host metrics
  registry or Conjure runtime, although these are not part of the cache key.\<close>

theorem factory_cache_transparent:
  assumes "lhm_ok L" "factory_reachable L mk y" "sb \<in> fs_builders y"
    and "sb_build L mk rt sb config oi (fs_world y) = (Inr (i, st), w)"
  shows "\<exists>n. mk n (sb_builder rt sb config oi) = Inr st"
proof -
  have "sb_cache_manager sb \<in> managers y" using assms(3) by (simp add: managers_def)
  from sb_build_world(2) [OF assms(1) factory_reachable_inv [OF assms(1,2)] this assms(4)]
  show ?thesis by blast
qed

text \<open>A factory whose metrics registry was replaced, for the witnesses.\<close>

definition demo_mk :: "nat \<Rightarrow> builder \<Rightarrow> unit + handle option" where
  "demo_mk n b = Inr (uc_metrics (uncached b))"

definition demo_sb :: state_builder where
  "demo_sb =
     \<lparr>sb_service = ''svc'', sb_user_agent = user_agent_new \<lparr>agent_name = ''t'', agent_version = ''1''\<rparr>,
      sb_client_qos = Enabled, sb_server_qos = AutomaticRetry, sb_service_error = WrapInNewError,
      sb_idempotency = ByMethod, sb_node_selection_strategy = PinUntilError,
      sb_error_parameter_format = Legacy,
      sb_cache_manager = \<lparr>uncached_inner = \<lparr>uc_metrics = Some 7, uc_host_metrics = None,
         uc_blocking_handle = None, uc_conjure_runtime = 3\<rparr>, cm_cache = 1\<rparr>\<rparr>"

definition demo_world :: "((cached_config \<times> nat) list, handle option) world" where
  "demo_world = snd (fresh_cache list_lhm (snd (fresh_cache list_lhm (world_new list_lhm))))"

lemma demo_factory_reachable:
  fixes mk :: "nat \<Rightarrow> builder \<Rightarrow> unit + handle option"
  shows
  "\<exists>fs. factory_reachable list_lhm mk \<lparr>fs_factories = fs, fs_builders = {demo_sb}, fs_world = demo_world\<rparr>"
proof -
  let ?a = "user_agent_new \<lparr>agent_name = ''t'', agent_version = ''1''\<rparr>"
  let ?w0 = "world_new list_lhm :: ((cached_config \<times> nat) list, handle option) world"
  let ?w1 = "snd (fresh_cache list_lhm ?w0)"
  let ?f1 = "fst (client_factory_new list_lhm 3 ?a ?w0)"
  let ?f2 = "fst (set_uncached list_lhm (SetMetrics 7) ?f1 ?w1)"
  have "factory_reachable list_lhm mk \<lparr>fs_factories = {}, fs_builders = {}, fs_world = ?w0\<rparr>"
    by (rule fs_init)
  from fs_more [OF this fs_new [of _ 3 ?a _ ?f1 ?w1]]
  have "factory_reachable list_lhm mk \<lparr>fs_factories = {?f1}, fs_builders = {}, fs_world = ?w1\<rparr>"
    by (simp add: client_factory_new_def split: prod.split)
  from fs_more [OF this fs_uncached [of ?f1 _ _ "SetMetrics 7" ?f2 demo_world]]
  have "factory_reachable list_lhm mk \<lparr>fs_factories = {?f2, ?f1}, fs_builders = {}, fs_world = demo_world\<rparr>"
    by (simp add: set_uncached_def uncached_mut_def demo_world_def split: prod.split)
  from fs_more [OF this fs_state_builder [of ?f2 _ _ _ "''svc''"]]
  have "factory_reachable list_lhm mk \<lparr>fs_factories = {?f2, ?f1},
      fs_builders = {state_builder_of ''svc'' ?f2}, fs_world = demo_world\<rparr>" by simp
  moreover have "state_builder_of ''svc'' ?f2 = demo_sb"
    by (simp add: state_builder_of_def set_uncached_def uncached_mut_def client_factory_new_def
        fresh_cache_def world_new_def demo_sb_def)
  ultimately show ?thesis by (metis (no_types, lifting))
qed

theorem factory_cache_transparent_witness:
  "\<exists>i w. sb_build list_lhm demo_mk 0 demo_sb service_config_default None demo_world = (Inr (i, Some 7), w)"
proof -
  obtain fs where y: "factory_reachable list_lhm demo_mk
      \<lparr>fs_factories = fs, fs_builders = {demo_sb}, fs_world = demo_world\<rparr>"
    using demo_factory_reachable by blast
  obtain i st w where b: "sb_build list_lhm demo_mk 0 demo_sb service_config_default None demo_world = (Inr (i, st), w)"
    using sb_build_total [of demo_mk list_lhm 0 demo_sb service_config_default None demo_world]
    by (auto simp: demo_mk_def)
  have "\<exists>n. demo_mk n (sb_builder 0 demo_sb service_config_default None) = Inr st"
    using factory_cache_transparent [OF list_lhm_ok y, of demo_sb 0 service_config_default None i st w] b
    by simp
  then have "st = Some 7" by (simp add: demo_mk_def sb_builder_uncached visible_def demo_sb_def)
  with b show ?thesis by blast
qed

end
