(* ===== verification/PerHostClients.thy ===== *)
theory PerHostClients
  imports ClientFactory
begin

text \<open>
  The collection of per-host clients of \<^verbatim>\<open>client_factory.rs\<close> over any sequence of refreshes: which clients it
  has, which state each of them runs, and which of them survive. The definitions of a refresh are in
  \<^verbatim>\<open>ClientFactory\<close>.
\<close>

subsection \<open>What a client runs\<close>

text \<open>The client's cell holds a state that was made for a builder.\<close>

definition serves :: "(nat \<Rightarrow> builder \<Rightarrow> 'e + 'st) \<Rightarrow> ('m, 'st) world \<Rightarrow> nat \<Rightarrow> builder \<Rightarrow> bool" where
  "serves mk w client b \<longleftrightarrow> (\<exists>i st n. w_clients w client = Some (i, st) \<and> mk n b = Inr st)"

text \<open>
  The client of a handle runs a state made for the handle's host and index. While \<open>clean\<close>, that is as long as no
  refresh has failed, this is the configuration the handle holds.
\<close>

definition handle_ok ::
  "bool \<Rightarrow> (nat \<Rightarrow> builder \<Rightarrow> 'e + 'st) \<Rightarrow> handle \<Rightarrow> state_builder \<Rightarrow> ('m, 'st) world \<Rightarrow> url \<Rightarrow> client_handle \<Rightarrow> bool" where
  "handle_ok clean mk rt sb w u h \<longleftrightarrow>
     ch_client h < w_next_client w \<and>
     (\<exists>c. serves mk w (ch_client h) (sb_builder rt sb (host_config c u) (Some (ch_index h))) \<and>
        (clean \<longrightarrow> ch_config h = host_config c u))"

definition handles_ok ::
  "bool \<Rightarrow> (nat \<Rightarrow> builder \<Rightarrow> 'e + 'st) \<Rightarrow> handle \<Rightarrow> state_builder \<Rightarrow> ('m, 'st) world \<Rightarrow>
   (url \<rightharpoonup> client_handle) \<Rightarrow> bool" where
  "handles_ok clean mk rt sb w H \<longleftrightarrow>
     (\<forall>u h. H u = Some h \<longrightarrow> handle_ok clean mk rt sb w u h) \<and>
     (\<forall>u u' h h'. H u = Some h \<longrightarrow> H u' = Some h' \<longrightarrow> ch_client h = ch_client h' \<longrightarrow> u = u')"

lemma handle_ok_weaken: "handle_ok clean mk rt sb w u h \<Longrightarrow> (clean' \<Longrightarrow> clean) \<Longrightarrow> handle_ok clean' mk rt sb w u h"
  by (auto simp: handle_ok_def)

text \<open>Only the cell of one client, old or new, has changed.\<close>

definition touches :: "nat \<Rightarrow> ('m, 'st) world \<Rightarrow> ('m, 'st) world \<Rightarrow> bool" where
  "touches a w w' \<longleftrightarrow> w_next_client w \<le> w_next_client w' \<and> (\<forall>b. b \<noteq> a \<longrightarrow> w_clients w' b = w_clients w b)"

lemma handle_ok_touches:
  "handle_ok clean mk rt sb w u h \<Longrightarrow> touches a w w' \<Longrightarrow> ch_client h \<noteq> a \<Longrightarrow> handle_ok clean mk rt sb w' u h"
  by (auto simp: handle_ok_def touches_def serves_def)

lemma client_callback_ok:
  assumes "lhm_ok L" "world_inv L mk M w" "sb_cache_manager sb \<in> M"
    and "client_callback L mk rt sb oi a config w = (r, w')"
  shows "world_inv L mk M w' \<and> touches a w w' \<and> w_next_client w' = w_next_client w \<and>
    (r = Inr () \<longrightarrow> serves mk w' a (sb_builder rt sb config oi)) \<and>
    (\<forall>e. r = Inl e \<longrightarrow> w_clients w' = w_clients w)"
proof -
  obtain q w1 where b: "sb_build L mk rt sb config oi w = (q, w1)" by fastforce
  note sb = sb_build_world [OF assms(1-3) b]
  show ?thesis
  proof (cases q)
    case (Inl e)
    then show ?thesis using assms(4) b sb(1,3,4) by (auto simp: client_callback_def touches_def)
  next
    case (Inr p)
    then obtain i st where p: "q = Inr (i, st)" by (cases p) simp
    have w': "w' = w1\<lparr>w_clients := (w_clients w1)(a \<mapsto> (i, st))\<rparr>"
      and r: "r = Inr ()" using assms(4) b p by (simp_all add: client_callback_def)
    have "world_inv L mk M w' = world_inv L mk M w1" by (rule world_inv_cong) (simp_all add: w')
    then have "world_inv L mk M w'" using sb(1) by simp
    then show ?thesis using sb(2) [OF p] sb(3,4) r by (auto simp: w' touches_def serves_def)
  qed
qed

lemma raw_client_ok:
  assumes "lhm_ok L" "world_inv L mk M w" "sb_cache_manager sb \<in> M"
    and "raw_client L mk rt R sb config oi w = (r, w')"
  shows "world_inv L mk M w' \<and> touches (w_next_client w) w w' \<and>
    (\<forall>a. r = Inr a \<longrightarrow> a = w_next_client w \<and> w_next_client w' = Suc a \<and>
       serves mk w' a (sb_builder rt sb config oi))"
proof -
  obtain q w1 where b: "sb_build L mk rt sb config oi w = (q, w1)" by fastforce
  note sb = sb_build_world [OF assms(1-3) b]
  show ?thesis
  proof (cases q)
    case (Inl e)
    then show ?thesis using assms(4) b sb(1,3,4) by (auto simp: raw_client_def touches_def)
  next
    case (Inr p)
    then obtain i st where p: "q = Inr (i, st)" by (cases p) simp
    let ?a = "w_next_client w"
    let ?w2 = "w1\<lparr>w_clients := (w_clients w1)(?a \<mapsto> (i, st)), w_next_client := ?a + 1\<rparr>"
    have "world_inv L mk M ?w2 = world_inv L mk M w1" by (rule world_inv_cong) simp_all
    then have w2: "world_inv L mk M ?w2" using sb(1) by simp
    have s2: "serves mk ?w2 ?a (sb_builder rt sb config oi)" using sb(2) [OF p] by (auto simp: serves_def)
    have t2: "touches ?a w ?w2" using sb(3) by (simp add: touches_def)
    show ?thesis
    proof (cases "rf_on_subscribe R")
      case True
      obtain q2 w3 where c: "client_callback L mk rt sb oi ?a config ?w2 = (q2, w3)" by fastforce
      have r: "(r, w') = (case q2 of Inl e \<Rightarrow> (Inl e, w3) | Inr _ \<Rightarrow> (Inr ?a, w3))"
        using assms(4) True b p c sb(4) by (simp add: raw_client_def Let_def split: sum.splits)
      from client_callback_ok [OF assms(1) w2 assms(3) c] t2 show ?thesis
        using r by (auto simp: touches_def split: sum.splits)
    next
      case False
      then have "r = Inr ?a" "w' = ?w2" using assms(4) b p sb(4) by (simp_all add: raw_client_def Let_def)
      then show ?thesis using w2 s2 t2 by simp
    qed
  qed
qed

lemma handle_refresh_ok:
  assumes "lhm_ok L" "refreshable_ok R" "world_inv L mk M w" "sb_cache_manager sb \<in> M"
    and "handle_ok clean mk rt sb w u h" "handle_refresh L mk rt R sb (host_config c u) h w = (es, h', w')"
  shows "world_inv L mk M w' \<and> touches (ch_client h) w w' \<and> ch_client h' = ch_client h \<and>
    ch_config h' = host_config c u \<and> handle_ok (clean \<and> es = []) mk rt sb w' u h'"
proof (cases "rf_notify R (ch_config h) (host_config c u)")
  case True
  obtain q w1 where cb: "client_callback L mk rt sb (Some (ch_index h)) (ch_client h) (host_config c u) w = (q, w1)"
    by fastforce
  note ok = client_callback_ok [OF assms(1,3,4) cb]
  show ?thesis
  proof (cases q)
    case (Inl e)
    then have "es = [e]" "h' = h\<lparr>ch_config := host_config c u\<rparr>" "w' = w1"
      using assms(6) True cb by (auto simp: handle_refresh_def)
    with ok Inl assms(5) show ?thesis by (auto simp: handle_ok_def serves_def)
  next
    case (Inr x)
    then have "es = []" "h' = h\<lparr>ch_config := host_config c u\<rparr>" "w' = w1"
      using assms(6) True cb by (auto simp: handle_refresh_def)
    with ok Inr assms(5) show ?thesis by (auto simp: handle_ok_def)
  qed
next
  case False
  then have "ch_config h = host_config c u" using assms(2) by (auto simp: refreshable_ok_def)
  then show ?thesis using assms(3,5,6) False by (auto simp: handle_refresh_def touches_def)
qed

text \<open>The handles still to be claimed and the new ones, through the loop.\<close>

definition split_ok ::
  "bool \<Rightarrow> (nat \<Rightarrow> builder \<Rightarrow> 'e + 'st) \<Rightarrow> handle \<Rightarrow> state_builder \<Rightarrow> ('m, 'st) world \<Rightarrow>
   (url \<rightharpoonup> client_handle) \<Rightarrow> (url \<rightharpoonup> client_handle) \<Rightarrow> bool" where
  "split_ok clean mk rt sb w H N \<longleftrightarrow> handles_ok clean mk rt sb w H \<and> handles_ok clean mk rt sb w N \<and>
     (\<forall>u u' h h'. H u = Some h \<longrightarrow> N u' = Some h' \<longrightarrow> ch_client h \<noteq> ch_client h')"

lemma split_okD:
  assumes "split_ok clean mk rt sb w H N"
  shows "H u = Some h \<Longrightarrow> handle_ok clean mk rt sb w u h" "N u = Some h \<Longrightarrow> handle_ok clean mk rt sb w u h"
    "H u = Some h \<Longrightarrow> H u' = Some h' \<Longrightarrow> ch_client h = ch_client h' \<Longrightarrow> u = u'"
    "N u = Some h \<Longrightarrow> N u' = Some h' \<Longrightarrow> ch_client h = ch_client h' \<Longrightarrow> u = u'"
    "H u = Some h \<Longrightarrow> N u' = Some h' \<Longrightarrow> ch_client h \<noteq> ch_client h'"
  using assms unfolding split_ok_def handles_ok_def by blast+

lemma split_ok_claim:
  assumes "split_ok clean mk rt sb w H N" "H u = Some h" "touches (ch_client h) w w'"
    and "handle_ok clean' mk rt sb w' u h'" "ch_client h' = ch_client h" "clean' \<Longrightarrow> clean"
  shows "split_ok clean' mk rt sb w' (H(u := None)) (N(u \<mapsto> h'))"
proof -
  note s = split_okD [OF assms(1)]
  have H: "ch_client x \<noteq> ch_client h" if "H v = Some x" "v \<noteq> u" for v x using s(3) [OF that(1) assms(2)] that by blast
  have N: "ch_client x \<noteq> ch_client h" if "N v = Some x" for v x using s(5) [OF assms(2) that] by simp
  have mono: "handle_ok clean' mk rt sb w' v x" if "handle_ok clean mk rt sb w v x" "ch_client x \<noteq> ch_client h" for v x
    using handle_ok_weaken [OF handle_ok_touches [OF that(1) assms(3) that(2)] assms(6)] .
  have "handles_ok clean' mk rt sb w' (H(u := None))"
    using s(1,3) H mono unfolding handles_ok_def by (auto split: if_splits)
  moreover have "handles_ok clean' mk rt sb w' (N(u \<mapsto> h'))"
    using s(2,4) N mono assms(4,5) unfolding handles_ok_def by (auto split: if_splits) metis+
  moreover have "ch_client x \<noteq> ch_client x'" if "(H(u := None)) v = Some x" "(N(u \<mapsto> h')) v' = Some x'" for v v' x x'
    using that s(5) H assms(5) by (auto split: if_splits)
  ultimately show ?thesis unfolding split_ok_def by blast
qed

lemma split_ok_fresh:
  assumes "split_ok clean mk rt sb w H N" "touches (w_next_client w) w w'"
    and "handle_ok clean mk rt sb w' u h'" "ch_client h' = w_next_client w"
  shows "split_ok clean mk rt sb w' H (N(u \<mapsto> h'))"
proof -
  note s = split_okD [OF assms(1)]
  have lt: "ch_client x < w_next_client w" if "H v = Some x \<or> N v = Some x" for v x
    using that s(1,2) unfolding handle_ok_def by blast
  have mono: "handle_ok clean mk rt sb w' v x" if "H v = Some x \<or> N v = Some x" for v x
  proof -
    have "ch_client x \<noteq> w_next_client w" using lt [OF that] by simp
    from handle_ok_touches [OF _ assms(2) this] that s(1,2) show ?thesis by blast
  qed
  have "handles_ok clean mk rt sb w' H" using s(3) mono unfolding handles_ok_def by blast
  moreover have "handles_ok clean mk rt sb w' (N(u \<mapsto> h'))"
    using s(4) lt mono assms(3,4) unfolding handles_ok_def by (auto split: if_splits) (metis less_irrefl)+
  moreover have "ch_client x \<noteq> ch_client x'" if "H v = Some x" "(N(u \<mapsto> h')) v' = Some x'" for v v' x x'
    using that s(5) lt assms(4) by (auto split: if_splits) (metis less_irrefl)
  ultimately show ?thesis unfolding split_ok_def by blast
qed

lemma split_ok_skip:
  assumes "split_ok clean mk rt sb w H N" "touches (w_next_client w) w w'" "clean' \<Longrightarrow> clean"
  shows "split_ok clean' mk rt sb w' H N"
proof -
  note s = split_okD [OF assms(1)]
  have "handle_ok clean' mk rt sb w' v x" if "H v = Some x \<or> N v = Some x" for v x
  proof -
    have ok: "handle_ok clean mk rt sb w v x" using that s(1,2) by blast
    then have "ch_client x \<noteq> w_next_client w" by (auto simp: handle_ok_def)
    from handle_ok_weaken [OF handle_ok_touches [OF ok assms(2) this] assms(3)] show ?thesis .
  qed
  with s(3-5) show ?thesis unfolding split_ok_def handles_ok_def by blast
qed

lemma per_host_loop_errors:
  "per_host_loop L mk rt R sb c xs H N C es w = (N', C', [], w') \<Longrightarrow> es = []"
proof (induction xs arbitrary: H N C es w)
  case (Cons x xs)
  show ?case
    using Cons.prems by (cases x) (auto dest!: Cons.IH split: option.splits prod.splits sum.splits)
qed simp

lemma per_host_loop_ok:
  assumes L: "lhm_ok L" and R: "refreshable_ok R" and sb: "sb_cache_manager sb \<in> M"
  shows "per_host_loop L mk rt R sb c xs H N C es w = (N', C', es', w') \<Longrightarrow>
    world_inv L mk M w \<Longrightarrow> split_ok clean mk rt sb w H N \<Longrightarrow> C = map_option ch_client \<circ> N \<Longrightarrow>
    (\<forall>u h. N u = Some h \<longrightarrow> ch_config h = host_config c u) \<Longrightarrow>
    world_inv L mk M w' \<and> handles_ok (clean \<and> es' = []) mk rt sb w' N' \<and> C' = map_option ch_client \<circ> N' \<and>
    dom N' \<subseteq> dom N \<union> snd ` set xs \<and> (es' = [] \<longrightarrow> dom N' = dom N \<union> snd ` set xs) \<and>
    (\<forall>u h. N' u = Some h \<longrightarrow> ch_config h = host_config c u)"
    (is "_ \<Longrightarrow> _ \<Longrightarrow> _ \<Longrightarrow> _ \<Longrightarrow> _ \<Longrightarrow> ?concl clean N xs")
proof (induction xs arbitrary: clean H N C es w)
  case Nil
  then have "handles_ok (clean \<and> es' = []) mk rt sb w' N'"
    using split_okD(2,4) [OF Nil(3)] handle_ok_weaken [of clean mk rt sb w'] unfolding handles_ok_def by auto
  with Nil show ?case by auto
next
  case (Cons x xs)
  obtain i u where x: "x = (i, u)" by (cases x)
  note prem = Cons.prems
  show ?case
  proof (cases "H u")
    case (Some h)
    obtain es1 h' w1 where r: "handle_refresh L mk rt R sb (host_config c u) h w = (es1, h', w1)"
      by (metis prod_cases3)
    have loop: "per_host_loop L mk rt R sb c xs (H(u := None)) (N(u \<mapsto> h')) (C(u \<mapsto> ch_client h'))
        (es @ es1) w1 = (N', C', es', w')"
      using prem(1) Some r x by simp
    then have es1: "es' = [] \<Longrightarrow> es1 = []" using per_host_loop_errors by blast
    note ok = handle_refresh_ok [OF L R prem(2) sb split_okD(1) [OF prem(3) Some] r]
    have "world_inv L mk M w1" "split_ok (clean \<and> es1 = []) mk rt sb w1 (H(u := None)) (N(u \<mapsto> h'))"
      using split_ok_claim [OF prem(3) Some] ok by blast+
    moreover have "C(u \<mapsto> ch_client h') = map_option ch_client \<circ> (N(u \<mapsto> h'))"
      using prem(4) by (auto simp: fun_eq_iff)
    moreover have "\<forall>v g. (N(u \<mapsto> h')) v = Some g \<longrightarrow> ch_config g = host_config c v"
      using ok prem(5) by (metis fun_upd_apply option.inject)
    ultimately have IH: "?concl (clean \<and> es1 = []) (N(u \<mapsto> h')) xs" by (rule Cons.IH [OF loop])
    have flag: "((clean \<and> es1 = []) \<and> es' = []) = (clean \<and> es' = [])" using es1 by blast
    have dom: "dom (N(u \<mapsto> h')) \<union> snd ` set xs = dom N \<union> snd ` set (x # xs)" by (auto simp: x)
    show ?thesis using IH unfolding flag dom .
  next
    case None
    obtain q w1 where r: "raw_client L mk rt R sb (host_config c u) (Some (of_nat i)) w = (q, w1)"
      by fastforce
    note ok = raw_client_ok [OF L prem(2) sb r]
    show ?thesis
    proof (cases q)
      case (Inl e)
      then have loop: "per_host_loop L mk rt R sb c xs H N C (es @ [e]) w1 = (N', C', es', w')"
        using prem(1) None r x by simp
      then have ne: "es' \<noteq> []" using per_host_loop_errors by blast
      have "split_ok clean mk rt sb w1 H N" using split_ok_skip [OF prem(3)] ok by blast
      with ok have "?concl clean N xs" by (intro Cons.IH [OF loop _ _ prem(4,5)]) blast+
      with ne show ?thesis by (auto simp: x)
    next
      case (Inr a)
      let ?h = "\<lparr>ch_client = a, ch_index = of_nat i, ch_config = host_config c u\<rparr>"
      have loop: "per_host_loop L mk rt R sb c xs H (N(u \<mapsto> ?h)) (C(u \<mapsto> a)) es w1 = (N', C', es', w')"
        using prem(1) None r x Inr by simp
      have "handle_ok clean mk rt sb w1 u ?h" using ok Inr by (auto simp: handle_ok_def)
      then have "world_inv L mk M w1" "split_ok clean mk rt sb w1 H (N(u \<mapsto> ?h))"
        using split_ok_fresh [OF prem(3), of w1 u ?h] ok Inr by simp_all
      moreover have "C(u \<mapsto> a) = map_option ch_client \<circ> (N(u \<mapsto> ?h))"
        using prem(4) by (auto simp: fun_eq_iff)
      moreover have "\<forall>v g. (N(u \<mapsto> ?h)) v = Some g \<longrightarrow> ch_config g = host_config c v"
        using prem(5) by (metis client_handle.select_convs(3) fun_upd_apply option.inject)
      ultimately have "?concl clean (N(u \<mapsto> ?h)) xs" by (rule Cons.IH [OF loop])
      then show ?thesis by (auto simp: x)
    qed
  qed
qed


subsection \<open>The collection over time\<close>

text \<open>
  The states of a collection: it starts without clients, is refreshed with any configurations, with success or
  not, and in between other factories and clients do anything that leaves its own clients alone. The flag
  tells whether every refresh so far succeeded.
\<close>

inductive per_host_reach ::
  "('m, cached_config) lhm_api \<Rightarrow> (nat \<Rightarrow> builder \<Rightarrow> 'e + 'st) \<Rightarrow> handle \<Rightarrow> refreshable_api \<Rightarrow> state_builder \<Rightarrow>
   bool \<Rightarrow> ('m, 'st) factory_sys \<Rightarrow> (url \<rightharpoonup> client_handle) \<Rightarrow> bool"
  for L mk rt R sb where
  ph_start: "factory_reachable L mk y \<Longrightarrow> sb \<in> fs_builders y \<Longrightarrow> per_host_reach L mk rt R sb True y Map.empty"
| ph_refresh: "per_host_reach L mk rt R sb clean y H \<Longrightarrow>
    per_host_refresh L mk rt R sb c H (fs_world y) = (r, H', w) \<Longrightarrow>
    per_host_reach L mk rt R sb (clean \<and> (\<exists>x. r = Inr x)) (y\<lparr>fs_world := w\<rparr>) H'"
| ph_other: "per_host_reach L mk rt R sb clean y H \<Longrightarrow> factory_step L mk y y' \<Longrightarrow>
    w_next_client (fs_world y) \<le> w_next_client (fs_world y') \<Longrightarrow>
    (\<And>u h. H u = Some h \<Longrightarrow> w_clients (fs_world y') (ch_client h) = w_clients (fs_world y) (ch_client h)) \<Longrightarrow>
    per_host_reach L mk rt R sb clean y' H"

lemma factory_step_builders: "factory_step L mk y y' \<Longrightarrow> fs_builders y \<subseteq> fs_builders y'"
  by (cases rule: factory_step.cases) auto

lemma per_host_refresh_loop:
  assumes "per_host_refresh L mk rt R sb c H w = (r, H', w')"
  obtains clients es where
    "per_host_loop L mk rt R sb c (enumerate 0 (sc_uris c)) H Map.empty Map.empty [] w = (H', clients, es, w')"
    "r = (if es = [] then Inr clients else Inl (last es))"
  using assms by (auto simp: per_host_refresh_def split: prod.splits)

lemma enumerate_uris: "snd ` set (enumerate 0 xs) = set xs"
  by (metis list.set_map map_snd_enumerate)

lemma per_host_reach_inv:
  assumes "lhm_ok L" "refreshable_ok R" "per_host_reach L mk rt R sb clean y H"
  shows "world_inv L mk (managers y) (fs_world y) \<and> sb \<in> fs_builders y \<and>
    handles_ok clean mk rt sb (fs_world y) H \<and> finite (dom H)"
  using assms(3)
proof (induction rule: per_host_reach.induct)
  case (ph_start y)
  then show ?case using factory_reachable_inv [OF assms(1)] by (simp add: handles_ok_def)
next
  case (ph_refresh clean y H c r H' w)
  obtain clients es where loop:
    "per_host_loop L mk rt R sb c (enumerate 0 (sc_uris c)) H Map.empty Map.empty [] (fs_world y) = (H', clients, es, w)"
    "r = (if es = [] then Inr clients else Inl (last es))"
    using per_host_refresh_loop [OF ph_refresh(2)] by blast
  have sb: "sb_cache_manager sb \<in> managers y" using ph_refresh(3) by (simp add: managers_def)
  have "split_ok clean mk rt sb (fs_world y) H Map.empty"
    using ph_refresh(3) by (simp add: split_ok_def handles_ok_def)
  from per_host_loop_ok [OF assms(1,2) sb loop(1) _ this] ph_refresh(3)
  have "world_inv L mk (managers y) w" "handles_ok (clean \<and> es = []) mk rt sb w H'"
    "dom H' \<subseteq> set (sc_uris c)"
    by (simp_all add: enumerate_uris fun_eq_iff)
  moreover from this(3) have "finite (dom H')" by (rule finite_subset) simp
  moreover have "(\<exists>x. r = Inr x) \<longleftrightarrow> es = []" using loop(2) by simp
  ultimately show ?case using ph_refresh(3) by (simp add: managers_def)
next
  case (ph_other clean y H y')
  have "handle_ok clean mk rt sb (fs_world y') u h" if h: "H u = Some h" for u h
  proof -
    have "handle_ok clean mk rt sb (fs_world y) u h" using ph_other(5) h by (simp add: handles_ok_def)
    then show ?thesis using ph_other(3) ph_other(4) [OF h] unfolding handle_ok_def serves_def
      by (metis order_less_le_trans)
  qed
  then have "handles_ok clean mk rt sb (fs_world y') H" using ph_other(5) by (simp add: handles_ok_def)
  with ph_other(5) factory_step_inv [OF assms(1) _ ph_other(2)] factory_step_builders [OF ph_other(2)] show ?case by blast
qed


lemma raw_client_made:
  assumes "\<not> rf_on_subscribe R" "mk (w_calls w) (sb_builder rt sb config oi) = Inr st"
  shows "\<exists>w'. raw_client L mk rt R sb config oi w = (Inr (w_next_client w), w')"
proof -
  obtain i st w1 where b: "sb_build L mk rt sb config oi w = (Inr (i, st), w1)"
    using sb_build_made [of mk w rt sb config oi st L] assms(2) by blast
  then have "w_next_client w1 = w_next_client w" by (auto simp: sb_build_def Let_def split: prod.splits)
  with b assms(1) show ?thesis by (simp add: raw_client_def Let_def)
qed

text \<open>A refreshable that notifies of changes only, and two configurations of a service.\<close>

definition on_change :: refreshable_api where
  "on_change = \<lparr>rf_on_subscribe = False, rf_notify = (\<noteq>)\<rparr>"

lemma on_change_simps: "refreshable_ok on_change" "\<not> rf_on_subscribe on_change" "rf_notify on_change a b \<longleftrightarrow> a \<noteq> b"
  by (simp_all add: refreshable_ok_def on_change_def)

definition hosts :: "url list \<Rightarrow> service_config" where
  "hosts us = service_config_default\<lparr>sc_uris := us\<rparr>"

lemma first_refresh:
  assumes "\<And>n oi. \<exists>st. mk n (sb_builder 0 demo_sb (hosts [u]) oi) = Inr st"
  shows "\<exists>w. per_host_refresh L mk 0 on_change demo_sb (hosts [u]) Map.empty w0 =
    (Inr [u \<mapsto> w_next_client w0],
     [u \<mapsto> \<lparr>ch_client = w_next_client w0, ch_index = 0, ch_config = hosts [u]\<rparr>], w)"
proof -
  obtain w where "raw_client L mk 0 on_change demo_sb (hosts [u]) (Some 0) w0 = (Inr (w_next_client w0), w)"
    using raw_client_made [OF on_change_simps(2)] assms by meson
  then show ?thesis by (simp add: per_host_refresh_def host_config_def hosts_def)
qed


subsection \<open>After a failed refresh\<close>

text \<open>
  A refresh whose build fails is reported once. The handle holds the new configuration all the same, so the
  same configuration given again changes nothing for it: the second refresh succeeds, and the client still
  runs the state it had before the first.
\<close>

theorem failed_refresh_goes_stale:
  assumes "refreshable_ok R" "\<And>x. \<not> rf_notify R x x" "sc_uris c = [u]" "H u = Some h"
    and "per_host_refresh L mk rt R sb c H w = (Inl e, H', w')"
  shows "w_clients w' = w_clients w \<and> per_host_refresh L mk rt R sb c H' w' = (Inr [u \<mapsto> ch_client h], H', w')"
proof -
  obtain es h' w1 where r: "handle_refresh L mk rt R sb (host_config c u) h w = (es, h', w1)" by (metis prod_cases3)
  with assms(3-5) have e: "es \<noteq> []" "H' = [u \<mapsto> h']" "w' = w1"
    by (auto simp: per_host_refresh_def split: if_splits)
  then have h': "ch_client h' = ch_client h" "ch_config h' = host_config c u" and w1: "w_clients w1 = w_clients w"
    using r by (auto simp: handle_refresh_def client_callback_def sb_build_def Let_def
        split: if_splits prod.splits sum.splits)
  have "handle_refresh L mk rt R sb (host_config c u) h' w1 = ([], h', w1)"
    using assms(2) h'(2) by (simp add: handle_refresh_def)
  then show ?thesis using e h'(1) w1 assms(3) by (simp add: per_host_refresh_def)
qed

text \<open>A client state that cannot be built for seven retries, and a collection that is told to use seven.\<close>

definition picky_mk :: "nat \<Rightarrow> builder \<Rightarrow> unit + handle option" where
  "picky_mk n b = (if cc_max_num_retries (cached b) = 7 then Inl () else Inr None)"

lemma demo_retries:
  "cc_max_num_retries (cached (sb_builder rt demo_sb config oi)) =
     (case sc_max_num_retries config of Some n \<Rightarrow> n | None \<Rightarrow> 4)"
  unfolding sb_builder_def Let_def from_config_def
  by (simp add: demo_sb_def set_opt_def builder_setters builder_new_def split: option.splits)

theorem failed_refresh_goes_stale_witness:
  "\<exists>y H c e H' w'. per_host_reach list_lhm picky_mk 0 on_change demo_sb True y H \<and> c = (hosts [''https://a''])\<lparr>sc_max_num_retries := Some 7\<rparr> \<and>
     per_host_refresh list_lhm picky_mk 0 on_change demo_sb c H (fs_world y) = (Inl e, H', w') \<and>
     (\<exists>clients. per_host_refresh list_lhm picky_mk 0 on_change demo_sb c H' w' = (Inr clients, H', w'))"
proof -
  let ?a = "''https://a''"
  let ?c = "(hosts [?a])\<lparr>sc_max_num_retries := Some 7\<rparr>"
  have retries: "cc_max_num_retries (cached (sb_builder 0 demo_sb (hosts [?a]) oi)) = 4"
    "cc_max_num_retries (cached (sb_builder 0 demo_sb ?c oi)) = 7" for oi
    by (simp_all add: demo_retries hosts_def service_config_default_def)
  obtain fs where y: "factory_reachable list_lhm picky_mk
      \<lparr>fs_factories = fs, fs_builders = {demo_sb}, fs_world = demo_world\<rparr>"
    using demo_factory_reachable by blast
  let ?h = "\<lparr>ch_client = w_next_client demo_world, ch_index = 0, ch_config = hosts [?a]\<rparr>"
  have made: "\<exists>st. picky_mk n (sb_builder 0 demo_sb (hosts [?a]) oi) = Inr st" for n oi
    using retries by (simp add: picky_mk_def)
  obtain w1 where r1: "per_host_refresh list_lhm picky_mk 0 on_change demo_sb (hosts [?a]) Map.empty demo_world =
      (Inr [?a \<mapsto> w_next_client demo_world], [?a \<mapsto> ?h], w1)"
    using first_refresh [of picky_mk ?a list_lhm demo_world] made by blast
  let ?y = "\<lparr>fs_factories = fs, fs_builders = {demo_sb}, fs_world = w1\<rparr>"
  have "per_host_reach list_lhm picky_mk 0 on_change demo_sb True
      \<lparr>fs_factories = fs, fs_builders = {demo_sb}, fs_world = demo_world\<rparr> Map.empty"
    by (rule ph_start [OF y]) simp
  from ph_refresh [OF this, of "hosts [?a]"] r1
  have reach: "per_host_reach list_lhm picky_mk 0 on_change demo_sb True ?y [?a \<mapsto> ?h]" by simp
  have hc: "host_config ?c ?a = ?c" "?c \<noteq> hosts [?a]"
    by (simp_all add: host_config_def hosts_def service_config_default_def)
  note inv = per_host_reach_inv [OF list_lhm_ok on_change_simps(1) reach]
  then have sb: "sb_cache_manager demo_sb \<in> managers ?y" by (simp add: managers_def)
  obtain r w2 where b: "sb_build list_lhm picky_mk 0 demo_sb ?c (Some 0) w1 = (r, w2)" by fastforce
  have "r \<noteq> Inr (i, st)" for i st
    using sb_build_world(2) [OF list_lhm_ok _ sb b, of i st] inv retries(2) by (auto simp: picky_mk_def)
  then obtain e where "r = Inl e" by (cases r) auto
  then have "handle_refresh list_lhm picky_mk 0 on_change demo_sb ?c ?h w1 = ([e], ?h\<lparr>ch_config := ?c\<rparr>, w2)"
    using b hc by (simp add: handle_refresh_def on_change_simps client_callback_def)
  then have r2: "per_host_refresh list_lhm picky_mk 0 on_change demo_sb ?c [?a \<mapsto> ?h] (fs_world ?y) =
      (Inl e, [?a \<mapsto> ?h\<lparr>ch_config := ?c\<rparr>], w2)"
    using hc by (simp add: per_host_refresh_def hosts_def)
  have "sc_uris ?c = [?a]" by (simp add: hosts_def)
  from failed_refresh_goes_stale [OF on_change_simps(1) _ this _ r2] on_change_simps(3) reach r2
  show ?thesis by (metis fun_upd_same)
qed

end
