(* ===== verification/Body.thy ===== *)
theory Body
  imports Http
begin

text \<open>
  \<^verbatim>\<open>body.rs\<close>: the response body a caller reads, over any \<^verbatim>\<open>http_body::Body\<close>. A body is its poll
  function, which returns a frame, an error, the end (\<open>None\<close>) or \<open>Pending\<close>. The loops of the source
  run until a data frame comes; a body that yields empty frames for ever keeps them running, the
  result \<open>None\<close>. \<open>yields\<close> relates a body to the finite list of what its polls return before its end;
  what it does after that is not constrained, which is what \<open>fuse_body\<close> guards against.
\<close>

datatype 'h frame = DataFrame "byte list" | TrailersFrame 'h

type_synonym ('b, 'e, 'h) body_poll = "'b \<Rightarrow> ('e + 'h frame) option poll \<times> 'b"

record size_hint =
  sh_lower :: nat
  sh_upper :: "nat option"

definition size_hint_exact :: "nat \<Rightarrow> size_hint" where
  "size_hint_exact n = \<lparr>sh_lower = n, sh_upper = Some n\<rparr>"

definition size_hint_new :: size_hint where
  "size_hint_new = \<lparr>sh_lower = 0, sh_upper = None\<rparr>"

subsection \<open>The fused body\<close>

record 'b fuse_body =
  fb_body :: 'b
  fb_done :: bool

definition fuse_new :: "'b \<Rightarrow> 'b fuse_body" where
  "fuse_new b = \<lparr>fb_body = b, fb_done = False\<rparr>"

definition fuse_poll :: "('b, 'e, 'h) body_poll \<Rightarrow> ('b fuse_body, 'e, 'h) body_poll" where
  "fuse_poll B f =
     (if fb_done f then (Ready None, f)
      else
        (case B (fb_body f) of
           (Pending, b) \<Rightarrow> (Pending, f\<lparr>fb_body := b\<rparr>)
         | (Ready None, b) \<Rightarrow> (Ready None, f\<lparr>fb_body := b, fb_done := True\<rparr>)
         | (Ready (Some x), b) \<Rightarrow> (Ready (Some x), f\<lparr>fb_body := b\<rparr>)))"

definition fuse_is_end_stream :: "('b \<Rightarrow> bool) \<Rightarrow> 'b fuse_body \<Rightarrow> bool" where
  "fuse_is_end_stream is_end f \<longleftrightarrow> fb_done f \<or> is_end (fb_body f)"

definition fuse_size_hint :: "('b \<Rightarrow> size_hint) \<Rightarrow> 'b fuse_body \<Rightarrow> size_hint" where
  "fuse_size_hint hint f = (if fb_done f then size_hint_exact 0 else hint (fb_body f))"

subsection \<open>The response body\<close>

record 'b response_body =
  rb_body :: "'b fuse_body"
  rb_cur :: "byte list"

definition response_body_new :: "'b \<Rightarrow> 'b response_body" where
  "response_body_new b = \<lparr>rb_body = fuse_new b, rb_cur = []\<rparr>"

definition rb_buffer :: "'b response_body \<Rightarrow> byte list" where
  "rb_buffer rb = rb_cur rb"

partial_function (option) next_loop ::
  "('b, 'e, 'h) body_poll \<Rightarrow> ('e \<Rightarrow> 'x) \<Rightarrow> 'b response_body \<Rightarrow>
   (('x + byte list) option poll \<times> 'b response_body) option" where
  "next_loop B wrap_err rb =
     (case fuse_poll B (rb_body rb) of
        (Pending, f) \<Rightarrow> Some (Pending, rb\<lparr>rb_body := f\<rparr>)
      | (Ready None, f) \<Rightarrow> Some (Ready None, rb\<lparr>rb_body := f\<rparr>)
      | (Ready (Some (Inl e)), f) \<Rightarrow> Some (Ready (Some (Inl (wrap_err e))), rb\<lparr>rb_body := f\<rparr>)
      | (Ready (Some (Inr (DataFrame d))), f) \<Rightarrow> Some (Ready (Some (Inr d)), rb\<lparr>rb_body := f\<rparr>)
      | (Ready (Some (Inr (TrailersFrame _))), f) \<Rightarrow> next_loop B wrap_err (rb\<lparr>rb_body := f\<rparr>))"

definition rb_poll_next ::
  "('b, 'e, 'h) body_poll \<Rightarrow> ('e \<Rightarrow> 'x) \<Rightarrow> 'b response_body \<Rightarrow>
   (('x + byte list) option poll \<times> 'b response_body) option" where
  "rb_poll_next B wrap_err rb =
     (if rb_cur rb \<noteq> [] then Some (Ready (Some (Inr (rb_cur rb))), rb\<lparr>rb_cur := []\<rparr>)
      else next_loop B wrap_err rb)"

partial_function (option) rb_poll_fill_buf ::
  "('b, 'e, 'h) body_poll \<Rightarrow> ('e \<Rightarrow> 'x) \<Rightarrow> 'b response_body \<Rightarrow>
   (('x + byte list) poll \<times> 'b response_body) option" where
  "rb_poll_fill_buf B io_other rb =
     (if rb_cur rb \<noteq> [] then Some (Ready (Inr (rb_cur rb)), rb)
      else
        (case fuse_poll B (rb_body rb) of
           (Pending, f) \<Rightarrow> Some (Pending, rb\<lparr>rb_body := f\<rparr>)
         | (Ready None, f) \<Rightarrow> Some (Ready (Inr (rb_cur rb)), rb\<lparr>rb_body := f\<rparr>)
         | (Ready (Some (Inl e)), f) \<Rightarrow> Some (Ready (Inl (io_other e)), rb\<lparr>rb_body := f\<rparr>)
         | (Ready (Some (Inr (DataFrame d))), f) \<Rightarrow>
             rb_poll_fill_buf B io_other (rb\<lparr>rb_body := f, rb_cur := d\<rparr>)
         | (Ready (Some (Inr (TrailersFrame _))), f) \<Rightarrow>
             rb_poll_fill_buf B io_other (rb\<lparr>rb_body := f\<rparr>)))"

text \<open>\<^verbatim>\<open>Bytes::advance\<close> panics beyond the end.\<close>

definition rb_consume :: "nat \<Rightarrow> 'b response_body \<Rightarrow> panic + 'b response_body" where
  "rb_consume amt rb =
     (if amt \<le> length (rb_cur rb) then Inr (rb\<lparr>rb_cur := drop amt (rb_cur rb)\<rparr>)
      else Inl (Expect ''cannot advance past remaining''))"

definition rb_poll_read ::
  "('b, 'e, 'h) body_poll \<Rightarrow> ('e \<Rightarrow> 'x) \<Rightarrow> nat \<Rightarrow> 'b response_body \<Rightarrow>
   (panic + ('x + byte list) poll \<times> 'b response_body) option" where
  "rb_poll_read B io_other remaining rb =
     Option.bind (rb_poll_fill_buf B io_other rb) (\<lambda>(r, rb1).
       case r of
         Pending \<Rightarrow> Some (Inr (Pending, rb1))
       | Ready (Inl e) \<Rightarrow> Some (Inr (Ready (Inl e), rb1))
       | Ready (Inr in_buf) \<Rightarrow>
           let len = min (length in_buf) remaining
           in Some (and_then (rb_consume len rb1) (\<lambda>rb2. Inr (Ready (Inr (take len in_buf)), rb2))))"

subsection \<open>What a body yields\<close>

datatype ('e, 'h) item = Stall | Failure 'e | Yield "'h frame"

fun data_of :: "('e, 'h) item \<Rightarrow> byte list" where
  "data_of (Yield (DataFrame d)) = d"
| "data_of _ = []"

definition content :: "('e, 'h) item list \<Rightarrow> byte list" where
  "content s = concat (map data_of s)"

lemma content_simps [simp]:
  "content [] = []" "content (x # s) = data_of x @ content s" "content (s @ s') = content s @ content s'"
  by (simp_all add: content_def)

fun poll_of :: "('e, 'h) item \<Rightarrow> ('e + 'h frame) option poll" where
  "poll_of Stall = Pending"
| "poll_of (Failure e) = Ready (Some (Inl e))"
| "poll_of (Yield f) = Ready (Some (Inr f))"

inductive yields :: "('b, 'e, 'h) body_poll \<Rightarrow> 'b \<Rightarrow> ('e, 'h) item list \<Rightarrow> bool"
  for B :: "('b, 'e, 'h) body_poll" where
  yields_end: "B b = (Ready None, b') \<Longrightarrow> yields B b []"
| yields_more: "B b = (poll_of x, b') \<Longrightarrow> yields B b' s \<Longrightarrow> yields B b (x # s)"

inductive_cases yields_NilE: "yields B b []"
inductive_cases yields_ConsE: "yields B b (x # s)"

lemma poll_of_not_end [simp]: "poll_of x \<noteq> Ready None"
  by (cases x) simp_all

text \<open>A list is a body that yields its items.\<close>

fun script :: "(('e, 'h) item list, 'e, 'h) body_poll" where
  "script [] = (Ready None, [])"
| "script (x # s) = (poll_of x, s)"

lemma yields_script: "yields script s s"
  by (induction s) (auto intro: yields.intros)

definition fused :: "('b, 'e, 'h) body_poll \<Rightarrow> 'b fuse_body \<Rightarrow> ('e, 'h) item list \<Rightarrow> bool" where
  "fused B f s \<longleftrightarrow> (if fb_done f then s = [] else yields B (fb_body f) s)"

lemma fused_new: "yields B b s \<Longrightarrow> fused B (fuse_new b) s"
  by (simp add: fused_def fuse_new_def)

lemma fused_Nil:
  assumes "fused B f []"
  shows "\<exists>f'. fuse_poll B f = (Ready None, f') \<and> fused B f' []"
  using assms by (auto simp: fused_def fuse_poll_def elim!: yields_NilE split: if_splits)

lemma fused_Cons:
  assumes "fused B f (x # s)"
  shows "\<exists>f'. fuse_poll B f = (poll_of x, f') \<and> fused B f' s"
proof -
  have nd: "\<not> fb_done f" "yields B (fb_body f) (x # s)"
    using assms by (auto simp: fused_def split: if_splits)
  from nd(2) obtain b' where "B (fb_body f) = (poll_of x, b')" "yields B b' s" by (rule yields_ConsE)
  with nd(1) show ?thesis by (cases x) (auto simp: fused_def fuse_poll_def)
qed

lemma next_loop_ok:
  assumes "fused B (rb_body rb) s"
  shows "\<exists>r rb' s'. next_loop B g rb = Some (r, rb') \<and> fused B (rb_body rb') s' \<and> rb_cur rb' = rb_cur rb \<and>
    (case r of
       Ready None \<Rightarrow> content s = [] \<and> s' = []
     | Ready (Some (Inr d)) \<Rightarrow> content s = d @ content s' \<and> length s' < length s
     | _ \<Rightarrow> content s = content s' \<and> length s' < length s)"
  using assms
proof (induction s arbitrary: rb)
  case Nil
  then obtain f' where "fuse_poll B (rb_body rb) = (Ready None, f')" "fused B f' []"
    using fused_Nil by blast
  then show ?case by (subst next_loop.simps) auto
next
  case (Cons x s)
  then obtain f' where f: "fuse_poll B (rb_body rb) = (poll_of x, f')" "fused B f' s"
    using fused_Cons by blast
  show ?case
  proof (cases "\<exists>h. x = Yield (TrailersFrame h)")
    case True
    then have "next_loop B g rb = next_loop B g (rb\<lparr>rb_body := f'\<rparr>)"
      using f(1) by (subst next_loop.simps) auto
    moreover have "fused B (rb_body (rb\<lparr>rb_body := f'\<rparr>)) s" using f(2) by simp
    from Cons.IH [OF this] obtain r rb' s' where
      "next_loop B g (rb\<lparr>rb_body := f'\<rparr>) = Some (r, rb')" "fused B (rb_body rb') s'" "rb_cur rb' = rb_cur rb"
      "case r of
       Ready None \<Rightarrow> content s = [] \<and> s' = []
     | Ready (Some (Inr d)) \<Rightarrow> content s = d @ content s' \<and> length s' < length s
     | _ \<Rightarrow> content s = content s' \<and> length s' < length s"
      by auto
    ultimately show ?thesis using True
      by (intro exI [of _ r] exI [of _ rb'] exI [of _ s']) (auto split: poll.splits option.splits sum.splits)
  next
    case False
    then show ?thesis using f
      by (cases x; subst next_loop.simps) (auto split: frame.splits intro!: exI [of _ s])
  qed
qed

lemma fill_buf_ok:
  assumes "fused B (rb_body rb) s"
  shows "\<exists>r rb' s'. rb_poll_fill_buf B g rb = Some (r, rb') \<and> fused B (rb_body rb') s' \<and>
    rb_cur rb @ content s = rb_cur rb' @ content s' \<and>
    (\<forall>d. r = Ready (Inr d) \<longrightarrow> d = rb_cur rb' \<and> (d = [] \<longrightarrow> s' = []))"
  using assms
proof (induction s arbitrary: rb)
  case Nil
  then obtain f' where "fuse_poll B (rb_body rb) = (Ready None, f')" "fused B f' []"
    using fused_Nil by blast
  then show ?case using Nil by (subst rb_poll_fill_buf.simps) auto
next
  case (Cons x s)
  then obtain f' where f: "fuse_poll B (rb_body rb) = (poll_of x, f')" "fused B f' s"
    using fused_Cons by blast
  show ?case
  proof (cases "rb_cur rb = []")
    case False
    then show ?thesis using Cons.prems by (subst rb_poll_fill_buf.simps) auto
  next
    case True
    show ?thesis
    proof (cases "\<exists>fr. x = Yield fr")
      case fr: True
      let ?rb = "case x of Yield (DataFrame d) \<Rightarrow> rb\<lparr>rb_body := f', rb_cur := d\<rparr> | _ \<Rightarrow> rb\<lparr>rb_body := f'\<rparr>"
      have "rb_poll_fill_buf B g rb = rb_poll_fill_buf B g ?rb"
        using f(1) fr True by (subst rb_poll_fill_buf.simps) (auto split: frame.splits)
      moreover have "fused B (rb_body ?rb) s" using f(2) fr by (auto split: frame.splits)
      moreover have "rb_cur rb @ content (x # s) = rb_cur ?rb @ content s"
        using True fr by (auto split: frame.splits)
      ultimately show ?thesis using Cons.IH [of ?rb] by metis
    next
      case False
      then show ?thesis using f True
        by (cases x; subst rb_poll_fill_buf.simps) (auto intro!: exI [of _ s])
    qed
  qed
qed

subsection \<open>A caller reading\<close>

text \<open>
  A caller may mix the three interfaces: the stream, \<^verbatim>\<open>AsyncRead\<close> with some buffer, and \<^verbatim>\<open>AsyncBufRead\<close>,
  of which it consumes at most what it was shown. An operation delivers some bytes, and may report
  the end of the body.
\<close>

datatype reader_op = Next | ReadInto nat | FillConsume nat

fun reader_step ::
  "('b, 'e, 'h) body_poll \<Rightarrow> reader_op \<Rightarrow> 'b response_body \<Rightarrow>
   (panic + (byte list \<times> bool) \<times> 'b response_body) option" where
  "reader_step B Next rb =
     Option.bind (rb_poll_next B id rb) (\<lambda>(r, rb').
       Some (Inr ((case r of Ready (Some (Inr d)) \<Rightarrow> d | _ \<Rightarrow> [], r = Ready None), rb')))"
| "reader_step B (ReadInto n) rb =
     Option.bind (rb_poll_read B id n rb) (\<lambda>x.
       Some (and_then x (\<lambda>(r, rb').
         Inr ((case r of Ready (Inr d) \<Rightarrow> d | _ \<Rightarrow> [], 0 < n \<and> r = Ready (Inr [])), rb'))))"
| "reader_step B (FillConsume n) rb =
     Option.bind (rb_poll_fill_buf B id rb) (\<lambda>(r, rb').
       case r of
         Ready (Inr d) \<Rightarrow>
           Some (and_then (rb_consume (min n (length d)) rb') (\<lambda>rb2. Inr ((take n d, d = []), rb2)))
       | _ \<Rightarrow> Some (Inr (([], False), rb')))"

fun reader_run ::
  "('b, 'e, 'h) body_poll \<Rightarrow> reader_op list \<Rightarrow> 'b response_body \<Rightarrow>
   (panic + (byte list \<times> bool) \<times> 'b response_body) option" where
  "reader_run B [] rb = Some (Inr (([], False), rb))"
| "reader_run B (op # ops) rb =
     Option.bind (reader_step B op rb) (\<lambda>x.
       case x of
         Inl p \<Rightarrow> Some (Inl p)
       | Inr ((d, e), rb1) \<Rightarrow>
           Option.bind (reader_run B ops rb1) (\<lambda>y.
             Some (and_then y (\<lambda>((d', e'), rb2). Inr ((d @ d', e \<or> e'), rb2)))))"

lemma reader_step_ok:
  assumes "fused B (rb_body rb) s"
  shows "\<exists>d e rb' s'. reader_step B op rb = Some (Inr ((d, e), rb')) \<and> fused B (rb_body rb') s' \<and>
    rb_cur rb @ content s = d @ rb_cur rb' @ content s' \<and> (e \<longrightarrow> rb_cur rb' @ content s' = [])"
proof (cases op)
  case Next
  show ?thesis
  proof (cases "rb_cur rb = []")
    case True
    obtain r rb' s' where "next_loop B id rb = Some (r, rb')" "fused B (rb_body rb') s'"
      "rb_cur rb' = rb_cur rb"
      "case r of Ready None \<Rightarrow> content s = [] \<and> s' = []
       | Ready (Some (Inr d)) \<Rightarrow> content s = d @ content s' \<and> length s' < length s
       | _ \<Rightarrow> content s = content s' \<and> length s' < length s"
      using next_loop_ok [OF assms, of id] by blast
    then show ?thesis using Next True
      by (intro exI [of _ "case r of Ready (Some (Inr d)) \<Rightarrow> d | _ \<Rightarrow> []"] exI [of _ "r = Ready None"]
          exI [of _ rb'] exI [of _ s'])
        (simp add: rb_poll_next_def split: poll.splits option.splits sum.splits)
  next
    case False
    then show ?thesis using Next assms by (auto simp: rb_poll_next_def)
  qed
next
  case (ReadInto n)
  obtain r rb' s' where f: "rb_poll_fill_buf B id rb = Some (r, rb')" "fused B (rb_body rb') s'"
    "rb_cur rb @ content s = rb_cur rb' @ content s'"
    "\<forall>d. r = Ready (Inr d) \<longrightarrow> d = rb_cur rb' \<and> (d = [] \<longrightarrow> s' = [])"
    using fill_buf_ok [OF assms, of id] by blast
  show ?thesis
  proof (cases "\<exists>d. r = Ready (Inr d)")
    case True
    then obtain d where "r = Ready (Inr d)" "d = rb_cur rb'" "d = [] \<longrightarrow> s' = []" using f(4) by blast
    then show ?thesis using ReadInto f(1-3)
      by (intro exI [of _ "take n (rb_cur rb')"] exI [of _ "0 < n \<and> rb_cur rb' = []"]
          exI [of _ "rb'\<lparr>rb_cur := drop n (rb_cur rb')\<rparr>"] exI [of _ s'])
        (auto simp: rb_poll_read_def rb_consume_def Let_def min_def)
  next
    case False
    then show ?thesis using ReadInto f(1-3)
      by (intro exI [of _ "[]"] exI [of _ False] exI [of _ rb'] exI [of _ s'])
        (simp add: rb_poll_read_def split: poll.splits sum.splits)
  qed
next
  case (FillConsume n)
  obtain r rb' s' where f: "rb_poll_fill_buf B id rb = Some (r, rb')" "fused B (rb_body rb') s'"
    "rb_cur rb @ content s = rb_cur rb' @ content s'"
    "\<forall>d. r = Ready (Inr d) \<longrightarrow> d = rb_cur rb' \<and> (d = [] \<longrightarrow> s' = [])"
    using fill_buf_ok [OF assms, of id] by blast
  show ?thesis
  proof (cases "\<exists>d. r = Ready (Inr d)")
    case True
    then obtain d where "r = Ready (Inr d)" "d = rb_cur rb'" "d = [] \<longrightarrow> s' = []" using f(4) by blast
    then show ?thesis using FillConsume f(1-3)
      by (intro exI [of _ "take n (rb_cur rb')"] exI [of _ "rb_cur rb' = []"]
          exI [of _ "rb'\<lparr>rb_cur := drop n (rb_cur rb')\<rparr>"] exI [of _ s'])
        (simp add: rb_consume_def min_def)
  next
    case False
    then show ?thesis using FillConsume f(1-3)
      by (intro exI [of _ "[]"] exI [of _ False] exI [of _ rb'] exI [of _ s'])
        (simp split: poll.splits sum.splits)
  qed
qed

lemma reader_run_ok:
  assumes "fused B (rb_body rb) s"
  shows "\<exists>d e rb' s'. reader_run B ops rb = Some (Inr ((d, e), rb')) \<and> fused B (rb_body rb') s' \<and>
    rb_cur rb @ content s = d @ rb_cur rb' @ content s' \<and> (e \<longrightarrow> rb_cur rb' @ content s' = [])"
  using assms
proof (induction ops arbitrary: rb s)
  case Nil
  then show ?case by auto
next
  case (Cons op ops)
  obtain d e rb1 s1 where st: "reader_step B op rb = Some (Inr ((d, e), rb1))" "fused B (rb_body rb1) s1"
    "rb_cur rb @ content s = d @ rb_cur rb1 @ content s1" "e \<longrightarrow> rb_cur rb1 @ content s1 = []"
    using reader_step_ok [OF Cons.prems, of op] by blast
  obtain d' e' rb2 s2 where "reader_run B ops rb1 = Some (Inr ((d', e'), rb2))" "fused B (rb_body rb2) s2"
    "rb_cur rb1 @ content s1 = d' @ rb_cur rb2 @ content s2" "e' \<longrightarrow> rb_cur rb2 @ content s2 = []"
    using Cons.IH [OF st(2)] by blast
  with st show ?case by auto
qed

lemma next_run_eof:
  assumes "fused B (rb_body rb) s" "rb_cur rb = []" "length s < n"
  shows "\<exists>d rb'. reader_run B (replicate n Next) rb = Some (Inr ((d, True), rb'))"
  using assms
proof (induction n arbitrary: rb s)
  case (Suc n)
  obtain r rb1 s1 where nl: "next_loop B id rb = Some (r, rb1)" "fused B (rb_body rb1) s1"
    "rb_cur rb1 = []"
    "r = Ready None \<or> length s1 < length s"
    using next_loop_ok [OF Suc.prems(1), of id] Suc.prems(2) by (fastforce split: poll.splits option.splits sum.splits)
  obtain d e rb2 where run: "reader_run B (replicate n Next) rb1 = Some (Inr ((d, e), rb2))"
    using reader_run_ok [OF nl(2)] by blast
  have "r = Ready None \<or> e"
  proof (cases "r = Ready None")
    case False
    then have "length s1 < n" using nl(4) Suc.prems(3) by simp
    from Suc.IH [OF nl(2,3) this] run show ?thesis by auto
  qed simp
  then show ?case using nl(1) run Suc.prems(2) by (auto simp: rb_poll_next_def)
qed simp

lemma read_to_end:
  assumes "yields B b s"
  shows "\<exists>rb. reader_run B (replicate (Suc (length s)) Next) (response_body_new b) = Some (Inr ((content s, True), rb))"
proof -
  have f: "fused B (rb_body (response_body_new b)) s" "rb_cur (response_body_new b) = []"
    using fused_new [OF assms] by (simp_all add: response_body_new_def)
  obtain d rb' where r: "reader_run B (replicate (Suc (length s)) Next) (response_body_new b) = Some (Inr ((d, True), rb'))"
    using next_run_eof [OF f] by blast
  moreover have "content s = d"
    using reader_run_ok [OF f(1), of "replicate (Suc (length s)) Next"] f(2) r by auto
  ultimately show ?thesis by simp
qed

subsection \<open>Bodies around bodies\<close>

text \<open>
  The body types of the layers wrap one another. What the public body relies on is that a wrapper
  shows the events of the body inside, some of them translated, with the data unchanged.
\<close>

locale body_layer =
  fixes B :: "('b, 'e, 'h) body_poll"
    and W :: "('c, 'f, 'h) body_poll"
    and wrap :: "'b \<Rightarrow> 'c"
    and tr :: "('e, 'h) item \<Rightarrow> ('f, 'h) item"
  assumes passes: "yields B b s \<Longrightarrow> yields W (wrap b) (map tr s)"
    and same_data: "data_of (tr x) = data_of x"
begin

lemma same_content: "content (map tr s) = content s"
  by (induction s) (simp_all add: same_data)

lemma read_through:
  assumes "yields B b s"
  shows "\<exists>rb. reader_run W (replicate (Suc (length s)) Next) (response_body_new (wrap b)) =
    Some (Inr ((content s, True), rb))"
  using read_to_end [OF passes [OF assms]] by (simp add: same_content)

end

lemma body_layer_trans:
  assumes inner: "body_layer B W wrap tr" and outer: "body_layer W X wrap2 tr2"
  shows "body_layer B X (\<lambda>b. wrap2 (wrap b)) (\<lambda>x. tr2 (tr x))"
proof unfold_locales
  fix b s assume "yields B b s"
  from body_layer.passes [OF outer body_layer.passes [OF inner this]]
  show "yields X (wrap2 (wrap b)) (map (\<lambda>x. tr2 (tr x)) s)" by (simp add: comp_def)
qed (simp add: body_layer.same_data [OF inner] body_layer.same_data [OF outer])

lemma fuse_yields:
  assumes "yields B b s"
  shows "yields (fuse_poll B) (fuse_new b) s"
  using assms
proof (induction rule: yields.induct)
  case (yields_end b b')
  then show ?case by (intro yields.yields_end) (simp add: fuse_poll_def fuse_new_def)
next
  case (yields_more b x b' s)
  then have "fuse_poll B (fuse_new b) = (poll_of x, fuse_new b')"
    by (cases x) (simp_all add: fuse_poll_def fuse_new_def)
  then show ?case using yields_more(3) by (rule yields.yields_more)
qed

interpretation fuse: body_layer B "fuse_poll B" fuse_new "\<lambda>x. x"
  by unfold_locales (simp_all add: fuse_yields)

text \<open>A caller of the response body gets exactly the body's data. Whatever mix of stream, read and
  buffered-read calls is made, on a body that stalls, fails and interleaves trailers at will, every
  call returns, nothing panics, and the bytes delivered are a prefix of the concatenated data frames
  in order, the rest still being there to be read; the end is reported only when nothing is left, and
  calling the stream more often than the body has events reaches it.\<close>

theorem response_body_delivers:
  assumes "yields B b s"
  shows "(\<exists>d e rb rest. reader_run B ops (response_body_new b) = Some (Inr ((d, e), rb)) \<and>
            content s = d @ rest \<and> (e \<longrightarrow> rest = [])) \<and>
         (\<exists>rb. reader_run B (replicate (Suc (length s)) Next) (response_body_new b) =
            Some (Inr ((content s, True), rb)))"
proof
  have f: "fused B (rb_body (response_body_new b)) s" "rb_cur (response_body_new b) = []"
    using fused_new [OF assms] by (simp_all add: response_body_new_def)
  show "\<exists>d e rb rest. reader_run B ops (response_body_new b) = Some (Inr ((d, e), rb)) \<and>
      content s = d @ rest \<and> (e \<longrightarrow> rest = [])"
    using reader_run_ok [OF f(1), of ops] f(2) by auto
  show "\<exists>rb. reader_run B (replicate (Suc (length s)) Next) (response_body_new b) =
      Some (Inr ((content s, True), rb))" by (rule read_to_end [OF assms])
qed

theorem response_body_delivers_witness:
  "\<exists>rb. reader_run script [Next, Next, Next, Next]
     (response_body_new [Yield (DataFrame [1, 2]), Yield (TrailersFrame ()), (Failure () :: (unit, unit) item)]) =
     Some (Inr (([1, 2], True), rb))"
  using response_body_delivers [OF yields_script
      [of "[Yield (DataFrame [1, 2]), Yield (TrailersFrame ()), (Failure () :: (unit, unit) item)]"], of "[]"]
  by (simp add: numeral_eq_Suc)

end
