(* ===== verification/RequestBody.thy ===== *)
theory RequestBody
  imports Body
begin

text \<open>
  The request side of \<^verbatim>\<open>body.rs\<close> (\<^verbatim>\<open>BodyWriter\<close>) and \<^verbatim>\<open>service/raw/body.rs\<close>: a streaming body is
  written into a channel whose other end the transport polls. The channel is the \<^verbatim>\<open>futures\<close> crate's:
  \<open>chan_api\<close> has the operations the sources call on the sending half, with the list of parts it has
  accepted, and \<open>receives\<close> says that the receiving half hands out a list of parts and then reports
  that the sender is gone.
\<close>

datatype 'h part = FramePart "'h frame" | DonePart

datatype io_error = SendError

record ('c, 'p) chan_api =
  ch_poll_ready :: "'c \<Rightarrow> (io_error + unit) poll \<times> 'c"
  ch_start_send :: "'p \<Rightarrow> 'c \<Rightarrow> (io_error + unit) \<times> 'c"
  ch_poll_flush :: "'c \<Rightarrow> (io_error + unit) poll \<times> 'c"
  ch_sent :: "'c \<Rightarrow> 'p list"

definition chan_ok :: "('c, 'p) chan_api \<Rightarrow> bool" where
  "chan_ok A \<longleftrightarrow>
     (\<forall>c. ch_sent A (snd (ch_poll_ready A c)) = ch_sent A c) \<and>
     (\<forall>c. ch_sent A (snd (ch_poll_flush A c)) = ch_sent A c) \<and>
     (\<forall>p c. ch_sent A (snd (ch_start_send A p c)) =
        (case fst (ch_start_send A p c) of Inl _ \<Rightarrow> ch_sent A c | Inr _ \<Rightarrow> ch_sent A c @ [p]))"

text \<open>\<^verbatim>\<open>SinkExt::send\<close>, awaited.\<close>

definition sink_send ::
  "('c, 'p) chan_api \<Rightarrow> 'p \<Rightarrow> 'c \<Rightarrow> ((io_error + unit) \<times> 'c) option" where
  "sink_send A p c =
     Option.bind (await (ch_poll_ready A) c) (\<lambda>(r, c1).
       case r of
         Inl e \<Rightarrow> Some (Inl e, c1)
       | Inr _ \<Rightarrow>
           (case ch_start_send A p c1 of
              (Inl e, c2) \<Rightarrow> Some (Inl e, c2)
            | (Inr _, c2) \<Rightarrow> await (ch_poll_flush A) c2))"

subsection \<open>The writer\<close>

record 'c body_writer =
  bw_sender :: 'c
  bw_buf :: "byte list"

definition body_writer_new :: "'c \<Rightarrow> 'c body_writer" where
  "body_writer_new sender = \<lparr>bw_sender = sender, bw_buf = []\<rparr>"

definition bw_poll_flush ::
  "('c, 'h part) chan_api \<Rightarrow> 'c body_writer \<Rightarrow> (io_error + unit) poll \<times> 'c body_writer" where
  "bw_poll_flush A w =
     (if bw_buf w = [] then (Ready (Inr ()), w)
      else
        (case ch_poll_ready A (bw_sender w) of
           (Pending, c) \<Rightarrow> (Pending, w\<lparr>bw_sender := c\<rparr>)
         | (Ready (Inl e), c) \<Rightarrow> (Ready (Inl e), w\<lparr>bw_sender := c\<rparr>)
         | (Ready (Inr _), c) \<Rightarrow>
             (case ch_start_send A (FramePart (DataFrame (bw_buf w))) c of
                (r, c') \<Rightarrow> (Ready r, w\<lparr>bw_sender := c', bw_buf := []\<rparr>))))"

definition bw_poll_write ::
  "('c, 'h part) chan_api \<Rightarrow> byte list \<Rightarrow> 'c body_writer \<Rightarrow> (io_error + nat) poll \<times> 'c body_writer" where
  "bw_poll_write A buf w =
     (case (if length (bw_buf w) > 4096 then bw_poll_flush A w else (Ready (Inr ()), w)) of
        (Pending, w') \<Rightarrow> (Pending, w')
      | (Ready (Inl e), w') \<Rightarrow> (Ready (Inl e), w')
      | (Ready (Inr _), w') \<Rightarrow> (Ready (Inr (length buf)), w'\<lparr>bw_buf := bw_buf w' @ buf\<rparr>))"

definition bw_poll_shutdown :: "'c body_writer \<Rightarrow> (io_error + unit) poll \<times> 'c body_writer" where
  "bw_poll_shutdown w = (Ready (Inr ()), w)"

definition bw_flush_then_send ::
  "('c, 'h part) chan_api \<Rightarrow> 'h part \<Rightarrow> 'c body_writer \<Rightarrow> ((io_error + unit) \<times> 'c body_writer) option" where
  "bw_flush_then_send A p w =
     Option.bind (await (bw_poll_flush A) w) (\<lambda>(r, w1).
       case r of
         Inl e \<Rightarrow> Some (Inl e, w1)
       | Inr _ \<Rightarrow> map_option (\<lambda>(r', c). (r', w1\<lparr>bw_sender := c\<rparr>)) (sink_send A p (bw_sender w1)))"

definition bw_finish ::
  "('c, 'h part) chan_api \<Rightarrow> 'c body_writer \<Rightarrow> ((io_error + unit) \<times> 'c body_writer) option" where
  "bw_finish A w = bw_flush_then_send A DonePart w"

definition bw_write_bytes ::
  "('c, 'h part) chan_api \<Rightarrow> byte list \<Rightarrow> 'c body_writer \<Rightarrow> ((io_error + unit) \<times> 'c body_writer) option" where
  "bw_write_bytes A bytes w = bw_flush_then_send A (FramePart (DataFrame bytes)) w"

subsection \<open>The raw body and its writer\<close>

text \<open>
  What the caller's \<^verbatim>\<open>write_body\<close> does with the writer: awaited writes, in order, stopping at the first
  that fails, and then its own result.
\<close>

datatype writer_op = WriteSlice "byte list" | WriteBytes "byte list" | FlushOp

fun writer_op_run ::
  "('c, 'h part) chan_api \<Rightarrow> writer_op \<Rightarrow> 'c body_writer \<Rightarrow> ((io_error + unit) \<times> 'c body_writer) option" where
  "writer_op_run A (WriteSlice b) w =
     map_option (\<lambda>(r, w'). (map_sum (\<lambda>e. e) (\<lambda>_. ()) r, w')) (await (bw_poll_write A b) w)"
| "writer_op_run A (WriteBytes b) w = bw_write_bytes A b w"
| "writer_op_run A FlushOp w = await (bw_poll_flush A) w"

fun write_body ::
  "('c, 'h part) chan_api \<Rightarrow> writer_op list \<Rightarrow> bool \<Rightarrow> 'c body_writer \<Rightarrow> (bool \<times> 'c body_writer) option" where
  "write_body A [] ok w = Some (ok, w)"
| "write_body A (op # ops) ok w =
     Option.bind (writer_op_run A op w) (\<lambda>(r, w').
       case r of Inl _ \<Rightarrow> Some (False, w') | Inr _ \<Rightarrow> write_body A ops ok w')"

text \<open>
  \<^verbatim>\<open>Writer::write\<close>; \<open>polled\<close> is whether the transport asked for the body before dropping it, and the
  result tells whether it returned \<^verbatim>\<open>Ok\<close>, with the channel it leaves.
\<close>

datatype 'c writer = WriterNop | WriterStreaming "writer_op list" bool 'c

fun writer_write :: "('c, 'h part) chan_api \<Rightarrow> bool \<Rightarrow> 'c writer \<Rightarrow> (bool \<times> 'c option) option" where
  "writer_write A polled WriterNop = Some (True, None)"
| "writer_write A polled (WriterStreaming ops ok sender) =
     (if \<not> polled then Some (True, Some sender)
      else
        Option.bind (write_body A ops ok (body_writer_new sender)) (\<lambda>(ok', w).
          if \<not> ok' then Some (False, Some (bw_sender w))
          else
            map_option (\<lambda>(r, w'). (r = Inr (), Some (bw_sender w'))) (bw_finish A w)))"

datatype ('r, 'h) raw_inner = InnerEmpty | InnerSingle "'h frame" | InnerStream 'r bool

datatype request_body = ReqEmpty | ReqFixed "byte list" | ReqStreaming "writer_op list" bool

text \<open>\<^verbatim>\<open>RawRequestBody::new\<close>, with the two halves of the channel it creates.\<close>

fun raw_request_body_new ::
  "'c \<Rightarrow> 'r \<Rightarrow> request_body \<Rightarrow> ('r, 'h) raw_inner \<times> 'c writer" where
  "raw_request_body_new c r ReqEmpty = (InnerEmpty, WriterNop)"
| "raw_request_body_new c r (ReqFixed b) = (InnerSingle (DataFrame b), WriterNop)"
| "raw_request_body_new c r (ReqStreaming ops ok) = (InnerStream r True, WriterStreaming ops ok c)"

definition raw_poll_frame ::
  "('r \<Rightarrow> 'h part option poll \<times> 'r) \<Rightarrow> (('r, 'h) raw_inner, cause, 'h) body_poll" where
  "raw_poll_frame R inner =
     (case inner of
        InnerEmpty \<Rightarrow> (Ready None, InnerEmpty)
      | InnerSingle f \<Rightarrow> (Ready (Some (Inr f)), InnerEmpty)
      | InnerStream r polled \<Rightarrow>
          (case R r of
             (Ready (Some (FramePart f)), r') \<Rightarrow> (Ready (Some (Inr f)), InnerStream r' False)
           | (Ready (Some DonePart), r') \<Rightarrow> (Ready None, InnerEmpty)
           | (Ready None, r') \<Rightarrow> (Ready (Some (Inl RequestBodyError)), InnerEmpty)
           | (Pending, r') \<Rightarrow> (Pending, InnerStream r' False)))"

text \<open>The first poll of a streaming body tells the writer to start.\<close>

definition raw_signals_polled :: "('r, 'h) raw_inner \<Rightarrow> bool" where
  "raw_signals_polled inner = (case inner of InnerStream _ polled \<Rightarrow> polled | _ \<Rightarrow> False)"

definition raw_is_end_stream :: "('r, 'h) raw_inner \<Rightarrow> bool" where
  "raw_is_end_stream inner \<longleftrightarrow> inner = InnerEmpty"

definition raw_size_hint :: "('r, 'h) raw_inner \<Rightarrow> size_hint" where
  "raw_size_hint inner =
     (case inner of
        InnerEmpty \<Rightarrow> size_hint_exact 0
      | InnerSingle f \<Rightarrow> size_hint_exact (case f of DataFrame d \<Rightarrow> length d | TrailersFrame _ \<Rightarrow> 0)
      | InnerStream _ _ \<Rightarrow> size_hint_new)"

subsection \<open>What is in the channel\<close>

fun part_data :: "'h part \<Rightarrow> byte list" where
  "part_data (FramePart (DataFrame d)) = d"
| "part_data _ = []"

definition parts_data :: "'h part list \<Rightarrow> byte list" where
  "parts_data ps = concat (map part_data ps)"

lemma parts_data_simps [simp]:
  "parts_data [] = []" "parts_data (p # ps) = part_data p @ parts_data ps"
  "parts_data (ps @ qs) = parts_data ps @ parts_data qs"
  by (simp_all add: parts_data_def)

fun op_bytes :: "writer_op \<Rightarrow> byte list" where
  "op_bytes (WriteSlice b) = b"
| "op_bytes (WriteBytes b) = b"
| "op_bytes FlushOp = []"

definition written :: "writer_op list \<Rightarrow> byte list" where
  "written ops = concat (map op_bytes ops)"

lemma written_simps [simp]: "written [] = []" "written (op # ops) = op_bytes op @ written ops"
  by (simp_all add: written_def)

text \<open>Accepted data and buffer together are what was written, and the end has not been sent.\<close>

definition holds :: "('c, 'h part) chan_api \<Rightarrow> byte list \<Rightarrow> 'c body_writer \<Rightarrow> bool" where
  "holds A bs w \<longleftrightarrow> DonePart \<notin> set (ch_sent A (bw_sender w)) \<and>
     parts_data (ch_sent A (bw_sender w)) @ bw_buf w = bs"

definition unfinished :: "('c, 'h part) chan_api \<Rightarrow> 'c \<Rightarrow> bool" where
  "unfinished A c \<longleftrightarrow> DonePart \<notin> set (ch_sent A c)"

lemma chan_laws:
  assumes "chan_ok A"
  shows "ch_poll_ready A c = (r, c') \<Longrightarrow> ch_sent A c' = ch_sent A c"
    "ch_poll_flush A c = (r, c') \<Longrightarrow> ch_sent A c' = ch_sent A c"
    "ch_start_send A p c = (Inl e, c') \<Longrightarrow> ch_sent A c' = ch_sent A c"
    "ch_start_send A p c = (Inr u, c') \<Longrightarrow> ch_sent A c' = ch_sent A c @ [p]"
proof -
  have laws: "ch_sent A (snd (ch_poll_ready A c)) = ch_sent A c"
    "ch_sent A (snd (ch_poll_flush A c)) = ch_sent A c"
    "ch_sent A (snd (ch_start_send A p c)) =
       (case fst (ch_start_send A p c) of Inl _ \<Rightarrow> ch_sent A c | Inr _ \<Rightarrow> ch_sent A c @ [p])"
    using assms unfolding chan_ok_def by blast+
  show "ch_poll_ready A c = (r, c') \<Longrightarrow> ch_sent A c' = ch_sent A c" using laws(1) by simp
  show "ch_poll_flush A c = (r, c') \<Longrightarrow> ch_sent A c' = ch_sent A c" using laws(2) by simp
  show "ch_start_send A p c = (Inl e, c') \<Longrightarrow> ch_sent A c' = ch_sent A c" using laws(3) by simp
  show "ch_start_send A p c = (Inr u, c') \<Longrightarrow> ch_sent A c' = ch_sent A c @ [p]" using laws(3) by simp
qed

lemma await_keeps_sent:
  assumes "\<And>c r c'. p c = (r, c') \<Longrightarrow> ch_sent A c' = ch_sent A c" "await p c = Some (r, c')"
  shows "ch_sent A c' = ch_sent A c"
  by (rule await_invariant [OF assms(2), where I = "\<lambda>x. ch_sent A x = ch_sent A c"])
    (use assms(1) in \<open>auto\<close>)

lemma sink_send_sent:
  assumes "chan_ok A" "sink_send A p c = Some (r, c')"
  shows "ch_sent A c' = ch_sent A c \<or> ch_sent A c' = ch_sent A c @ [p]"
    and "r = Inr u \<Longrightarrow> ch_sent A c' = ch_sent A c @ [p]"
proof -
  have keep: "await (ch_poll_ready A) x = Some (y, x') \<Longrightarrow> ch_sent A x' = ch_sent A x" for x y x'
    by (rule await_keeps_sent [of "ch_poll_ready A"], rule chan_laws(1) [OF assms(1)])
  have keep2: "await (ch_poll_flush A) x = Some (y, x') \<Longrightarrow> ch_sent A x' = ch_sent A x" for x y x'
    by (rule await_keeps_sent [of "ch_poll_flush A"], rule chan_laws(2) [OF assms(1)])
  obtain q c1 where rdy: "await (ch_poll_ready A) c = Some (q, c1)"
    using assms(2) by (auto simp: sink_send_def bind_eq_Some_conv)
  have c1: "ch_sent A c1 = ch_sent A c" by (rule keep [OF rdy])
  obtain q2 c2 where st: "ch_start_send A p c1 = (q2, c2)" by fastforce
  have "ch_sent A c2 = (case q2 of Inl _ \<Rightarrow> ch_sent A c | Inr _ \<Rightarrow> ch_sent A c @ [p])"
    using chan_laws(3) [OF assms(1), of p c1 _ c2] chan_laws(4) [OF assms(1), of p c1 _ c2] st c1
    by (cases q2) simp_all
  moreover have "q = Inr () \<and> q2 = Inr () \<and> ch_sent A c' = ch_sent A c2 \<or>
      r \<noteq> Inr () \<and> (ch_sent A c' = ch_sent A c1 \<or> ch_sent A c' = ch_sent A c2)"
  proof (cases "q = Inr () \<and> q2 = Inr ()")
    case True
    then have "await (ch_poll_flush A) c2 = Some (r, c')"
      using assms(2) rdy st by (simp add: sink_send_def)
    from keep2 [OF this] True show ?thesis by simp
  next
    case False
    then show ?thesis
      using assms(2) rdy st by (cases q; cases q2) (auto simp: sink_send_def)
  qed
  ultimately show "ch_sent A c' = ch_sent A c \<or> ch_sent A c' = ch_sent A c @ [p]"
    "r = Inr u \<Longrightarrow> ch_sent A c' = ch_sent A c @ [p]"
    using c1 by (auto split: sum.splits)
qed

lemma poll_flush_holds:
  assumes "chan_ok A" "holds A bs w" "bw_poll_flush A w = (r, w')"
  shows "case r of
      Ready (Inl _) \<Rightarrow> unfinished A (bw_sender w')
    | Ready (Inr _) \<Rightarrow> holds A bs w' \<and> bw_buf w' = []
    | Pending \<Rightarrow> holds A bs w'"
proof (cases "bw_buf w = []")
  case False
  obtain q c1 where rdy: "ch_poll_ready A (bw_sender w) = (q, c1)" by fastforce
  have c1: "ch_sent A c1 = ch_sent A (bw_sender w)" by (rule chan_laws(1) [OF assms(1) rdy])
  obtain q2 c2 where st: "ch_start_send A (FramePart (DataFrame (bw_buf w))) c1 = (q2, c2)" by fastforce
  have c2: "ch_sent A c2 = (case q2 of Inl _ \<Rightarrow> ch_sent A c1 | Inr _ \<Rightarrow> ch_sent A c1 @ [FramePart (DataFrame (bw_buf w))])"
    using chan_laws(3) [OF assms(1), of _ c1 _ c2] chan_laws(4) [OF assms(1), of _ c1 _ c2] st
    by (cases q2) simp_all
  show ?thesis
    using False assms(2,3) rdy c1 st c2
    by (cases q; cases q2) (auto simp: bw_poll_flush_def holds_def unfinished_def split: sum.splits)
qed (use assms in \<open>auto simp: bw_poll_flush_def\<close>)

lemma await_flush_holds:
  assumes "chan_ok A" "holds A bs w" "await (bw_poll_flush A) w = Some (r, w')"
  shows "case r of Inl _ \<Rightarrow> unfinished A (bw_sender w') | Inr _ \<Rightarrow> holds A bs w' \<and> bw_buf w' = []"
  by (rule await_invariant [OF assms(3), where I = "holds A bs"])
    (use assms(2) poll_flush_holds [OF assms(1)] in \<open>fastforce split: sum.splits\<close>)+

lemma poll_write_holds:
  assumes "chan_ok A" "holds A bs w" "bw_poll_write A b w = (r, w')"
  shows "case r of
      Ready (Inl _) \<Rightarrow> unfinished A (bw_sender w')
    | Ready (Inr _) \<Rightarrow> holds A (bs @ b) w'
    | Pending \<Rightarrow> holds A bs w'"
proof (cases "length (bw_buf w) > 4096")
  case True
  obtain q w1 where f: "bw_poll_flush A w = (q, w1)" by fastforce
  show ?thesis
    using poll_flush_holds [OF assms(1,2) f] assms(3) True f
    by (cases q) (auto simp: bw_poll_write_def holds_def split: sum.splits)
qed (use assms in \<open>auto simp: bw_poll_write_def holds_def\<close>)

lemma await_write_holds:
  assumes "chan_ok A" "holds A bs w" "await (bw_poll_write A b) w = Some (r, w')"
  shows "case r of Inl _ \<Rightarrow> unfinished A (bw_sender w') | Inr _ \<Rightarrow> holds A (bs @ b) w'"
  by (rule await_invariant [OF assms(3), where I = "holds A bs"])
    (use assms(2) poll_write_holds [OF assms(1)] in \<open>fastforce split: sum.splits\<close>)+

lemma flush_then_send_sent:
  assumes "chan_ok A" "holds A bs w" "bw_flush_then_send A p w = Some (r, w')"
  shows "\<exists>ps. DonePart \<notin> set ps \<and>
    (ch_sent A (bw_sender w') = ps \<or> ch_sent A (bw_sender w') = ps @ [p] \<and> parts_data ps = bs) \<and>
    (r = Inr () \<longrightarrow> ch_sent A (bw_sender w') = ps @ [p] \<and> bw_buf w' = [])"
proof -
  obtain q w1 where f: "await (bw_poll_flush A) w = Some (q, w1)"
    using assms(3) by (auto simp: bw_flush_then_send_def bind_eq_Some_conv)
  note fl = await_flush_holds [OF assms(1,2) f]
  show ?thesis
  proof (cases q)
    case (Inl e)
    then show ?thesis using fl f assms(3)
      by (auto simp: bw_flush_then_send_def unfinished_def intro: exI [of _ "ch_sent A (bw_sender w1)"])
  next
    case (Inr u)
    then obtain c where s: "sink_send A p (bw_sender w1) = Some (r, c)" "w' = w1\<lparr>bw_sender := c\<rparr>"
      using f assms(3) by (auto simp: bw_flush_then_send_def)
    have h: "holds A bs w1" "bw_buf w1 = []" using fl Inr by auto
    then show ?thesis
      using sink_send_sent [OF assms(1) s(1)] s(2)
      by (intro exI [of _ "ch_sent A (bw_sender w1)"]) (auto simp: holds_def)
  qed
qed

lemma op_run_holds:
  assumes "chan_ok A" "holds A bs w" "writer_op_run A op w = Some (r, w')"
  shows "case r of Inl _ \<Rightarrow> unfinished A (bw_sender w') | Inr _ \<Rightarrow> holds A (bs @ op_bytes op) w'"
proof (cases op)
  case (WriteSlice b)
  then obtain q where q: "await (bw_poll_write A b) w = Some (q, w')" "r = map_sum (\<lambda>e. e) (\<lambda>_. ()) q"
    using assms(3) by auto
  show ?thesis using await_write_holds [OF assms(1,2) q(1)] q(2) WriteSlice by (cases q) auto
next
  case (WriteBytes b)
  then show ?thesis
    using assms(3) flush_then_send_sent [OF assms(1,2), of "FramePart (DataFrame b)" r w']
    by (auto simp: bw_write_bytes_def holds_def unfinished_def split: sum.splits)
next
  case FlushOp
  then show ?thesis using await_flush_holds [OF assms(1,2), of r w'] assms(3) by (cases r) auto
qed

lemma write_body_holds:
  assumes "chan_ok A" "holds A bs w" "write_body A ops ok w = Some (ok', w')"
  shows "if ok' then ok \<and> holds A (bs @ written ops) w' else unfinished A (bw_sender w')"
  using assms(2,3)
proof (induction ops arbitrary: bs w)
  case Nil
  then show ?case by (auto simp: holds_def unfinished_def)
next
  case (Cons op ops)
  then obtain r w1 where r: "writer_op_run A op w = Some (r, w1)" by (auto simp: bind_eq_Some_conv)
  show ?case
  proof (cases r)
    case (Inl e)
    then show ?thesis using op_run_holds [OF assms(1) Cons.prems(1) r] Cons.prems(2) r by auto
  next
    case (Inr u)
    then show ?thesis
      using op_run_holds [OF assms(1) Cons.prems(1) r] Cons.prems(2) r Cons.IH [of "bs @ op_bytes op" w1]
      by (auto split: if_splits)
  qed
qed

subsection \<open>From the writer to the transport\<close>

inductive receives :: "('r \<Rightarrow> 'p option poll \<times> 'r) \<Rightarrow> 'r \<Rightarrow> 'p list \<Rightarrow> bool"
  for R :: "'r \<Rightarrow> 'p option poll \<times> 'r" where
  rcv_gone: "R r = (Ready None, r') \<Longrightarrow> receives R r []"
| rcv_wait: "R r = (Pending, r') \<Longrightarrow> receives R r' ps \<Longrightarrow> receives R r ps"
| rcv_part: "R r = (Ready (Some p), r') \<Longrightarrow> receives R r' ps \<Longrightarrow> receives R r (p # ps)"

lemma raw_stream_yields:
  assumes "receives R r ps" "DonePart \<notin> set ps"
  shows "(\<forall>polled. \<exists>s. yields (raw_poll_frame R) (InnerStream r polled) s \<and> content s = parts_data ps \<and>
            last s = Failure RequestBodyError \<and> s \<noteq> [])"
  using assms
proof (induction rule: receives.induct)
  case (rcv_gone r r')
  show ?case
  proof
    fix polled
    have "yields (raw_poll_frame R) (InnerStream r polled) [Failure RequestBodyError]"
      using rcv_gone by (auto intro!: yields.intros simp: raw_poll_frame_def)
    then show "\<exists>s. yields (raw_poll_frame R) (InnerStream r polled) s \<and> content s = parts_data [] \<and>
        last s = Failure RequestBodyError \<and> s \<noteq> []" by force
  qed
next
  case (rcv_wait r r' ps)
  then obtain s where s: "yields (raw_poll_frame R) (InnerStream r' False) s" "content s = parts_data ps"
    "last s = Failure RequestBodyError" "s \<noteq> []" by blast
  have "yields (raw_poll_frame R) (InnerStream r polled) (Stall # s)" for polled
    using rcv_wait(1) s(1) by (intro yields_more) (simp_all add: raw_poll_frame_def)
  then show ?case using s(2-4) by (auto intro!: exI [of _ "Stall # s"])
next
  case (rcv_part r p r' ps)
  then obtain f where f: "p = FramePart f" by (cases p) auto
  from rcv_part obtain s where s: "yields (raw_poll_frame R) (InnerStream r' False) s" "content s = parts_data ps"
    "last s = Failure RequestBodyError" "s \<noteq> []" by auto
  have "yields (raw_poll_frame R) (InnerStream r polled) (Yield f # s)" for polled
    using rcv_part(1) s(1) f by (intro yields_more) (simp_all add: raw_poll_frame_def)
  then show ?case using s(2-4) f by (cases f) (auto intro!: exI [of _ "Yield f # s"])
qed

lemma raw_stream_yields_done:
  assumes "receives R r ps" "ps = qs @ [DonePart]" "DonePart \<notin> set qs"
  shows "\<forall>polled. \<exists>s. yields (raw_poll_frame R) (InnerStream r polled) s \<and> content s = parts_data qs \<and>
           (\<forall>e. Failure e \<notin> set s)"
  using assms
proof (induction arbitrary: qs rule: receives.induct)
  case (rcv_wait r r' ps)
  then obtain s where s: "yields (raw_poll_frame R) (InnerStream r' False) s" "content s = parts_data qs"
    "\<forall>e. Failure e \<notin> set s" by blast
  have "yields (raw_poll_frame R) (InnerStream r polled) (Stall # s)" for polled
    using rcv_wait(1) s(1) by (intro yields_more) (simp_all add: raw_poll_frame_def)
  then show ?case using s(2,3) by (auto intro!: exI [of _ "Stall # s"])
next
  case (rcv_part r p r' ps)
  show ?case
  proof (cases qs)
    case Nil
    then have "yields (raw_poll_frame R) (InnerStream r polled) []" for polled
      using rcv_part(1,4) by (intro yields_end) (simp add: raw_poll_frame_def)
    then show ?thesis using Nil by (auto intro!: exI [of _ "[]"])
  next
    case (Cons q qs')
    then obtain f where f: "p = FramePart f" using rcv_part(4,5) by (cases p) auto
    have ps: "ps = qs' @ [DonePart]" "DonePart \<notin> set qs'" using Cons rcv_part(4,5) by auto
    from rcv_part(3) [OF ps] obtain s where s: "yields (raw_poll_frame R) (InnerStream r' False) s"
      "content s = parts_data qs'" "\<forall>e. Failure e \<notin> set s" by blast
    have "yields (raw_poll_frame R) (InnerStream r polled) (Yield f # s)" for polled
      using rcv_part(1) s(1) f by (intro yields_more) (simp_all add: raw_poll_frame_def)
    moreover have "q = p" using Cons rcv_part(4) by simp
    ultimately show ?thesis using s(2,3) f Cons by (cases f) (auto intro!: exI [of _ "Yield f # s"])
  qed
qed simp

lemma writer_write_sent:
  assumes "chan_ok A" "ch_sent A sender = []"
    and "writer_write A True (WriterStreaming ops ok sender) = Some (res, Some c)"
  shows "\<exists>ps. DonePart \<notin> set ps \<and>
    (\<not> res \<and> ch_sent A c = ps \<or> ok \<and> ch_sent A c = ps @ [DonePart] \<and> parts_data ps = written ops)"
proof -
  obtain ok' w where wb: "write_body A ops ok (body_writer_new sender) = Some (ok', w)"
    using assms(3) by (auto simp: bind_eq_Some_conv)
  have "holds A [] (body_writer_new sender)" using assms(2) by (simp add: holds_def body_writer_new_def)
  note h = write_body_holds [OF assms(1) this wb]
  show ?thesis
  proof (cases ok')
    case False
    then show ?thesis using h assms(3) wb by (auto simp: unfinished_def)
  next
    case True
    then obtain r w' where fin: "bw_finish A w = Some (r, w')" "res = (r = Inr ())" "c = bw_sender w'"
      using assms(3) wb by auto
    from True h have "ok" "holds A (written ops) w" by auto
    with flush_then_send_sent [OF assms(1) this(2) fin(1) [unfolded bw_finish_def]] fin(2,3)
    show ?thesis by (elim exE) auto
  qed
qed

text \<open>C23: A streamed request body is complete or visibly broken. Whatever the caller writes, in whatever
  pieces, and however the channel stalls or fails: if the writer reports success, the transport reads
  exactly the bytes written, in order, and a clean end; and whenever the transport sees a clean end,
  the caller's \<^verbatim>\<open>write_body\<close> had succeeded and every byte it wrote has been read. An aborted write
  always ends in \<open>RequestBodyError\<close>, so that a truncated body never passes for a complete one.\<close>

theorem request_body_complete_or_error:
  assumes "chan_ok A" "ch_sent A sender = []"
    and "raw_request_body_new sender r (ReqStreaming ops ok) = (inner, wr)"
    and "writer_write A True wr = Some (res, Some c)" "receives R r (ch_sent A c)"
  shows "\<exists>s. yields (raw_poll_frame R) inner s \<and>
    (res \<longrightarrow> content s = written ops \<and> (\<forall>e. Failure e \<notin> set s)) \<and>
    ((\<forall>e. Failure e \<notin> set s) \<longrightarrow> ok \<and> content s = written ops) \<and>
    ((\<exists>e. Failure e \<in> set s) \<longrightarrow> last s = Failure RequestBodyError)"
proof -
  have wr: "inner = InnerStream r True" "wr = WriterStreaming ops ok sender" using assms(3) by auto
  from writer_write_sent [OF assms(1,2) assms(4) [unfolded wr]] obtain ps where ps: "DonePart \<notin> set ps"
    "\<not> res \<and> ch_sent A c = ps \<or> ok \<and> ch_sent A c = ps @ [DonePart] \<and> parts_data ps = written ops" by blast
  from ps(2) show ?thesis
  proof
    assume "\<not> res \<and> ch_sent A c = ps"
    then show ?thesis
      using raw_stream_yields [OF _ ps(1), of R r] assms(5) wr(1) by (metis last_in_set)
  next
    assume "ok \<and> ch_sent A c = ps @ [DonePart] \<and> parts_data ps = written ops"
    then show ?thesis
      using raw_stream_yields_done [OF assms(5) _ ps(1)] wr(1) by metis
  qed
qed

text \<open>An unbounded channel and its receiver, for the witnesses.\<close>

definition list_chan :: "('p list, 'p) chan_api" where
  "list_chan = \<lparr>ch_poll_ready = (\<lambda>c. (Ready (Inr ()), c)), ch_start_send = (\<lambda>p c. (Inr (), c @ [p])),
     ch_poll_flush = (\<lambda>c. (Ready (Inr ()), c)), ch_sent = (\<lambda>c. c)\<rparr>"

fun list_rx :: "'p list \<Rightarrow> 'p option poll \<times> 'p list" where
  "list_rx [] = (Ready None, [])"
| "list_rx (p # ps) = (Ready (Some p), ps)"

lemma list_chan_ok: "chan_ok list_chan"
  by (simp add: chan_ok_def list_chan_def)

lemma list_rx_receives: "receives list_rx ps ps"
  by (induction ps) (auto intro: receives.intros)

theorem request_body_complete_or_error_witness:
  "\<exists>s. yields (raw_poll_frame (list_rx :: unit part list \<Rightarrow> _))
     (InnerStream [FramePart (DataFrame [1, 2]), FramePart (DataFrame [3]), DonePart] True) s \<and>
     content s = [1, 2, 3]"
proof -
  let ?ps = "[FramePart (DataFrame [1, 2]), FramePart (DataFrame [3]), DonePart] :: unit part list"
  let ?ops = "[WriteSlice [1, 2], WriteBytes [3]]"
  have w: "writer_write list_chan True (WriterStreaming ?ops True []) = Some (True, Some ?ps)"
    by (simp add: list_chan_def body_writer_new_def bw_write_bytes_def bw_finish_def bw_flush_then_send_def
        bw_poll_write_def bw_poll_flush_def sink_send_def await.simps)
  have r: "receives list_rx ?ps (ch_sent list_chan ?ps)"
    using list_rx_receives [of ?ps] by (simp add: list_chan_def)
  have "ch_sent list_chan ([] :: unit part list) = []" by (simp add: list_chan_def)
  from request_body_complete_or_error [OF list_chan_ok this _ w r, where ok = True]
  show ?thesis by (simp add: written_def) blast
qed

end
