(* ===== verification/Blocking.thy ===== *)
theory Blocking
  imports RequestBody
begin

text \<open>
  The blocking client: \<^verbatim>\<open>blocking/body.rs\<close> and \<^verbatim>\<open>blocking/client.rs\<close>. A blocking body writer runs on
  the caller's thread and sends parts through a channel to the shim, which forwards them to the
  asynchronous writer inside the runtime. Blocking on a future is awaiting it.
\<close>

datatype 'e body_part = BPData "byte list" | BPError 'e | BPDone

record 'c blocking_writer =
  kw_sender :: 'c
  kw_buf :: "byte list"

definition blocking_writer_new :: "'c \<Rightarrow> 'c blocking_writer" where
  "blocking_writer_new sender = \<lparr>kw_sender = sender, kw_buf = []\<rparr>"

definition kw_send ::
  "('c, 'e body_part) chan_api \<Rightarrow> 'e body_part \<Rightarrow> 'c blocking_writer \<Rightarrow>
   ((io_error + unit) \<times> 'c blocking_writer) option" where
  "kw_send A m w = map_option (\<lambda>(r, c). (r, w\<lparr>kw_sender := c\<rparr>)) (sink_send A m (kw_sender w))"

definition kw_flush ::
  "('c, 'e body_part) chan_api \<Rightarrow> 'c blocking_writer \<Rightarrow> ((io_error + unit) \<times> 'c blocking_writer) option" where
  "kw_flush A w =
     (if kw_buf w = [] then Some (Inr (), w)
      else kw_send A (BPData (kw_buf w)) (w\<lparr>kw_buf := []\<rparr>))"

definition kw_flush_then_send ::
  "('c, 'e body_part) chan_api \<Rightarrow> 'e body_part \<Rightarrow> 'c blocking_writer \<Rightarrow>
   ((io_error + unit) \<times> 'c blocking_writer) option" where
  "kw_flush_then_send A m w =
     Option.bind (kw_flush A w) (\<lambda>(r, w1).
       case r of Inl e \<Rightarrow> Some (Inl e, w1) | Inr _ \<Rightarrow> kw_send A m w1)"

definition kw_finish ::
  "('c, 'e body_part) chan_api \<Rightarrow> 'c blocking_writer \<Rightarrow> ((io_error + unit) \<times> 'c blocking_writer) option" where
  "kw_finish A w = kw_flush_then_send A BPDone w"

definition kw_write_bytes ::
  "('c, 'e body_part) chan_api \<Rightarrow> byte list \<Rightarrow> 'c blocking_writer \<Rightarrow>
   ((io_error + unit) \<times> 'c blocking_writer) option" where
  "kw_write_bytes A buf w = kw_flush_then_send A (BPData buf) w"

definition kw_write ::
  "('c, 'e body_part) chan_api \<Rightarrow> byte list \<Rightarrow> 'c blocking_writer \<Rightarrow>
   ((io_error + nat) \<times> 'c blocking_writer) option" where
  "kw_write A buf w =
     (let w1 = w\<lparr>kw_buf := kw_buf w @ buf\<rparr>
      in if length buf > 4906 then
           map_option (\<lambda>(r, w2). (map_sum (\<lambda>e. e) (\<lambda>_. length buf) r, w2)) (kw_flush A w1)
         else Some (Inr (length buf), w1))"

subsection \<open>The streamer and the shim\<close>

fun kw_op ::
  "('c, 'e body_part) chan_api \<Rightarrow> writer_op \<Rightarrow> 'c blocking_writer \<Rightarrow>
   ((io_error + unit) \<times> 'c blocking_writer) option" where
  "kw_op A (WriteSlice b) w = map_option (\<lambda>(r, w'). (map_sum (\<lambda>e. e) (\<lambda>_. ()) r, w')) (kw_write A b w)"
| "kw_op A (WriteBytes b) w = kw_write_bytes A b w"
| "kw_op A FlushOp w = kw_flush A w"

text \<open>The caller's \<^verbatim>\<open>write_body\<close>: it stops at the first failing write, whose error it reports.\<close>

fun kw_write_body ::
  "('c, 'e body_part) chan_api \<Rightarrow> (io_error \<Rightarrow> 'e) \<Rightarrow> writer_op list \<Rightarrow> 'e + unit \<Rightarrow> 'c blocking_writer \<Rightarrow>
   (('e + unit) \<times> 'c blocking_writer) option" where
  "kw_write_body A io [] res w = Some (res, w)"
| "kw_write_body A io (op # ops) res w =
     Option.bind (kw_op A op w) (\<lambda>(r, w').
       case r of Inl e \<Rightarrow> Some (Inl (io e), w') | Inr _ \<Rightarrow> kw_write_body A io ops res w')"

text \<open>What \<^verbatim>\<open>BodyStreamer::stream\<close> does for one \<^verbatim>\<open>Write\<close> request; the outcome of the last send is ignored.\<close>

definition streamer_write ::
  "('c, 'e body_part) chan_api \<Rightarrow> (io_error \<Rightarrow> 'e) \<Rightarrow> writer_op list \<Rightarrow> 'e + unit \<Rightarrow> 'c \<Rightarrow> 'c option" where
  "streamer_write A io ops res sender =
     Option.bind (kw_write_body A io ops res (blocking_writer_new sender)) (\<lambda>(r, w).
       map_option (\<lambda>(_, w'). kw_sender w')
         (case r of Inr _ \<Rightarrow> kw_finish A w | Inl e \<Rightarrow> kw_send A (BPError e) w))"

datatype 'c shim_request = ShimWrite 'c | ShimReset

text \<open>
  The streamer serves the requests in the order they come, until the shim is gone; \<open>write\<close> and \<open>reset\<close>
  are the caller's body, whose state is \<open>'s\<close>. The answers to the resets are collected.
\<close>

fun stream_requests ::
  "('c \<Rightarrow> 's \<Rightarrow> 's) \<Rightarrow> ('s \<Rightarrow> bool \<times> 's) \<Rightarrow> 'c shim_request list \<Rightarrow> 's \<Rightarrow> bool list \<times> 's" where
  "stream_requests write reset [] s = ([], s)"
| "stream_requests write reset (ShimWrite sender # rest) s =
     stream_requests write reset rest (write sender s)"
| "stream_requests write reset (ShimReset # rest) s =
     (case reset s of (ok, s') \<Rightarrow>
        (case stream_requests write reset rest s' of (oks, s2) \<Rightarrow> (ok # oks, s2)))"

partial_function (option) shim_write_loop ::
  "('c, 'h part) chan_api \<Rightarrow> ('r \<Rightarrow> 'e body_part option poll \<times> 'r) \<Rightarrow> (string \<Rightarrow> 'e) \<Rightarrow> 'r \<Rightarrow>
   'c body_writer \<Rightarrow> (('e + unit) \<times> 'c body_writer) option" where
  "shim_write_loop A R err r w =
     Option.bind (await R r) (\<lambda>(m, r').
       case m of
         Some (BPData bytes) \<Rightarrow>
           Option.bind (bw_write_bytes A bytes w) (\<lambda>(q, w').
             case q of
               Inl _ \<Rightarrow> Some (Inl (err ''send failed''), w')
             | Inr _ \<Rightarrow> shim_write_loop A R err r' w')
       | Some (BPError e) \<Rightarrow> Some (Inl e, w)
       | Some BPDone \<Rightarrow> Some (Inr (), w)
       | None \<Rightarrow> Some (Inl (err ''body write aborted''), w))"

text \<open>\<open>sent\<close>: whether the streamer was still there to take the request.\<close>

definition shim_write ::
  "bool \<Rightarrow> ('c, 'h part) chan_api \<Rightarrow> ('r \<Rightarrow> 'e body_part option poll \<times> 'r) \<Rightarrow> (string \<Rightarrow> 'e) \<Rightarrow> 'r \<Rightarrow>
   'c body_writer \<Rightarrow> (('e + unit) \<times> 'c body_writer) option" where
  "shim_write sent A R err r w =
     (if \<not> sent then Some (Inl (err ''send failed''), w) else shim_write_loop A R err r w)"

definition shim_reset :: "bool \<Rightarrow> bool option \<Rightarrow> bool" where
  "shim_reset sent answer = (if \<not> sent then False else (case answer of Some ok \<Rightarrow> ok | None \<Rightarrow> False))"

subsection \<open>The blocking response body\<close>

partial_function (option) block_on ::
  "('s \<Rightarrow> ('r poll \<times> 's) option) \<Rightarrow> 's \<Rightarrow> ('r \<times> 's) option" where
  "block_on poll s =
     Option.bind (poll s) (\<lambda>(r, s'). case r of Ready x \<Rightarrow> Some (x, s') | Pending \<Rightarrow> block_on poll s')"

definition blocking_next ::
  "('b, 'e, 'h) body_poll \<Rightarrow> ('e \<Rightarrow> 'x) \<Rightarrow> 'b response_body \<Rightarrow> (('x + byte list) option \<times> 'b response_body) option" where
  "blocking_next B g rb = block_on (rb_poll_next B g) rb"

definition blocking_fill_buf ::
  "('b, 'e, 'h) body_poll \<Rightarrow> ('e \<Rightarrow> 'x) \<Rightarrow> 'b response_body \<Rightarrow> (('x + byte list) \<times> 'b response_body) option" where
  "blocking_fill_buf B g rb =
     map_option (\<lambda>(r, rb'). (map_sum (\<lambda>e. e) (\<lambda>_. rb_buffer rb') r, rb')) (block_on (rb_poll_fill_buf B g) rb)"

subsection \<open>The blocking client\<close>

text \<open>\<^verbatim>\<open>default_handle\<close>: the runtime is built on first use; a failure to build it is not remembered.\<close>

definition default_handle :: "io_error + handle \<Rightarrow> handle option \<Rightarrow> (io_error + handle) \<times> handle option" where
  "default_handle build cell =
     (case cell of
        Some h \<Rightarrow> (Inr h, Some h)
      | None \<Rightarrow> (case build of Inl e \<Rightarrow> (Inl e, None) | Inr h \<Rightarrow> (Inr h, Some h)))"

datatype 'c shim_body = ShimEmpty | ShimFixed "byte list" | ShimStreaming 'c

fun shim_body_of :: "'c \<Rightarrow> request_body \<Rightarrow> 'c shim_body \<times> bool" where
  "shim_body_of c ReqEmpty = (ShimEmpty, False)"
| "shim_body_of c (ReqFixed b) = (ShimFixed b, False)"
| "shim_body_of c (ReqStreaming ops ok) = (ShimStreaming c, True)"

text \<open>
  \<^verbatim>\<open>Client::send\<close>: \<open>run\<close> is the spawned task together with the streamer on the calling thread; it gives
  no result when the task was dropped.
\<close>

definition blocking_send ::
  "'e error_api \<Rightarrow> (io_error \<Rightarrow> cause) \<Rightarrow> ('e \<Rightarrow> 'e) \<Rightarrow> cause \<Rightarrow>
   (handle \<Rightarrow> 'c shim_body \<Rightarrow> bool \<Rightarrow> 'w \<Rightarrow> ('e + ('h, 'b) response) option \<times> 'w) \<Rightarrow>
   io_error + handle \<Rightarrow> 'c \<Rightarrow> handle option \<Rightarrow> request_body \<Rightarrow> handle option \<Rightarrow> 'w \<Rightarrow>
   ('e + ('h, 'b \<times> handle) response) \<times> handle option \<times> 'w" where
  "blocking_send E io with_backtrace canceled run build c own body cell w =
     (case shim_body_of c body of
        (shim, streaming) \<Rightarrow>
          (case (case own of Some h \<Rightarrow> (Inr h, cell) | None \<Rightarrow> default_handle build cell) of
             (Inl e, cell') \<Rightarrow> (Inl (internal_safe E (io e)), cell', w)
           | (Inr h, cell') \<Rightarrow>
               (case run h shim streaming w of
                  (Some (Inr r), w') \<Rightarrow>
                    (Inr \<lparr>rs_status = rs_status r, rs_headers = rs_headers r, rs_body = (rs_body r, h)\<rparr>, cell', w')
                | (Some (Inl e), w') \<Rightarrow> (Inl (with_backtrace e), cell', w')
                | (None, w') \<Rightarrow> (Inl (internal_safe E canceled), cell', w'))))"

subsection \<open>From the blocking writer to the shim\<close>

lemma kw_send_sent:
  assumes "chan_ok A" "kw_send A m w = Some (r, w')"
  shows "kw_buf w' = kw_buf w"
    and "ch_sent A (kw_sender w') = ch_sent A (kw_sender w) \<or>
      ch_sent A (kw_sender w') = ch_sent A (kw_sender w) @ [m]"
    and "r = Inr () \<Longrightarrow> ch_sent A (kw_sender w') = ch_sent A (kw_sender w) @ [m]"
proof -
  obtain c where c: "sink_send A m (kw_sender w) = Some (r, c)" "w' = w\<lparr>kw_sender := c\<rparr>"
    using assms(2) by (auto simp: kw_send_def)
  show "kw_buf w' = kw_buf w" using c(2) by simp
  show "ch_sent A (kw_sender w') = ch_sent A (kw_sender w) \<or>
      ch_sent A (kw_sender w') = ch_sent A (kw_sender w) @ [m]"
    using sink_send_sent(1) [OF assms(1) c(1)] c(2) by simp
  show "ch_sent A (kw_sender w') = ch_sent A (kw_sender w) @ [m]" if "r = Inr ()"
    using sink_send_sent(2) [OF assms(1) c(1) that] c(2) by simp
qed

text \<open>Only data has been sent, and with the buffer it is what was written.\<close>

definition kw_holds :: "('c, 'e body_part) chan_api \<Rightarrow> byte list \<Rightarrow> 'c blocking_writer \<Rightarrow> bool" where
  "kw_holds A bs w \<longleftrightarrow> (\<exists>ds. ch_sent A (kw_sender w) = map BPData ds \<and> concat ds @ kw_buf w = bs)"

definition only_data :: "('c, 'e body_part) chan_api \<Rightarrow> 'c \<Rightarrow> bool" where
  "only_data A c \<longleftrightarrow> (\<exists>ds. ch_sent A c = map BPData ds)"

lemma kw_send_data:
  assumes "chan_ok A" "ch_sent A (kw_sender w) = map BPData ds" "kw_send A (BPData b) w = Some (r, w')"
  shows "only_data A (kw_sender w')"
    and "r = Inr () \<Longrightarrow> ch_sent A (kw_sender w') = map BPData (ds @ [b]) \<and> kw_buf w' = kw_buf w"
proof -
  show "only_data A (kw_sender w')"
    using kw_send_sent(2) [OF assms(1,3)] assms(2)
    by (auto simp: only_data_def intro: exI [of _ "ds @ [b]"])
  show "ch_sent A (kw_sender w') = map BPData (ds @ [b]) \<and> kw_buf w' = kw_buf w" if "r = Inr ()"
    using kw_send_sent(1) [OF assms(1,3)] kw_send_sent(3) [OF assms(1,3) that] assms(2) by simp
qed

lemma kw_flush_holds:
  assumes "chan_ok A" "kw_holds A bs w" "kw_flush A w = Some (r, w')"
  shows "only_data A (kw_sender w')" and "r = Inr () \<Longrightarrow> kw_holds A bs w' \<and> kw_buf w' = []"
proof -
  obtain ds where ds: "ch_sent A (kw_sender w) = map BPData ds" "concat ds @ kw_buf w = bs"
    using assms(2) by (auto simp: kw_holds_def)
  have "only_data A (kw_sender w') \<and> (r = Inr () \<longrightarrow> kw_holds A bs w' \<and> kw_buf w' = [])"
  proof (cases "kw_buf w = []")
    case True
    then show ?thesis using assms ds by (auto simp: kw_flush_def only_data_def)
  next
    case False
    let ?w = "w\<lparr>kw_buf := []\<rparr>"
    have s: "kw_send A (BPData (kw_buf w)) ?w = Some (r, w')" using assms(3) False by (simp add: kw_flush_def)
    have d: "ch_sent A (kw_sender ?w) = map BPData ds" using ds(1) by simp
    show ?thesis
      using kw_send_data [OF assms(1) d s] ds(2) by (auto simp: kw_holds_def intro: exI [of _ "ds @ [kw_buf w]"])
  qed
  then show "only_data A (kw_sender w')" "r = Inr () \<Longrightarrow> kw_holds A bs w' \<and> kw_buf w' = []" by simp_all
qed

lemma kw_flush_then_send_sent:
  assumes "chan_ok A" "kw_holds A bs w" "kw_flush_then_send A m w = Some (r, w')"
  shows "\<exists>ds. (ch_sent A (kw_sender w') = map BPData ds \<and> r \<noteq> Inr () \<or>
           ch_sent A (kw_sender w') = map BPData ds @ [m] \<and> concat ds = bs \<and> kw_buf w' = [])"
proof -
  obtain q w1 where f: "kw_flush A w = Some (q, w1)"
    using assms(3) by (auto simp: kw_flush_then_send_def bind_eq_Some_conv)
  note fl = kw_flush_holds [OF assms(1,2) f]
  show ?thesis
  proof (cases q)
    case (Inl e)
    then show ?thesis using fl(1) f assms(3) by (auto simp: kw_flush_then_send_def only_data_def)
  next
    case (Inr u)
    then have s: "kw_send A m w1 = Some (r, w')" using f assms(3) by (simp add: kw_flush_then_send_def)
    obtain ds where "ch_sent A (kw_sender w1) = map BPData ds" "concat ds = bs" "kw_buf w1 = []"
      using fl(2) Inr by (auto simp: kw_holds_def)
    then show ?thesis
      using kw_send_sent [OF assms(1) s] by (intro exI [of _ ds]) (cases r; auto)
  qed
qed

lemma kw_op_holds:
  assumes "chan_ok A" "kw_holds A bs w" "kw_op A op w = Some (r, w')"
  shows "case r of Inl _ \<Rightarrow> only_data A (kw_sender w') | Inr _ \<Rightarrow> kw_holds A (bs @ op_bytes op) w'"
proof (cases op)
  case (WriteSlice b)
  let ?w = "w\<lparr>kw_buf := kw_buf w @ b\<rparr>"
  have h: "kw_holds A (bs @ b) ?w" using assms(2) by (auto simp: kw_holds_def)
  show ?thesis
  proof (cases "length b > 4906")
    case True
    then obtain q where f: "kw_flush A ?w = Some (q, w')" "r = map_sum (\<lambda>e. e) (\<lambda>_. ()) q"
      using assms(3) WriteSlice by (auto simp: kw_write_def Let_def map_sum.compositionality o_def)
    then show ?thesis using kw_flush_holds [OF assms(1) h f(1)] WriteSlice by (cases q) auto
  next
    case False
    then show ?thesis using assms(3) WriteSlice h by (auto simp: kw_write_def Let_def)
  qed
next
  case (WriteBytes b)
  then show ?thesis
    using assms(3) kw_flush_then_send_sent [OF assms(1,2), of "BPData b" r w']
    by (auto simp: kw_write_bytes_def kw_holds_def only_data_def split: sum.splits
        intro: exI [of _ "_ @ [b]"])
next
  case FlushOp
  then show ?thesis using assms(3) kw_flush_holds [OF assms(1,2), of r w'] by (cases r) auto
qed

lemma kw_write_body_holds:
  assumes "chan_ok A" "kw_holds A bs w" "kw_write_body A io ops res w = Some (r, w')"
  shows "case r of Inl _ \<Rightarrow> only_data A (kw_sender w') | Inr _ \<Rightarrow> res = Inr () \<and> kw_holds A (bs @ written ops) w'"
  using assms(2,3)
proof (induction ops arbitrary: bs w)
  case Nil
  then show ?case by (auto simp: kw_holds_def only_data_def split: sum.splits)
next
  case (Cons op ops)
  then obtain q w1 where q: "kw_op A op w = Some (q, w1)" by (auto simp: bind_eq_Some_conv)
  show ?case
  proof (cases q)
    case (Inl e)
    then show ?thesis using kw_op_holds [OF assms(1) Cons.prems(1) q] Cons.prems(2) q by auto
  next
    case (Inr u)
    then show ?thesis
      using kw_op_holds [OF assms(1) Cons.prems(1) q] Cons.prems(2) q Cons.IH [of "bs @ op_bytes op" w1]
      by (auto split: sum.splits)
  qed
qed

lemma streamer_write_sent:
  assumes "chan_ok A" "ch_sent A sender = []" "streamer_write A io ops res sender = Some c"
  shows "\<exists>ds. ch_sent A c = map BPData ds \<or> (\<exists>e. ch_sent A c = map BPData ds @ [BPError e]) \<or>
    ch_sent A c = map BPData ds @ [BPDone] \<and> concat ds = written ops \<and> res = Inr ()"
proof -
  have "kw_holds A [] (blocking_writer_new sender)"
    using assms(2) by (simp add: kw_holds_def blocking_writer_new_def)
  moreover obtain r w where wb: "kw_write_body A io ops res (blocking_writer_new sender) = Some (r, w)"
    using assms(3) by (auto simp: streamer_write_def bind_eq_Some_conv)
  ultimately have h: "case r of Inl _ \<Rightarrow> only_data A (kw_sender w) | Inr _ \<Rightarrow> res = Inr () \<and> kw_holds A (written ops) w"
    using kw_write_body_holds [OF assms(1), of "[]" "blocking_writer_new sender" io ops res r w]
    by (cases r) simp_all
  show ?thesis
  proof (cases r)
    case (Inl e)
    then obtain q w' where s: "kw_send A (BPError e) w = Some (q, w')" "c = kw_sender w'"
      using assms(3) wb by (auto simp: streamer_write_def)
    obtain ds where "ch_sent A (kw_sender w) = map BPData ds" using h Inl by (auto simp: only_data_def)
    then show ?thesis using kw_send_sent(2) [OF assms(1) s(1)] s(2) by auto
  next
    case (Inr u)
    then obtain q w' where s: "kw_finish A w = Some (q, w')" "c = kw_sender w'"
      using assms(3) wb by (auto simp: streamer_write_def)
    have "kw_holds A (written ops) w" "res = Inr ()" using h Inr by auto
    then show ?thesis
      using kw_flush_then_send_sent [OF assms(1) _ s(1) [unfolded kw_finish_def]] s(2) by blast
  qed
qed

lemma receives_await:
  assumes "receives R r ps"
  shows "case ps of [] \<Rightarrow> \<exists>r'. await R r = Some (None, r')
         | p # qs \<Rightarrow> \<exists>r'. await R r = Some (Some p, r') \<and> receives R r' qs"
  using assms
proof (induction rule: receives.induct)
  case (rcv_wait r r' ps)
  then have "await R r = await R r'" by (subst await.simps) simp
  with rcv_wait.IH show ?case by (auto split: list.splits)
qed (subst await.simps, auto)+

lemma shim_write_holds:
  assumes "chan_ok A" "receives R r (map BPData ds @ ms)" "holds A bs w"
    and "shim_write_loop A R err r w = Some (Inr (), w')"
  shows "(\<exists>r2 w2. receives R r2 ms \<and> holds A (bs @ concat ds) w2 \<and> shim_write_loop A R err r2 w2 = Some (Inr (), w'))"
  using assms(2-4)
proof (induction ds arbitrary: r bs w)
  case (Cons d ds)
  obtain r1 where r1: "await R r = Some (Some (BPData d), r1)" "receives R r1 (map BPData ds @ ms)"
    using receives_await [OF Cons.prems(1)] by auto
  have "Option.bind (bw_write_bytes A d w) (\<lambda>(q, w1).
      case q of Inl _ \<Rightarrow> Some (Inl (err ''send failed''), w1) | Inr _ \<Rightarrow> shim_write_loop A R err r1 w1) = Some (Inr (), w')"
    using Cons.prems(3) r1(1) shim_write_loop.simps [of A R err r w] by simp
  then obtain q w1 where q: "bw_write_bytes A d w = Some (q, w1)" "q = Inr ()" "shim_write_loop A R err r1 w1 = Some (Inr (), w')"
    by (cases "bw_write_bytes A d w") (auto split: prod.splits sum.splits)
  have "holds A (bs @ d) w1"
    using op_run_holds [OF assms(1) Cons.prems(2), of "WriteBytes d" q w1] q by simp
  from Cons.IH [OF r1(2) this q(3)] show ?case by simp
qed auto

text \<open>C29: A body written through the blocking client reaches the asynchronous writer unchanged or not at
  all: when the shim reports success for a write request, the caller's \<^verbatim>\<open>write_body\<close> returned \<^verbatim>\<open>Ok\<close> and
  the asynchronous writer has taken exactly the bytes the caller wrote, in order, however they were
  split; an error or an abandoned write is never turned into success.\<close>

theorem blocking_body_faithful:
  assumes "chan_ok A" "chan_ok A'" "ch_sent A' sender = []"
    and "streamer_write A' io ops res sender = Some c" "receives R r (ch_sent A' c)"
    and "holds A bs w" "shim_write sent A R err r w = Some (Inr (), w')"
  shows "res = Inr () \<and> holds A (bs @ written ops) w'"
proof -
  from streamer_write_sent [OF assms(2,3,4)] obtain ds ms where
    s: "ch_sent A' c = map BPData ds @ ms" "ms = [] \<or> (\<exists>e. ms = [BPError e]) \<or>
      ms = [BPDone] \<and> concat ds = written ops \<and> res = Inr ()"
    by (metis append.right_neutral)
  have loop: "shim_write_loop A R err r w = Some (Inr (), w')"
    using assms(7) by (simp add: shim_write_def split: if_splits)
  from shim_write_holds [OF assms(1) assms(5) [unfolded s(1)] assms(6) loop] obtain r2 w2 where
    e: "receives R r2 ms" "holds A (bs @ concat ds) w2" "shim_write_loop A R err r2 w2 = Some (Inr (), w')"
    by blast
  have "ms = [BPDone]"
  proof (rule ccontr)
    assume "ms \<noteq> [BPDone]"
    with s(2) have "ms = [] \<or> (\<exists>e. ms = [BPError e])" by blast
    then show False
      using receives_await [OF e(1)] e(3) shim_write_loop.simps [of A R err r2 w2] by auto
  qed
  moreover have "w' = w2"
    using receives_await [OF e(1)] e(3) calculation shim_write_loop.simps [of A R err r2 w2] by auto
  ultimately show ?thesis using s(2) e(2) by auto
qed

text \<open>C37: The blocking writer tests the length of the slice it is given instead of the length of its
  buffer, so writes of at most 4906 bytes are never passed on before the end: any number of them is
  collected in memory and nothing reaches the transport until a flush.\<close>

theorem blocking_small_writes_accumulate:
  assumes "\<forall>b \<in> set bs. length b \<le> 4906"
  shows "kw_write_body A io (map WriteSlice bs) (Inr ()) (blocking_writer_new sender) =
    Some (Inr (), \<lparr>kw_sender = sender, kw_buf = concat bs\<rparr>)"
proof -
  have "kw_write_body A io (map WriteSlice bs) (Inr ()) \<lparr>kw_sender = sender, kw_buf = buf\<rparr> =
      Some (Inr (), \<lparr>kw_sender = sender, kw_buf = buf @ concat bs\<rparr>)" for buf
    using assms by (induction bs arbitrary: buf) (simp_all add: kw_write_def Let_def)
  then show ?thesis by (simp add: blocking_writer_new_def)
qed

theorem blocking_small_writes_accumulate_witness:
  "kw_write_body list_chan (\<lambda>_. ()) (map WriteSlice [[1], [2], [3]]) (Inr ()) (blocking_writer_new []) =
     Some (Inr (), \<lparr>kw_sender = [], kw_buf = [1, 2, 3]\<rparr>)"
  using blocking_small_writes_accumulate [of "[[1], [2], [3]]" list_chan "\<lambda>_. ()" "[]"] by simp

theorem blocking_body_faithful_witness:
  "holds (list_chan :: (unit part list, unit part) chan_api) [1, 2]
     \<lparr>bw_sender = [FramePart (DataFrame [1, 2])], bw_buf = []\<rparr>"
proof -
  let ?A = "list_chan :: (unit part list, unit part) chan_api"
  let ?w = "body_writer_new [] :: unit part list body_writer"
  have s: "streamer_write list_chan (\<lambda>_. ()) [WriteSlice [1, 2]] (Inr ()) [] =
      Some ([BPData [1, 2], BPDone] :: unit body_part list)"
    by (simp add: streamer_write_def list_chan_def blocking_writer_new_def kw_write_def kw_finish_def
        kw_flush_then_send_def kw_flush_def kw_send_def sink_send_def await.simps)
  have r: "receives list_rx [BPData [1, 2], BPDone] (ch_sent list_chan ([BPData [1, 2], BPDone] :: unit body_part list))"
    using list_rx_receives [of "[BPData [1, 2], BPDone]"] by (simp add: list_chan_def)
  have w: "shim_write True ?A list_rx (\<lambda>_. ()) [BPData [1, 2], BPDone] ?w =
      Some (Inr (), \<lparr>bw_sender = [FramePart (DataFrame [1, 2])], bw_buf = []\<rparr>)"
    by (simp add: shim_write_def shim_write_loop.simps list_chan_def body_writer_new_def bw_write_bytes_def bw_flush_then_send_def
        bw_poll_flush_def sink_send_def await.simps)
  have "ch_sent list_chan ([] :: unit body_part list) = []" "holds ?A [] ?w"
    by (simp_all add: list_chan_def holds_def body_writer_new_def)
  from blocking_body_faithful [OF list_chan_ok list_chan_ok this(1) s r this(2) w]
  show ?thesis by (simp add: written_def)
qed

end
