(* ===== verification/PinUntilError.thy ===== *)
theory PinUntilError
  imports Node "HOL-Library.Multiset"
begin

text \<open>
  \<^verbatim>\<open>service/node/selector/pin_until_error.rs\<close>: the two node lists (\<open>FixedNodes\<close> and
  \<open>ReshufflingNodes\<close>), their common interface \<open>Nodes\<close> as the locale \<open>node_list\<close>, and the selector
  that stays on one node until a request fails. Randomness is a parameter: \<open>shuffle\<close> returns some
  rearrangement of its argument. Times are nanoseconds since the list was created. An index out of
  range is a panic, the result \<open>None\<close>.
\<close>

definition RESHUFFLE_EVERY :: duration where "RESHUFFLE_EVERY = from_secs (10 * 60 - 30)"
definition RESHUFFLE_JITTER :: duration where "RESHUFFLE_JITTER = from_secs 60"

definition nth_opt :: "'a list \<Rightarrow> nat \<Rightarrow> 'a option" where
  "nth_opt xs i = (if i < length xs then Some (xs ! i) else None)"

record 'a fixed_nodes =
  fx_nodes :: "'a list"

definition fixed_new :: "('a list \<Rightarrow> 'a list) \<Rightarrow> 'a list \<Rightarrow> 'a fixed_nodes" where
  "fixed_new shuffle ns = \<lparr>fx_nodes = shuffle ns\<rparr>"

definition fixed_len :: "'a fixed_nodes \<Rightarrow> nat" where
  "fixed_len f = length (fx_nodes f)"

definition fixed_get :: "nat \<Rightarrow> 'a fixed_nodes \<Rightarrow> 'a option \<times> 'a fixed_nodes" where
  "fixed_get idx f = (nth_opt (fx_nodes f) idx, f)"

record 'a reshuffling_nodes =
  rn_nodes :: "'a list"
  rn_shuffle :: "nat list"
  rn_interval_with_jitter :: duration
  rn_next_reshuffle_nanos :: u64

definition reshuffling_new ::
  "(nat list \<Rightarrow> nat list) \<Rightarrow> duration \<Rightarrow> 'a list \<Rightarrow> 'a reshuffling_nodes" where
  "reshuffling_new shuffle jitter ns =
     (let interval = RESHUFFLE_EVERY + jitter
      in \<lparr>rn_nodes = ns, rn_shuffle = shuffle [0..<length ns],
          rn_interval_with_jitter = interval, rn_next_reshuffle_nanos = of_nat interval\<rparr>)"

definition reshuffling_len :: "'a reshuffling_nodes \<Rightarrow> nat" where
  "reshuffling_len r = length (rn_nodes r)"

text \<open>\<open>snapshot\<close> is the value loaded before the compare-and-exchange.\<close>

definition reshuffle_if_necessary ::
  "(nat list \<Rightarrow> nat list) \<Rightarrow> duration \<Rightarrow> u64 \<Rightarrow> 'a reshuffling_nodes \<Rightarrow> 'a reshuffling_nodes" where
  "reshuffle_if_necessary shuffle now snapshot r =
     (if now < unat snapshot then r
      else if rn_next_reshuffle_nanos r \<noteq> snapshot then r
      else r\<lparr>rn_next_reshuffle_nanos := of_nat (now + rn_interval_with_jitter r),
             rn_shuffle := shuffle (rn_shuffle r)\<rparr>)"

definition reshuffling_get ::
  "(nat list \<Rightarrow> nat list) \<Rightarrow> duration \<Rightarrow> nat \<Rightarrow> 'a reshuffling_nodes \<Rightarrow>
   'a option \<times> 'a reshuffling_nodes" where
  "reshuffling_get shuffle now idx r =
     (let r' = reshuffle_if_necessary shuffle now (rn_next_reshuffle_nanos r) r
      in (Option.bind (nth_opt (rn_shuffle r') idx) (nth_opt (rn_nodes r')), r'))"

text \<open>
  The end of a request that was sent to node \<open>pin\<close>: \<open>current\<close> is the pin at that moment, which other
  requests may have moved in between.
\<close>

definition increment_host :: "http_api \<Rightarrow> 'e + status \<Rightarrow> bool" where
  "increment_host H r = (case r of Inr s \<Rightarrow> is_server_error H s | Inl _ \<Rightarrow> True)"

definition pin_finish :: "http_api \<Rightarrow> nat \<Rightarrow> nat \<Rightarrow> 'e + status \<Rightarrow> nat \<Rightarrow> nat" where
  "pin_finish H len pin r current =
     (if increment_host H r
      then (let new_pin = (pin + 1) mod len in if current = pin then new_pin else current)
      else current)"

text \<open>The whole call, with the node list's operations and \<open>LimitedNode::wrap\<close> as arguments.\<close>

definition pin_call ::
  "http_api \<Rightarrow> ('s \<Rightarrow> nat) \<Rightarrow> (nat \<Rightarrow> 's \<Rightarrow> 'a option \<times> 's) \<Rightarrow>
   ('a \<Rightarrow> 'req \<Rightarrow> 'w \<Rightarrow> ('e + ('h, 'b) response) \<times> 'w) \<Rightarrow> 'req \<Rightarrow> 's \<times> nat \<times> 'w \<Rightarrow>
   (('e + ('h, 'b) response) \<times> ('s \<times> nat \<times> 'w)) option" where
  "pin_call H len get wrap req st =
     (case st of (ns, pin, w) \<Rightarrow>
        (case get pin ns of
           (None, _) \<Rightarrow> None
         | (Some n, ns') \<Rightarrow>
             (case wrap n req w of
                (r, w') \<Rightarrow>
                  Some (r, (ns', pin_finish H (len ns') pin (result_status r) pin, w')))))"

subsection \<open>The interface\<close>

locale node_list =
  fixes ok :: "'s \<Rightarrow> bool"
    and len :: "'s \<Rightarrow> nat"
    and get :: "nat \<Rightarrow> 's \<Rightarrow> 'a option \<times> 's"
    and members :: "'s \<Rightarrow> 'a multiset"
  assumes size_law: "ok s \<Longrightarrow> size (members s) = len s"
    and get_law: "ok s \<Longrightarrow> i < len s \<Longrightarrow>
      \<exists>x s'. get i s = (Some x, s') \<and> ok s' \<and> members s' = members s \<and> x \<in># members s"
begin

lemma pin_call_total:
  assumes "ok s" "pin < len s"
  shows "\<exists>n r s' pin' w'. pin_call H len get wrap req (s, pin, w) = Some (r, (s', pin', w')) \<and>
           n \<in># members s \<and> wrap n req w = (r, w') \<and> ok s' \<and> members s' = members s \<and>
           pin' < len s' \<and> pin' = (if increment_host H (result_status r) then (pin + 1) mod len s else pin)"
proof -
  obtain n s' where g: "get pin s = (Some n, s')" "ok s'" "members s' = members s" "n \<in># members s"
    using get_law [OF assms] by blast
  then have l: "len s' = len s" using size_law assms(1) by metis
  obtain r w' where "wrap n req w = (r, w')" by fastforce
  with g l assms(2) show ?thesis
    by (auto simp: pin_call_def pin_finish_def Let_def)
qed

end

definition shuffle_ok :: "('a list \<Rightarrow> 'a list) \<Rightarrow> bool" where
  "shuffle_ok f \<longleftrightarrow> (\<forall>xs. mset (f xs) = mset xs)"

definition reshuffling_ok :: "'a reshuffling_nodes \<Rightarrow> bool" where
  "reshuffling_ok r \<longleftrightarrow> mset (rn_shuffle r) = mset [0..<length (rn_nodes r)]"

interpretation fixed: node_list "\<lambda>_. True" fixed_len fixed_get "\<lambda>f. mset (fx_nodes f)"
  by unfold_locales (auto simp: fixed_len_def fixed_get_def nth_opt_def)

lemma rearranged_indices:
  assumes "mset s = mset [0..<n]"
  shows "length s = n" "\<And>i. i < n \<Longrightarrow> s ! i < n"
proof -
  show l: "length s = n" using mset_eq_length [OF assms] by simp
  show "s ! i < n" if "i < n" for i
    using that l mset_eq_setD [OF assms] nth_mem [of i s] by auto
qed

lemma reshuffling_get_ok:
  assumes "shuffle_ok f" "reshuffling_ok r" "i < reshuffling_len r"
  shows "\<exists>x r'. reshuffling_get f now i r = (Some x, r') \<and> reshuffling_ok r' \<and>
           rn_nodes r' = rn_nodes r \<and> x \<in> set (rn_nodes r)"
proof -
  let ?r = "reshuffle_if_necessary f now (rn_next_reshuffle_nanos r) r"
  have n: "rn_nodes ?r = rn_nodes r" by (simp add: reshuffle_if_necessary_def)
  have ok: "reshuffling_ok ?r"
    using assms(1,2) by (simp add: reshuffle_if_necessary_def reshuffling_ok_def shuffle_ok_def)
  then have s: "mset (rn_shuffle ?r) = mset [0..<length (rn_nodes r)]"
    by (simp add: reshuffling_ok_def n)
  from rearranged_indices [OF s] assms(3)
  have "i < length (rn_shuffle ?r)" "rn_shuffle ?r ! i < length (rn_nodes r)"
    by (auto simp: reshuffling_len_def)
  with ok n show ?thesis by (simp add: reshuffling_get_def Let_def nth_opt_def)
qed

lemma node_list_reshuffling:
  assumes "shuffle_ok f"
  shows "node_list reshuffling_ok reshuffling_len (reshuffling_get f now) (\<lambda>r. mset (rn_nodes r))"
proof (unfold_locales, goal_cases)
  case (2 s i)
  with reshuffling_get_ok [OF assms, of s i now] show ?case by auto
qed (simp add: reshuffling_len_def)

lemma shuffle_ok_rev: "shuffle_ok rev"
  by (simp add: shuffle_ok_def)

interpretation reversing: node_list reshuffling_ok reshuffling_len "reshuffling_get rev now"
  "\<lambda>r. mset (rn_nodes r)"
  by (rule node_list_reshuffling [OF shuffle_ok_rev])

lemma reshuffling_new_ok: "shuffle_ok f \<Longrightarrow> reshuffling_ok (reshuffling_new f jitter ns)"
  by (simp add: reshuffling_ok_def reshuffling_new_def shuffle_ok_def Let_def)

subsection \<open>Properties\<close>

text \<open>The pinning selector never indexes out of range, however often and however the nodes are
  reshuffled: each call goes to one of the configured nodes, the set of nodes stays the same, and
  the pin moves to the next position exactly when the node answered with a 5xx or failed.\<close>

theorem pin_until_error_call:
  assumes "shuffle_ok f" "reshuffling_ok s" "pin < reshuffling_len s"
  shows "\<exists>n r s' pin' w'.
    pin_call H reshuffling_len (reshuffling_get f now) wrap req (s, pin, w) = Some (r, (s', pin', w')) \<and>
    n \<in> set (rn_nodes s) \<and> wrap n req w = (r, w') \<and> reshuffling_ok s' \<and>
    mset (rn_nodes s') = mset (rn_nodes s) \<and> pin' < reshuffling_len s' \<and>
    pin' = (if increment_host H (result_status r) then (pin + 1) mod reshuffling_len s else pin)"
  using node_list.pin_call_total
    [OF node_list_reshuffling [OF assms(1), of now] assms(2,3), of H wrap req w]
  by (simp only: set_mset_mset)

theorem pin_until_error_call_witness:
  "\<exists>s' w'. pin_call std_http reshuffling_len (reshuffling_get rev 0)
     (\<lambda>n req (w :: nat). (Inr \<lparr>rs_status = 503, rs_headers = (), rs_body = n\<rparr> :: unit + (unit, nat) response, w))
     () (reshuffling_new rev 0 [10, 20, 30], 2, 0) =
   Some (Inr \<lparr>rs_status = 503, rs_headers = (), rs_body = 10\<rparr>, (s', 0, w'))"
proof -
  let ?s = "reshuffling_new rev 0 [10, 20, 30 :: nat]"
  let ?w = "\<lambda>n req (w :: nat). (Inr \<lparr>rs_status = 503, rs_headers = (), rs_body = n\<rparr> ::
      unit + (unit, nat) response, w)"
  have "2 < reshuffling_len ?s" by (simp add: reshuffling_len_def reshuffling_new_def Let_def)
  from pin_until_error_call [OF shuffle_ok_rev reshuffling_new_ok [OF shuffle_ok_rev] this,
      of std_http 0 ?w "()" 0]
  obtain n s' pin' w' where *: "pin_call std_http reshuffling_len (reshuffling_get rev 0) ?w () (?s, 2, 0) =
      Some (Inr \<lparr>rs_status = 503, rs_headers = (), rs_body = n\<rparr>, (s', pin', w'))"
    and pin': "pin' = 0"
    by (auto simp: increment_host_def result_status_def std_http_def reshuffling_len_def
        reshuffling_new_def Let_def)
  have "fst (reshuffling_get rev 0 2 ?s) = Some 10"
    by (simp add: reshuffling_get_def reshuffling_new_def reshuffle_if_necessary_def Let_def
        nth_opt_def RESHUFFLE_EVERY_def from_secs_def upt_rec)
  with * have "n = 10" by (auto simp: pin_call_def split: prod.splits option.splits)
  with * pin' show ?thesis by blast
qed

lemma pin_finish_moved:
  "current \<noteq> pin \<Longrightarrow> pin_finish H len pin r current = current"
  by (simp add: pin_finish_def Let_def)

text \<open>A burst of failures rotates the pin only once: when any number of requests that were sent
  to the same node finish in any order, the pin ends on the next node if one of them failed and
  stays otherwise.\<close>

theorem pin_rotates_once_per_burst:
  fixes rs :: "('e + status) list"
  assumes "1 < len" "pin < len"
  shows "foldl (\<lambda>cur r. pin_finish H len pin r cur) pin rs =
         (if \<exists>r \<in> set rs. increment_host H r then (pin + 1) mod len else pin)"
proof -
  let ?next = "(pin + 1) mod len"
  have ne: "?next \<noteq> pin"
  proof (cases "pin + 1 = len")
    case True
    then have "?next = 0" by simp
    with assms True show ?thesis by (cases pin) auto
  qed (use assms in simp)
  have moved: "foldl (\<lambda>cur r. pin_finish H len pin r cur) ?next rs = ?next"
    for rs :: "('e + status) list"
    using ne by (induction rs) (simp_all add: pin_finish_moved)
  show ?thesis
  proof (induction rs)
    case (Cons r rs)
    have "pin_finish H len pin r pin = (if increment_host H r then ?next else pin)"
      by (simp add: pin_finish_def)
    with Cons moved show ?case by simp
  qed simp
qed

theorem pin_rotates_once_per_burst_witness:
  "foldl (\<lambda>cur r. pin_finish std_http 3 2 r cur) 2 [Inr 200, Inl (), Inr 503, Inl ()] = 0"
  using pin_rotates_once_per_burst [of 3 2 std_http "[Inr 200, Inl (), Inr 503, Inl ()]"]
  by (simp add: increment_host_def std_http_def)

subsection \<open>Failing over\<close>



definition failures :: "http_api \<Rightarrow> ('e + ('h, 'b) response) list \<Rightarrow> nat" where
  "failures H rs = length (filter (\<lambda>r. increment_host H (result_status r)) rs)"

lemma failures_simps [simp]:
  "failures H [] = 0"
  "failures H (r # rs) = (if increment_host H (result_status r) then 1 else 0) + failures H rs"
  by (simp_all add: failures_def)








end
