(* ===== verification/Selector.thy ===== *)
theory Selector
  imports PinUntilError BalancedSelector
begin

text \<open>
  \<^verbatim>\<open>service/node/selector/mod.rs\<close>: the selector a builder asks for, with the selectors for no node and
  for one node (\<^verbatim>\<open>empty.rs\<close>, \<^verbatim>\<open>single.rs\<close>), and the dispatch of a call. \<open>wrap\<close> is the call of one node, and
  \<open>pick\<close> the position of the node the balanced selector's acquisition yields. Building the nodes also yields
  the gauges of their limiters and the registry of host metrics.
\<close>

datatype node_selector =
    EmptySelector string
  | SingleSelector limited_node
  | PinSelector "limited_node reshuffling_nodes" nat
  | PinFixedSelector "limited_node fixed_nodes" nat
  | BalancedNodeSelector "tracked_node list"

fun nodes_new ::
  "url_api \<Rightarrow> builder \<Rightarrow> duration \<Rightarrow> nat \<Rightarrow> url list \<Rightarrow> registry option \<Rightarrow>
   node_fault + (limited_node list \<times> (string \<times> string \<times> string) list \<times> registry option)" where
  "nodes_new U b now i [] reg = Inr ([], [], reg)"
| "nodes_new U b now i (u # us) reg =
     and_then
       (limited_node_new U (case cc_override_host_index (cached b) of Some k \<Rightarrow> k | None \<Rightarrow> of_nat i) u
          (cc_service (cached b)) b now reg)
       (\<lambda>(n, gauges, reg').
          and_then (nodes_new U b now (Suc i) us reg') (\<lambda>(ns, more, reg''). Inr (n # ns, gauges @ more, reg'')))"

definition node_selector_new ::
  "url_api \<Rightarrow> (nat list \<Rightarrow> nat list) \<Rightarrow> (limited_node list \<Rightarrow> limited_node list) \<Rightarrow> duration \<Rightarrow>
   builder \<Rightarrow> duration \<Rightarrow> registry option \<Rightarrow>
   node_fault + (node_selector \<times> (string \<times> string \<times> string) list \<times> registry option)" where
  "node_selector_new U shuffle shuffle_nodes jitter b now reg =
     and_then (nodes_new U b now 0 (cc_uris (cached b)) reg) (\<lambda>(nodes, gauges, reg').
       Inr (if nodes = [] then EmptySelector (cc_service (cached b))
            else if length nodes = 1 then SingleSelector (last nodes)
            else
              (case cc_node_selection_strategy (cached b) of
                 PinUntilError \<Rightarrow> PinSelector (reshuffling_new shuffle jitter nodes) 0
               | PinUntilErrorWithoutReshuffle \<Rightarrow> PinFixedSelector (fixed_new shuffle_nodes nodes) 0
               | Balanced \<Rightarrow> BalancedNodeSelector (map tracked_new nodes)),
            gauges, reg'))"

definition empty_call :: "'e error_api \<Rightarrow> string \<Rightarrow> 'e + 'r" where
  "empty_call E service =
     Inl (with_safe_param E (internal_safe E (Foreign ''service configured with no URIs'' None)) ''service'' service)"

definition single_call ::
  "(limited_node \<Rightarrow> 'req \<Rightarrow> 'w \<Rightarrow> ('e + 'r) \<times> 'w) \<Rightarrow> limited_node \<Rightarrow> 'req \<Rightarrow> 'w \<Rightarrow> ('e + 'r) \<times> 'w" where
  "single_call wrap n req w = wrap n req w"

definition balanced_at ::
  "http_api \<Rightarrow> f64_math \<Rightarrow> ('w \<Rightarrow> u64) \<Rightarrow> (limited_node \<Rightarrow> 'req \<Rightarrow> 'w \<Rightarrow> ('e + ('h, 'b) response) \<times> 'w) \<Rightarrow>
   nat \<Rightarrow> tracked_node list \<Rightarrow> 'req \<Rightarrow> 'w \<Rightarrow>
   (('e + ('h, 'b) response) \<times> tracked_node list \<times> 'w) option" where
  "balanced_at H M clock wrap i ts req w =
     (if i < length ts then
        (case balanced_call H M clock (\<lambda>n w. case wrap n req w of (r, w') \<Rightarrow> (r, n, w')) (ts ! i) w of
           Inl _ \<Rightarrow> None
         | Inr (r, t, w') \<Rightarrow> Some (r, ts[i := t], w'))
      else None)"

definition selector_call ::
  "http_api \<Rightarrow> 'e error_api \<Rightarrow> f64_math \<Rightarrow> (nat list \<Rightarrow> nat list) \<Rightarrow> duration \<Rightarrow> ('w \<Rightarrow> u64) \<Rightarrow> nat \<Rightarrow>
   (limited_node \<Rightarrow> 'req \<Rightarrow> 'w \<Rightarrow> ('e + ('h, 'b) response) \<times> 'w) \<Rightarrow> node_selector \<Rightarrow> 'req \<Rightarrow> 'w \<Rightarrow>
   (('e + ('h, 'b) response) \<times> node_selector \<times> 'w) option" where
  "selector_call H E M shuffle now clock pick wrap sel req w =
     (case sel of
        EmptySelector s \<Rightarrow> Some (empty_call E s, sel, w)
      | SingleSelector n \<Rightarrow> (case single_call wrap n req w of (r, w') \<Rightarrow> Some (r, sel, w'))
      | PinSelector ns pin \<Rightarrow>
          map_option (\<lambda>(r, ns', pin', w'). (r, PinSelector ns' pin', w'))
            (pin_call H reshuffling_len (reshuffling_get shuffle now) wrap req (ns, pin, w))
      | PinFixedSelector ns pin \<Rightarrow>
          map_option (\<lambda>(r, ns', pin', w'). (r, PinFixedSelector ns' pin', w'))
            (pin_call H fixed_len fixed_get wrap req (ns, pin, w))
      | BalancedNodeSelector ts \<Rightarrow>
          map_option (\<lambda>(r, ts', w'). (r, BalancedNodeSelector ts', w')) (balanced_at H M clock wrap pick ts req w))"

subsection \<open>Every call goes to a configured node\<close>

fun selector_nodes :: "node_selector \<Rightarrow> limited_node list" where
  "selector_nodes (EmptySelector _) = []"
| "selector_nodes (SingleSelector n) = [n]"
| "selector_nodes (PinSelector ns _) = rn_nodes ns"
| "selector_nodes (PinFixedSelector ns _) = fx_nodes ns"
| "selector_nodes (BalancedNodeSelector ts) = map tn_node ts"

fun selector_ok :: "node_selector \<Rightarrow> bool" where
  "selector_ok (EmptySelector _) \<longleftrightarrow> True"
| "selector_ok (SingleSelector _) \<longleftrightarrow> True"
| "selector_ok (PinSelector ns pin) \<longleftrightarrow> reshuffling_ok ns \<and> pin < reshuffling_len ns"
| "selector_ok (PinFixedSelector ns pin) \<longleftrightarrow> pin < fixed_len ns"
| "selector_ok (BalancedNodeSelector ts) \<longleftrightarrow> ts \<noteq> []"

lemma nodes_new_urls:
  "nodes_new U b now i us reg = Inr (ns, gs, reg') \<Longrightarrow> map (\<lambda>n. node_url (ln_node n)) ns = us"
proof (induction us arbitrary: i reg ns gs reg')
  case (Cons u us)
  then show ?case by (fastforce simp: and_then_Inr_iff limited_node_new_def Let_def)
qed simp

lemma record_failure_node: "record_failure H M now r t = Inr t' \<Longrightarrow> tn_node t' = tn_node t"
  by (auto simp: record_failure_def Let_def and_then_Inr_iff split: sum.splits if_splits)

lemma balanced_at_Some:
  assumes "balanced_at H M clock wrap i ts req w = Some (r, ts', w')"
  shows "i < length ts \<and> wrap (tn_node (ts ! i)) req w = (r, w') \<and> map tn_node ts' = map tn_node ts"
proof -
  let ?wrap = "\<lambda>n w. case wrap n req w of (r, w') \<Rightarrow> (r, n, w')"
  obtain t where t: "i < length ts" "balanced_call H M clock ?wrap (ts ! i) w = Inr (r, t, w')" "ts' = ts[i := t]"
    using assms by (auto simp: balanced_at_def split: if_splits sum.splits)
  have "wrap (tn_node (ts ! i)) req w = (r, w') \<and> tn_node t = tn_node (ts ! i)"
    using t(2) by (auto simp: balanced_call_def balanced_enter_def in_flight_guard_drop_def Let_def and_then_Inr_iff
        dest!: record_failure_node split: prod.splits)
  then show ?thesis using t by (simp add: map_update list_update_same_conv)
qed

text \<open>A call uses one of the selector's nodes and keeps them.\<close>

definition call_on ::
  "(limited_node \<Rightarrow> 'req \<Rightarrow> 'w \<Rightarrow> ('e + 'r) \<times> 'w) \<Rightarrow> node_selector \<Rightarrow> 'req \<Rightarrow> 'w \<Rightarrow>
   (('e + 'r) \<times> node_selector \<times> 'w) \<Rightarrow> bool" where
  "call_on wrap sel req w res \<longleftrightarrow>
     (case res of (r, sel', w') \<Rightarrow>
        selector_ok sel' \<and> mset (selector_nodes sel') = mset (selector_nodes sel) \<and>
        (\<exists>n \<in> set (selector_nodes sel). wrap n req w = (r, w')))"

lemma pin_selector_call:
  assumes "shuffle_ok shuffle" "selector_ok (PinSelector ns pin)"
  shows "\<exists>res. selector_call H E M shuffle now clock pick wrap (PinSelector ns pin) req w = Some res \<and>
    call_on wrap (PinSelector ns pin) req w res"
proof -
  from assms(2) have ok: "reshuffling_ok ns" "pin < reshuffling_len ns" by simp_all
  from node_list.pin_call_total [OF node_list_reshuffling [OF assms(1)] ok] obtain n r s' pin' w' where
    "pin_call H reshuffling_len (reshuffling_get shuffle now) wrap req (ns, pin, w) = Some (r, s', pin', w')"
    "n \<in># mset (rn_nodes ns)" "wrap n req w = (r, w')" "reshuffling_ok s'" "mset (rn_nodes s') = mset (rn_nodes ns)"
    "pin' < reshuffling_len s'"
    by metis
  then show ?thesis by (auto simp: selector_call_def call_on_def)
qed

lemma pin_fixed_call:
  assumes "selector_ok (PinFixedSelector ns pin)"
  shows "\<exists>res. selector_call H E M shuffle now clock pick wrap (PinFixedSelector ns pin) req w = Some res \<and>
    call_on wrap (PinFixedSelector ns pin) req w res"
proof -
  from assms have "pin < fixed_len ns" by simp
  from fixed.pin_call_total [OF TrueI this] obtain n r s' pin' w' where
    "pin_call H fixed_len fixed_get wrap req (ns, pin, w) = Some (r, s', pin', w')"
    "n \<in># mset (fx_nodes ns)" "wrap n req w = (r, w')" "mset (fx_nodes s') = mset (fx_nodes ns)" "pin' < fixed_len s'"
    by metis
  then show ?thesis by (auto simp: selector_call_def call_on_def)
qed

lemma selector_call_on:
  assumes "shuffle_ok shuffle" "selector_ok sel" "selector_nodes sel \<noteq> []"
    and "selector_call H E M shuffle now clock pick wrap sel req w = Some res"
  shows "call_on wrap sel req w res"
proof (cases sel)
  case (PinSelector ns pin)
  then show ?thesis using pin_selector_call [OF assms(1), of ns pin H E M now clock pick wrap req w] assms(2,4) by fastforce
next
  case (PinFixedSelector ns pin)
  then show ?thesis using pin_fixed_call [of ns pin H E M shuffle now clock pick wrap req w] assms(2,4) by fastforce
next
  case (BalancedNodeSelector ts)
  then obtain r ts' w' where b: "balanced_at H M clock wrap pick ts req w = Some (r, ts', w')"
      "res = (r, BalancedNodeSelector ts', w')"
    using assms(4) by (auto simp: selector_call_def)
  then show ?thesis
    using balanced_at_Some [OF b(1)] BalancedNodeSelector assms(2) by (auto simp: call_on_def dest: map_eq_imp_length_eq)
qed (use assms in \<open>auto simp: selector_call_def single_call_def call_on_def split: prod.splits\<close>)

lemma selector_call_total:
  assumes "shuffle_ok shuffle" "selector_ok sel" "\<And>ts. sel \<noteq> BalancedNodeSelector ts"
  shows "\<exists>res. selector_call H E M shuffle now clock pick wrap sel req w = Some res"
proof (cases sel)
  case (PinSelector ns pin)
  then show ?thesis using pin_selector_call [OF assms(1), of ns pin H E M now clock pick wrap req w] assms(2) by blast
next
  case (PinFixedSelector ns pin)
  then show ?thesis using pin_fixed_call [of ns pin H E M shuffle now clock pick wrap req w] assms(2) by blast
qed (use assms(3) in \<open>auto simp: selector_call_def split: prod.splits\<close>)

lemma selector_call_kind:
  "selector_call H E M shuffle now clock pick wrap sel req w = Some (r, sel', w') \<Longrightarrow>
     sel' = BalancedNodeSelector ts \<Longrightarrow> \<exists>ts. sel = BalancedNodeSelector ts"
  by (cases sel) (auto simp: selector_call_def split: prod.splits)

text \<open>The states of a selector: it starts as the builder asks for, and calls follow at any times.\<close>

inductive selector_reach ::
  "http_api \<Rightarrow> 'e error_api \<Rightarrow> f64_math \<Rightarrow> (nat list \<Rightarrow> nat list) \<Rightarrow>
   (limited_node \<Rightarrow> 'req \<Rightarrow> 'w \<Rightarrow> ('e + ('h, 'b) response) \<times> 'w) \<Rightarrow> node_selector \<Rightarrow> node_selector \<Rightarrow> bool"
  for H E M shuffle wrap sel0 where
  selector_start: "selector_reach H E M shuffle wrap sel0 sel0"
| selector_next: "selector_reach H E M shuffle wrap sel0 sel \<Longrightarrow>
    selector_call H E M shuffle now clock pick wrap sel req w = Some (r, sel', w') \<Longrightarrow>
    selector_reach H E M shuffle wrap sel0 sel'"

lemma selector_reach_ok:
  assumes "selector_reach H E M shuffle wrap sel0 sel" "shuffle_ok shuffle" "selector_ok sel0" "selector_nodes sel0 \<noteq> []"
  shows "selector_ok sel \<and> mset (selector_nodes sel) = mset (selector_nodes sel0)"
  using assms(1)
proof (induction rule: selector_reach.induct)
  case (selector_next sel now clock pick req w r sel' w')
  then have "selector_nodes sel \<noteq> []" using assms(4) by (metis mset_zero_iff)
  from selector_call_on [OF assms(2) _ this selector_next(2)] selector_next(3) show ?case by (auto simp: call_on_def)
qed (simp add: assms(3))

lemma node_selector_new_ok:
  assumes "node_selector_new U shuffle shuffle_nodes jitter b now reg = Inr (sel, gauges, reg')"
    and "shuffle_ok shuffle" "shuffle_ok shuffle_nodes"
  shows "selector_ok sel \<and> mset (map (\<lambda>n. node_url (ln_node n)) (selector_nodes sel)) = mset (cc_uris (cached b))"
proof -
  obtain nodes where n: "nodes_new U b now 0 (cc_uris (cached b)) reg = Inr (nodes, gauges, reg')"
      "sel = (if nodes = [] then EmptySelector (cc_service (cached b))
            else if length nodes = 1 then SingleSelector (last nodes)
            else (case cc_node_selection_strategy (cached b) of
                 PinUntilError \<Rightarrow> PinSelector (reshuffling_new shuffle jitter nodes) 0
               | PinUntilErrorWithoutReshuffle \<Rightarrow> PinFixedSelector (fixed_new shuffle_nodes nodes) 0
               | Balanced \<Rightarrow> BalancedNodeSelector (map tracked_new nodes)))"
    using assms(1) by (auto simp: node_selector_new_def and_then_Inr_iff)
  have s: "mset (shuffle_nodes nodes) = mset nodes" using assms(3) by (simp add: shuffle_ok_def)
  have one: "length nodes = 1 \<Longrightarrow> [last nodes] = nodes" by (cases nodes) auto
  have r: "rn_nodes (reshuffling_new shuffle jitter nodes) = nodes" by (simp add: reshuffling_new_def Let_def)
  have "mset (selector_nodes sel) = mset nodes"
    using s one r unfolding n(2) by (auto simp: fixed_new_def tracked_new_def comp_def split: node_selection_strategy.splits)
  then have "image_mset (\<lambda>n. node_url (ln_node n)) (mset (selector_nodes sel)) = mset (cc_uris (cached b))"
    using nodes_new_urls [OF n(1)] by (metis mset_map)
  moreover have "selector_ok sel"
    using reshuffling_new_ok [OF assms(2), of jitter nodes] r mset_eq_length [OF s] unfolding n(2)
    by (auto simp: reshuffling_len_def fixed_len_def fixed_new_def split: node_selection_strategy.splits)
  ultimately show ?thesis by simp
qed

text \<open>C22: Node selection never leaves the configured URIs. Whatever the strategy, the selector built from a
  builder has one node per configured URI and keeps them through any sequence of calls; a call that
  completes was made on exactly one of these nodes, with its result; with no URI configured every call
  fails with an internal error and no node is asked; and unless the strategy is the balanced one, whose
  bookkeeping may panic, every call completes.\<close>

theorem selector_uses_configured_nodes:
  fixes E :: "'e error_api" and wrap :: "limited_node \<Rightarrow> 'req \<Rightarrow> 'w \<Rightarrow> ('e + ('h, 'b) response) \<times> 'w"
    and now :: duration and clock :: "'w \<Rightarrow> u64" and pick :: nat and req :: 'req and w :: 'w
  assumes "node_selector_new U shuffle shuffle_nodes jitter b now0 reg = Inr (sel0, gauges, reg')"
    and sh: "shuffle_ok shuffle" "shuffle_ok shuffle_nodes"
    and "selector_reach H E M shuffle wrap sel0 sel" "error_ok E"
  defines "result \<equiv> selector_call H E M shuffle now clock pick wrap sel req w"
  shows "if cc_uris (cached b) = []
    then \<exists>e. result = Some (Inl e, sel, w) \<and> is_service (kind E e)
    else (\<forall>r sel' w'. result = Some (r, sel', w') \<longrightarrow>
        (\<exists>n. node_url (ln_node n) \<in> set (cc_uris (cached b)) \<and> wrap n req w = (r, w'))) \<and>
      mset (map (\<lambda>n. node_url (ln_node n)) (selector_nodes sel)) = mset (cc_uris (cached b)) \<and>
      ((\<forall>ts. sel \<noteq> BalancedNodeSelector ts) \<longrightarrow> result \<noteq> None)"
proof -
  note new = node_selector_new_ok [OF assms(1) sh]
  have call: "sel = EmptySelector s \<Longrightarrow> result = Some (empty_call E s, sel, w)" for s
    by (simp add: result_def selector_call_def)
  show ?thesis
  proof (cases "cc_uris (cached b) = []")
    case True
    then have "\<exists>s. sel0 = EmptySelector s" using assms(1) by (auto simp: node_selector_new_def)
    with assms(4) have "\<exists>s. sel = EmptySelector s"
      by (induction rule: selector_reach.induct) (auto simp: selector_call_def)
    with call True show ?thesis using assms(5) by (auto simp: empty_call_def error_laws)
  next
    case False
    then have n0: "selector_nodes sel0 \<noteq> []" using new by auto
    note ok = selector_reach_ok [OF assms(4) sh(1) conjunct1 [OF new] n0]
    have urls: "mset (map (\<lambda>n. node_url (ln_node n)) (selector_nodes sel)) = mset (cc_uris (cached b))"
      using ok new by (metis mset_map)
    have n: "selector_nodes sel \<noteq> []" using ok n0 by (metis mset_zero_iff)
    have "\<exists>n. node_url (ln_node n) \<in> set (cc_uris (cached b)) \<and> wrap n req w = (r, w')"
      if "result = Some (r, sel', w')" for r sel' w'
      using selector_call_on [OF sh(1) conjunct1 [OF ok] n that [unfolded result_def]] mset_eq_setD [OF urls]
      by (auto simp: call_on_def)
    moreover have "result \<noteq> None" if "\<forall>ts. sel \<noteq> BalancedNodeSelector ts"
      using selector_call_total [OF sh(1) conjunct1 [OF ok], of H E M now clock pick wrap req w] that
      by (auto simp: result_def)
    ultimately show ?thesis using False urls by simp
  qed
qed

definition two_node_builder :: builder where
  "two_node_builder = b_node_selection_strategy PinUntilErrorWithoutReshuffle
     (b_uris [''http://a'', ''http://b'']
       (builder_new 0 ''svc'' (user_agent_new \<lparr>agent_name = ''app'', agent_version = ''1.0.0''\<rparr>)))"

definition failing_wrap :: "limited_node \<Rightarrow> unit \<Rightarrow> nat list \<Rightarrow> (std_error + (unit, unit) response) \<times> nat list" where
  "failing_wrap n req w = (Inr \<lparr>rs_status = 500, rs_headers = (), rs_body = ()\<rparr>, unat (node_idx (ln_node n)) # w)"

theorem selector_uses_configured_nodes_witness:
  "\<exists>sel0. node_selector_new \<lparr>host_str = (\<lambda>_. None), port_or_known_default = (\<lambda>_. None)\<rparr> rev rev 0
       two_node_builder 0 None = Inr (sel0, [], None) \<and>
     (\<exists>r sel' w'. selector_call std_http std_errors std_math rev 0 (\<lambda>_. 0) 0 failing_wrap sel0 () [] =
        Some (r, sel', w') \<and>
      (\<exists>n. node_url (ln_node n) \<in> {''http://a'', ''http://b''} \<and> failing_wrap n () [] = (r, w')))"
proof -
  let ?U = "\<lparr>host_str = (\<lambda>_. None), port_or_known_default = (\<lambda>_. None)\<rparr>"
  have uris: "cc_uris (cached two_node_builder) = [''http://a'', ''http://b'']"
    "cc_node_selection_strategy (cached two_node_builder) = PinUntilErrorWithoutReshuffle"
    "uc_metrics (uncached two_node_builder) = None"
    by (simp_all add: two_node_builder_def b_uris_def b_node_selection_strategy_def with_cached_def builder_new_def)
  obtain sel0 where new: "node_selector_new ?U rev rev 0 two_node_builder 0 None = Inr (sel0, [], None)"
      "\<forall>ts. sel0 \<noteq> BalancedNodeSelector ts"
    by (simp add: node_selector_new_def uris limited_node_new_def node_metrics_for_def Let_def)
  from selector_uses_configured_nodes [OF new(1) shuffle_ok_rev shuffle_ok_rev selector_start std_errors_ok,
      where H = std_http and M = std_math and wrap = failing_wrap and now = 0 and clock = "\<lambda>_. 0" and pick = 0
        and req = "()" and w = "[]"] new
  show ?thesis by (auto simp: uris)
qed

end
