(* ===== verification/Proxy.thy ===== *)
theory Proxy
  imports Node
begin

text \<open>
  \<^verbatim>\<open>service/proxy/hyper\<close>: the proxy settings of the builder (\<^verbatim>\<open>mod.rs\<close>), the layer that adds the
  credentials to plain HTTP requests (\<^verbatim>\<open>request.rs\<close>) and the connector that opens a connection to the
  proxy, through a \<^verbatim>\<open>CONNECT\<close> tunnel unless the target is plain HTTP (\<^verbatim>\<open>connector.rs\<close>). Base64, the
  check of a header value and the host and port of a URI are other crates' (\<open>text_api\<close>), and so are
  the sockets and the HTTP/1 connection the tunnel is negotiated on (\<open>net_api\<close>).
\<close>

record text_api =
  tx_base64 :: "string \<Rightarrow> string"
  tx_header_legal :: "string \<Rightarrow> bool"
  tx_host :: "string \<Rightarrow> string option"
  tx_port :: "string \<Rightarrow> u16 option"

record http_proxy =
  xp_uri :: string
  xp_credentials :: "string option"

datatype proxy_setup = ProxyHttp http_proxy | ProxyDirect

definition proxy_uri :: "host_and_port \<Rightarrow> string" where
  "proxy_uri hp = ''http://'' @ hp_host hp @ '':'' @ show_nat (unat (hp_port hp))"

definition basic_auth :: "text_api \<Rightarrow> basic_credentials \<Rightarrow> string" where
  "basic_auth V c = ''Basic '' @ tx_base64 V (username c @ '':'' @ password c)"

definition proxy_from_config ::
  "uri_api \<Rightarrow> text_api \<Rightarrow> 'e error_api \<Rightarrow> proxy_config \<Rightarrow> panic + ('e + proxy_setup)" where
  "proxy_from_config U V E c =
     (case c of
        Direct \<Rightarrow> Inr (Inr ProxyDirect)
      | Http c \<Rightarrow>
          if \<not> uri_parses U (proxy_uri (proxy_host_and_port c))
          then Inr (Inl (internal_safe E (Foreign ''InvalidUri'' None)))
          else
            (case proxy_credentials c of
               None \<Rightarrow>
                 Inr (Inr (ProxyHttp
                   \<lparr>xp_uri = proxy_uri (proxy_host_and_port c), xp_credentials = None\<rparr>))
             | Some cred \<Rightarrow>
                 let header = basic_auth V cred
                 in if tx_header_legal V header
                    then Inr (Inr (ProxyHttp
                      \<lparr>xp_uri = proxy_uri (proxy_host_and_port c), xp_credentials = Some header\<rparr>))
                    else Inl (Unwrap ''credentials'')))"

subsection \<open>Requests\<close>

definition proxy_request ::
  "uri_api \<Rightarrow> 'h header_api \<Rightarrow> proxy_setup \<Rightarrow> ('h, 'b) request \<Rightarrow> ('h, 'b) request" where
  "proxy_request U A p req =
     (case p of
        ProxyHttp x \<Rightarrow>
          if uri_scheme U (rq_uri req) = Some ''http'' then
            (case xp_credentials x of
               Some c \<Rightarrow> req\<lparr>rq_headers := hd_insert A (rq_headers req) ''proxy-authorization'' c\<rparr>
             | None \<Rightarrow> req)
          else req
      | ProxyDirect \<Rightarrow> req)"

definition proxy_call ::
  "uri_api \<Rightarrow> 'h header_api \<Rightarrow> proxy_setup \<Rightarrow> (('h, 'b) request \<Rightarrow> 'r) \<Rightarrow> ('h, 'b) request \<Rightarrow> 'r" where
  "proxy_call U A p inner req = inner (proxy_request U A p req)"

subsection \<open>Connections\<close>

record connect_request =
  cr_method :: string
  cr_uri :: string
  cr_version :: string
  cr_headers :: "string \<rightharpoonup> string"

record ('s, 'c, 'w) net_api =
  nt_connect :: "string \<Rightarrow> 'w \<Rightarrow> (cause + 's) \<times> 'w"
  nt_handshake :: "'s \<Rightarrow> 'w \<Rightarrow> (cause + 'c) \<times> 'w"
  nt_send :: "connect_request \<Rightarrow> 'c \<Rightarrow> 'c"
  nt_drive :: "'c \<Rightarrow> (cause + unit) poll \<times> 'c"
  nt_response :: "'c \<Rightarrow> (cause + status) poll \<times> 'c"
  nt_into_io :: "'c \<Rightarrow> 's"

record 's proxy_connection =
  pc_stream :: 's
  pc_proxy :: bool

definition proxy_connector_new :: "proxy_setup \<Rightarrow> http_proxy option" where
  "proxy_connector_new p = (case p of ProxyHttp x \<Rightarrow> Some x | _ \<Rightarrow> None)"

text \<open>The connection is driven on every poll; only its error ends the wait.\<close>

definition tunnel_poll :: "('s, 'c, 'w) net_api \<Rightarrow> 'c \<Rightarrow> (cause + status) poll \<times> 'c" where
  "tunnel_poll N c =
     (case nt_drive N c of
        (Ready (Inl e), c') \<Rightarrow> (Ready (Inl e), c')
      | (_, c') \<Rightarrow> nt_response N c')"

definition authority_of :: "text_api \<Rightarrow> string \<Rightarrow> string \<Rightarrow> string" where
  "authority_of V target uri = target @ '':'' @ show_nat (case tx_port V uri of Some p \<Rightarrow> unat p | None \<Rightarrow> 443)"

definition connect_request_new :: "string \<Rightarrow> string option \<Rightarrow> connect_request" where
  "connect_request_new authority credentials =
     \<lparr>cr_method = ''CONNECT'', cr_uri = authority, cr_version = ''HTTP/1.1'',
      cr_headers =
        (let h = [''host'' \<mapsto> authority]
         in case credentials of Some c \<Rightarrow> h(''proxy-authorization'' \<mapsto> c) | None \<Rightarrow> h)\<rparr>"

definition proxy_tunnel_error :: "status \<Rightarrow> cause" where
  "proxy_tunnel_error s = Foreign (''got status '' @ show_nat s @ '' from HTTPS proxy'') None"

definition connect_https ::
  "http_api \<Rightarrow> ('s, 'c, 'w) net_api \<Rightarrow> uri_api \<Rightarrow> text_api \<Rightarrow> 's \<Rightarrow> string \<Rightarrow> http_proxy \<Rightarrow> 'w \<Rightarrow>
   ((panic + (cause + 's)) \<times> 'w) option" where
  "connect_https H N U V stream uri config w =
     (case nt_handshake N stream w of
        (Inl e, w') \<Rightarrow> Some (Inr (Inl e), w')
      | (Inr conn, w') \<Rightarrow>
          (case tx_host V uri of
             None \<Rightarrow> Some (Inr (Inl (Foreign ''host missing from URI'' None)), w')
           | Some target \<Rightarrow>
               let authority = authority_of V target uri
               in if \<not> uri_parses U authority then Some (Inl (Unwrap ''authority''), w')
                  else if \<not> tx_header_legal V authority then Some (Inl (Unwrap ''host''), w')
                  else
                    (case await (tunnel_poll N)
                            (nt_send N (connect_request_new authority (xp_credentials config)) conn) of
                       None \<Rightarrow> None
                     | Some (Inl e, conn') \<Rightarrow> Some (Inr (Inl e), w')
                     | Some (Inr status, conn') \<Rightarrow>
                         if \<not> is_success H status then Some (Inr (Inl (proxy_tunnel_error status)), w')
                         else Some (Inr (Inr (nt_into_io N conn')), w'))))"

definition proxy_connect ::
  "http_api \<Rightarrow> ('s, 'c, 'w) net_api \<Rightarrow> uri_api \<Rightarrow> text_api \<Rightarrow> http_proxy option \<Rightarrow> string \<Rightarrow> 'w \<Rightarrow>
   ((panic + (cause + 's proxy_connection)) \<times> 'w) option" where
  "proxy_connect H N U V config uri w =
     (case config of
        None \<Rightarrow>
          (case nt_connect N uri w of
             (Inl e, w') \<Rightarrow> Some (Inr (Inl e), w')
           | (Inr s, w') \<Rightarrow> Some (Inr (Inr \<lparr>pc_stream = s, pc_proxy = False\<rparr>), w'))
      | Some x \<Rightarrow>
          (case nt_connect N (xp_uri x) w of
             (Inl e, w') \<Rightarrow> Some (Inr (Inl e), w')
           | (Inr s, w') \<Rightarrow>
               if uri_scheme U uri = Some ''http''
               then Some (Inr (Inr \<lparr>pc_stream = s, pc_proxy = True\<rparr>), w')
               else
                 (case connect_https H N U V s uri x w' of
                    None \<Rightarrow> None
                  | Some (Inl p, w'') \<Rightarrow> Some (Inl p, w'')
                  | Some (Inr (Inl e), w'') \<Rightarrow> Some (Inr (Inl e), w'')
                  | Some (Inr (Inr s'), w'') \<Rightarrow>
                      Some (Inr (Inr \<lparr>pc_stream = s', pc_proxy = False\<rparr>), w''))))"

text \<open>Reading, writing, flushing and shutting down go to the stream.\<close>

definition pc_forward :: "('s \<Rightarrow> 'r \<times> 's) \<Rightarrow> 's proxy_connection \<Rightarrow> 'r \<times> 's proxy_connection" where
  "pc_forward poll c = (case poll (pc_stream c) of (r, s) \<Rightarrow> (r, c\<lparr>pc_stream := s\<rparr>))"

definition pc_connected :: "('s \<Rightarrow> 'i) \<Rightarrow> (bool \<Rightarrow> 'i \<Rightarrow> 'i) \<Rightarrow> 's proxy_connection \<Rightarrow> 'i" where
  "pc_connected info set_proxy c = set_proxy (pc_proxy c) (info (pc_stream c))"

subsection \<open>Where the credentials go\<close>

text \<open>The connections that polling the negotiation leads to.\<close>

inductive driven :: "('s, 'c, 'w) net_api \<Rightarrow> 'c \<Rightarrow> 'c \<Rightarrow> bool" for N where
  driven_refl: "driven N c c"
| driven_drive: "driven N c c' \<Longrightarrow> nt_drive N c' = (r, c'') \<Longrightarrow> driven N c c''"
| driven_response: "driven N c c' \<Longrightarrow> nt_response N c' = (r, c'') \<Longrightarrow> driven N c c''"

lemma tunnel_poll_driven:
  assumes "driven N c0 c" "tunnel_poll N c = (r, c')"
  shows "driven N c0 c'"
  using assms by (auto simp: tunnel_poll_def intro: driven.intros split: prod.splits poll.splits sum.splits)

text \<open>A status that ends the negotiation is one the proxy sent.\<close>

definition answered :: "('s, 'c, 'w) net_api \<Rightarrow> 'c \<Rightarrow> status \<Rightarrow> 'c \<Rightarrow> bool" where
  "answered N c0 status c \<longleftrightarrow> driven N c0 c \<and> (\<exists>c1. driven N c0 c1 \<and> nt_response N c1 = (Ready (Inr status), c))"

lemma tunnel_poll_answer:
  assumes "driven N c0 c" "tunnel_poll N c = (Ready (Inr status), c')"
  shows "answered N c0 status c'"
  using assms tunnel_poll_driven [OF assms] unfolding answered_def
  by (auto simp: tunnel_poll_def intro: driven_drive split: prod.splits poll.splits sum.splits)

lemma await_tunnel:
  assumes "await (tunnel_poll N) c0 = Some (Inr status, c)"
  shows "answered N c0 status c"
proof -
  have "case (Inr status :: cause + status) of Inl _ \<Rightarrow> True | Inr s \<Rightarrow> answered N c0 s c"
    by (rule await_invariant [where I = "driven N c0"
        and Q = "\<lambda>r c. case r of Inl _ \<Rightarrow> True | Inr s \<Rightarrow> answered N c0 s c", OF assms])
      (auto intro: driven_refl tunnel_poll_driven tunnel_poll_answer split: sum.splits)
  then show ?thesis by simp
qed

lemma show_nat_443: "show_nat 443 = ''443''"
  by (simp add: show_nat.simps [of 443] show_nat.simps [of 44] show_nat.simps [of 4] digit_def char_of_def bit_Suc bit_0)

lemma connect_https_stream:
  assumes "connect_https H N U V s uri x w = Some (Inr (Inr s'), w')"
  shows "\<exists>conn target status conn'. nt_handshake N s w = (Inr conn, w') \<and> tx_host V uri = Some target \<and>
    answered N (nt_send N (connect_request_new (authority_of V target uri) (xp_credentials x)) conn) status conn' \<and>
    is_success H status \<and> s' = nt_into_io N conn'"
  using assms
  by (auto simp: connect_https_def Let_def dest!: await_tunnel
      split: prod.splits sum.splits option.splits if_splits)

lemma connect_request_credentials [simp]:
  "cr_headers (connect_request_new a c) ''proxy-authorization'' = c"
  "cr_headers (connect_request_new a c) ''host'' = Some a" "cr_uri (connect_request_new a c) = a"
  by (cases c; simp add: connect_request_new_def Let_def)+

lemma from_config_credentials:
  assumes "proxy_from_config U V E (Http c) = Inr (Inr p)"
  shows "p = ProxyHttp \<lparr>xp_uri = proxy_uri (proxy_host_and_port c),
    xp_credentials = map_option (basic_auth V) (proxy_credentials c)\<rparr>"
  using assms by (auto simp: proxy_from_config_def Let_def split: if_splits option.splits)

lemma connect_request_eq:
  "connect_request_new a c =
     \<lparr>cr_method = ''CONNECT'', cr_uri = a, cr_version = ''HTTP/1.1'',
      cr_headers = [''host'' \<mapsto> a](''proxy-authorization'' := c)\<rparr>"
  by (cases c) (auto simp: connect_request_new_def Let_def fun_eq_iff)

lemma proxy_request_http:
  assumes "header_ok A" "uri_scheme U (rq_uri req) = Some ''http''"
  shows "proxy_request U A (ProxyHttp x) req = req\<lparr>rq_headers := rq_headers (proxy_request U A (ProxyHttp x) req)\<rparr>"
    "hd_get A (rq_headers (proxy_request U A (ProxyHttp x) req)) k =
       (if k = ''proxy-authorization'' \<and> xp_credentials x \<noteq> None then xp_credentials x else hd_get A (rq_headers req) k)"
  using assms(2) header_okD(1,2) [OF assms(1)]
  by (cases "k = ''proxy-authorization''"; cases "xp_credentials x"; simp add: proxy_request_def)+

text \<open>C27: The credentials of the proxy travel to the proxy and to nobody else. With an HTTP proxy
  configured, every connection that is handed on was opened to the proxy's own host and port over plain HTTP. For
  a plain HTTP target the request carries the credentials, Basic authentication with the configured
  user and password, and no other change, and the connection is marked as proxied, with nothing negotiated on
  it. For any other target the request is left alone, so that the server never sees them; the stream
  handed on is one on which the proxy was sent the single request \<^verbatim>\<open>CONNECT\<close> for the target's host and its
  port, or 443 when it names none, with that authority as \<^verbatim>\<open>Host\<close> and the credentials as the only other
  header, and it answered with a success.\<close>

theorem proxy_credentials_confined:
  assumes "proxy_from_config U V E (Http c) = Inr (Inr p)" "header_ok A"
    and "proxy_connect H N U V (proxy_connector_new p) (rq_uri req) w = Some (Inr (Inr pc), w')"
  defines "credentials \<equiv> map_option (\<lambda>u. ''Basic '' @ tx_base64 V (username u @ '':'' @ password u)) (proxy_credentials c)"
    and "req' \<equiv> proxy_request U A p req"
  shows "\<exists>s w1. nt_connect N (''http://'' @ hp_host (proxy_host_and_port c) @ '':'' @
        show_nat (unat (hp_port (proxy_host_and_port c)))) w = (Inr s, w1) \<and>
    (if uri_scheme U (rq_uri req) = Some ''http''
     then pc = \<lparr>pc_stream = s, pc_proxy = True\<rparr> \<and> w' = w1 \<and> req' = req\<lparr>rq_headers := rq_headers req'\<rparr> \<and>
       (\<forall>k. hd_get A (rq_headers req') k =
          (if k = ''proxy-authorization'' \<and> credentials \<noteq> None then credentials else hd_get A (rq_headers req) k))
     else req' = req \<and> pc_proxy pc = False \<and>
       (\<exists>conn target authority status conn'. nt_handshake N s w1 = (Inr conn, w') \<and>
          tx_host V (rq_uri req) = Some target \<and>
          authority = target @ '':'' @ (case tx_port V (rq_uri req) of Some n \<Rightarrow> show_nat (unat n) | None \<Rightarrow> ''443'') \<and>
          answered N (nt_send N \<lparr>cr_method = ''CONNECT'', cr_uri = authority, cr_version = ''HTTP/1.1'',
            cr_headers = [''host'' \<mapsto> authority](''proxy-authorization'' := credentials)\<rparr> conn) status conn' \<and>
          is_success H status \<and> pc_stream pc = nt_into_io N conn'))"
proof -
  let ?x = "\<lparr>xp_uri = proxy_uri (proxy_host_and_port c), xp_credentials = credentials\<rparr>"
  have p: "p = ProxyHttp ?x"
    using from_config_credentials [OF assms(1)] by (simp add: credentials_def basic_auth_def [abs_def])
  obtain s w1 where s: "nt_connect N (proxy_uri (proxy_host_and_port c)) w = (Inr s, w1)"
    using assms(3) p by (auto simp: proxy_connect_def proxy_connector_new_def split: prod.splits sum.splits)
  then have uri: "nt_connect N (''http://'' @ hp_host (proxy_host_and_port c) @ '':'' @
      show_nat (unat (hp_port (proxy_host_and_port c)))) w = (Inr s, w1)" by (simp add: proxy_uri_def)
  show ?thesis
  proof (cases "uri_scheme U (rq_uri req) = Some ''http''")
    case True
    have "pc = \<lparr>pc_stream = s, pc_proxy = True\<rparr> \<and> w' = w1"
      using assms(3) p s True by (auto simp: proxy_connect_def proxy_connector_new_def)
    then show ?thesis
      using uri True proxy_request_http [OF assms(2) True, of ?x] unfolding req'_def p by auto
  next
    case False
    then obtain s' where t: "connect_https H N U V s (rq_uri req) ?x w1 = Some (Inr (Inr s'), w')"
        "pc = \<lparr>pc_stream = s', pc_proxy = False\<rparr>"
      using assms(3) p s
      by (auto simp: proxy_connect_def proxy_connector_new_def split: prod.splits sum.splits option.splits)
    from connect_https_stream [OF t(1)] obtain conn target status conn' where
      n: "nt_handshake N s w1 = (Inr conn, w')" "tx_host V (rq_uri req) = Some target"
        "answered N (nt_send N (connect_request_new (authority_of V target (rq_uri req)) credentials) conn) status conn'"
        "is_success H status" "s' = nt_into_io N conn'"
      by auto
    moreover have "authority_of V target (rq_uri req) =
        target @ '':'' @ (case tx_port V (rq_uri req) of Some n \<Rightarrow> show_nat (unat n) | None \<Rightarrow> ''443'')"
      by (simp add: authority_of_def show_nat_443 split: option.splits)
    moreover have "req' = req" using False p by (simp add: req'_def proxy_request_def)
    ultimately show ?thesis using False uri t(2) unfolding connect_request_eq
      by (intro exI [of _ s] exI [of _ w1] exI [of _ conn] exI [of _ target] conjI) auto
  qed
qed

text \<open>A proxy at \<^verbatim>\<open>proxy:8080\<close> with credentials, and a network on which it accepts every tunnel.\<close>

definition plain_uri :: uri_api where
  "plain_uri =
     \<lparr>uri_scheme = (\<lambda>u. if take 7 u = ''http://'' then Some ''http''
        else if take 8 u = ''https://'' then Some ''https'' else None),
      uri_authority = (\<lambda>_. None), uri_path = (\<lambda>u. u), uri_parses = (\<lambda>u. list_all is_visible u)\<rparr>"

definition plain_text :: text_api where
  "plain_text =
     \<lparr>tx_base64 = (\<lambda>s. s), tx_header_legal = (\<lambda>s. list_all is_visible s),
      tx_host = (\<lambda>u. Some (takeWhile (\<lambda>c. c \<noteq> CHR ''/'') (drop 8 u))), tx_port = (\<lambda>_. None)\<rparr>"

definition log_net :: "(string, string \<times> connect_request list, unit) net_api" where
  "log_net =
     \<lparr>nt_connect = (\<lambda>u w. (Inr u, w)), nt_handshake = (\<lambda>s w. (Inr (s, []), w)),
      nt_send = (\<lambda>r (s, l). (s, l @ [r])), nt_drive = (\<lambda>c. (Pending, c)),
      nt_response = (\<lambda>c. (Ready (Inr 200), c)), nt_into_io = fst\<rparr>"

definition demo_proxy :: http_proxy_config where
  "demo_proxy =
     \<lparr>proxy_host_and_port = \<lparr>hp_host = ''proxy'', hp_port = 8080\<rparr>,
      proxy_credentials = Some \<lparr>username = ''me'', password = ''pw''\<rparr>\<rparr>"

lemma demo_port: "show_nat 8080 = ''8080''"
  by (simp add: show_nat.simps [of 8080] show_nat.simps [of 808] show_nat.simps [of 80] show_nat.simps [of 8]
      digit_def char_of_def bit_Suc bit_0)

lemmas demo_simps = demo_port show_nat_443 demo_proxy_def plain_uri_def plain_text_def proxy_uri_def basic_auth_def
  authority_of_def is_visible_def

lemma demo_proxy_setup:
  "proxy_from_config plain_uri plain_text std_errors (Http demo_proxy) =
   Inr (Inr (ProxyHttp \<lparr>xp_uri = ''http://proxy:8080'', xp_credentials = Some ''Basic me:pw''\<rparr>))"
  by (simp add: proxy_from_config_def Let_def demo_simps)

theorem proxy_credentials_confined_witness:
  "\<exists>status conn'. answered log_net (''http://proxy:8080'', [\<lparr>cr_method = ''CONNECT'', cr_uri = ''a.b:443'',
       cr_version = ''HTTP/1.1'',
       cr_headers = [''host'' \<mapsto> ''a.b:443'', ''proxy-authorization'' \<mapsto> ''Basic me:pw'']\<rparr>]) status conn' \<and>
     is_success std_http status"
proof -
  let ?req = "\<lparr>rq_method = ''GET'', rq_uri = ''https://a.b/c'', rq_headers = Map.empty, rq_endpoint = None,
    rq_node = None, rq_body = ()\<rparr>"
  have x: "uri_scheme plain_uri ''https://a.b/c'' = Some ''https''" "tx_host plain_text ''https://a.b/c'' = Some ''a.b''"
    "authority_of plain_text ''a.b'' ''https://a.b/c'' = ''a.b:443''" "proxy_uri (proxy_host_and_port demo_proxy) = ''http://proxy:8080''"
    "uri_parses plain_uri ''a.b:443''" "tx_header_legal plain_text ''a.b:443''"
    "tx_port plain_text u = None" "proxy_credentials demo_proxy = Some \<lparr>username = ''me'', password = ''pw''\<rparr>"
    "tx_base64 plain_text v = v" "proxy_host_and_port demo_proxy = \<lparr>hp_host = ''proxy'', hp_port = 8080\<rparr>" for u v
    by (simp_all add: demo_simps)
  have "await (tunnel_poll log_net) c = Some (Inr 200, c)" for c
    by (subst await.simps) (simp add: tunnel_poll_def log_net_def)
  then have "proxy_connect std_http log_net plain_uri plain_text
      (proxy_connector_new (ProxyHttp \<lparr>xp_uri = ''http://proxy:8080'', xp_credentials = Some ''Basic me:pw''\<rparr>))
      (rq_uri ?req) () = Some (Inr (Inr \<lparr>pc_stream = ''http://proxy:8080'', pc_proxy = False\<rparr>), ())"
    using x by (simp add: proxy_connect_def proxy_connector_new_def connect_https_def Let_def log_net_def std_http_def)
  from proxy_credentials_confined [OF demo_proxy_setup map_headers_ok this] show ?thesis
    using x demo_port by (auto simp: log_net_def)
qed

end
