(* ===== verification/Gzip.thy ===== *)
theory Gzip
  imports Body
begin

text \<open>
  \<^verbatim>\<open>service/gzip/hyper.rs\<close>: responses with \<^verbatim>\<open>Content-Encoding: gzip\<close> are decoded as they are read. The
  decoder is the \<^verbatim>\<open>flate2\<close> crate's: \<open>gz_api\<close> has the operations the source calls, with the input a
  decoder has been fed and the output taken from it so far, and \<open>gz_ok\<close> says that they decode:
  finishing leaves exactly the missing rest of the decoded input in the buffer.
\<close>

record 'd gz_api =
  gz_new :: 'd
  gz_write_all :: "byte list \<Rightarrow> 'd \<Rightarrow> cause + 'd"
  gz_flush :: "'d \<Rightarrow> cause + 'd"
  gz_try_finish :: "'d \<Rightarrow> cause + 'd"
  gz_buf :: "'d \<Rightarrow> byte list"
  gz_split :: "'d \<Rightarrow> 'd"
  gz_fed :: "'d \<Rightarrow> byte list"
  gz_taken :: "'d \<Rightarrow> byte list"

definition gz_ok :: "'d gz_api \<Rightarrow> (byte list \<Rightarrow> byte list) \<Rightarrow> bool" where
  "gz_ok G gunzip \<longleftrightarrow>
     gz_fed G (gz_new G) = [] \<and> gz_taken G (gz_new G) = [] \<and>
     (\<forall>b d d'. gz_write_all G b d = Inr d' \<longrightarrow> gz_fed G d' = gz_fed G d @ b \<and> gz_taken G d' = gz_taken G d) \<and>
     (\<forall>d d'. gz_flush G d = Inr d' \<longrightarrow> gz_fed G d' = gz_fed G d \<and> gz_taken G d' = gz_taken G d) \<and>
     (\<forall>d d'. gz_try_finish G d = Inr d' \<longrightarrow> gz_taken G d' = gz_taken G d \<and>
        gz_taken G d' @ gz_buf G d' = gunzip (gz_fed G d)) \<and>
     (\<forall>d. gz_fed G (gz_split G d) = gz_fed G d \<and> gz_taken G (gz_split G d) = gz_taken G d @ gz_buf G d)"

lemma gz_laws:
  assumes "gz_ok G gunzip"
  shows "gz_fed G (gz_new G) = []" "gz_taken G (gz_new G) = []"
    "gz_write_all G b d = Inr d' \<Longrightarrow> gz_fed G d' = gz_fed G d @ b \<and> gz_taken G d' = gz_taken G d"
    "gz_flush G d = Inr d' \<Longrightarrow> gz_fed G d' = gz_fed G d \<and> gz_taken G d' = gz_taken G d"
    "gz_try_finish G d = Inr d' \<Longrightarrow> gz_taken G d' = gz_taken G d \<and>
       gz_taken G d' @ gz_buf G d' = gunzip (gz_fed G d)"
    "gz_fed G (gz_split G d) = gz_fed G d" "gz_taken G (gz_split G d) = gz_taken G d @ gz_buf G d"
  using assms unfolding gz_ok_def by blast+

datatype ('d, 'h) gz_state = Decompressing 'd | LastFrame "'h frame" | DoneState

record ('b, 'd, 'h) decoded_body =
  db_body :: 'b
  db_state :: "('d, 'h) gz_state"

partial_function (option) decoded_poll ::
  "'d gz_api \<Rightarrow> ('b, 'e, 'h) body_poll \<Rightarrow> ('b \<Rightarrow> bool) \<Rightarrow> ('e \<Rightarrow> cause) \<Rightarrow> ('b, 'd, 'h) decoded_body \<Rightarrow>
   ((cause + 'h frame) option poll \<times> ('b, 'd, 'h) decoded_body) option" where
  "decoded_poll G B is_end into db =
     (case db_state db of
        Decompressing d \<Rightarrow>
          (case B (db_body db) of
             (Ready (Some (Inr (DataFrame data))), b) \<Rightarrow>
               (case gz_write_all G data d of
                  Inl e \<Rightarrow> Some (Ready (Some (Inl e)), \<lparr>db_body = b, db_state = DoneState\<rparr>)
                | Inr d1 \<Rightarrow>
                    (if is_end b then
                       (case gz_try_finish G d1 of
                          Inl e \<Rightarrow> Some (Ready (Some (Inl e)), \<lparr>db_body = b, db_state = DoneState\<rparr>)
                        | Inr d2 \<Rightarrow>
                            Some (if gz_buf G d2 = [] then Ready None
                                  else Ready (Some (Inr (DataFrame (gz_buf G d2)))),
                                  \<lparr>db_body = b, db_state = DoneState\<rparr>))
                     else
                       (case gz_flush G d1 of
                          Inl e \<Rightarrow> Some (Ready (Some (Inl e)), \<lparr>db_body = b, db_state = DoneState\<rparr>)
                        | Inr d2 \<Rightarrow>
                            (if gz_buf G d2 \<noteq> [] then
                               Some (Ready (Some (Inr (DataFrame (gz_buf G d2)))),
                                     \<lparr>db_body = b, db_state = Decompressing (gz_split G d2)\<rparr>)
                             else
                               decoded_poll G B is_end into
                                 \<lparr>db_body = b, db_state = Decompressing (gz_split G d2)\<rparr>))))
           | (Ready (Some (Inr (TrailersFrame t))), b) \<Rightarrow>
               (case gz_try_finish G d of
                  Inl e \<Rightarrow> Some (Ready (Some (Inl e)), \<lparr>db_body = b, db_state = DoneState\<rparr>)
                | Inr d2 \<Rightarrow>
                    (if gz_buf G d2 = [] then
                       Some (Ready (Some (Inr (TrailersFrame t))), \<lparr>db_body = b, db_state = DoneState\<rparr>)
                     else
                       Some (Ready (Some (Inr (DataFrame (gz_buf G d2)))),
                             \<lparr>db_body = b, db_state = LastFrame (TrailersFrame t)\<rparr>)))
           | (Ready (Some (Inl e)), b) \<Rightarrow>
               Some (Ready (Some (Inl (into e))), \<lparr>db_body = b, db_state = DoneState\<rparr>)
           | (Ready None, b) \<Rightarrow>
               (case gz_try_finish G d of
                  Inl e \<Rightarrow> Some (Ready (Some (Inl e)), \<lparr>db_body = b, db_state = DoneState\<rparr>)
                | Inr d2 \<Rightarrow>
                    Some (if gz_buf G d2 = [] then Ready None
                          else Ready (Some (Inr (DataFrame (gz_buf G d2)))),
                          \<lparr>db_body = b, db_state = DoneState\<rparr>))
           | (Pending, b) \<Rightarrow> Some (Pending, \<lparr>db_body = b, db_state = Decompressing d\<rparr>))
      | LastFrame f \<Rightarrow> Some (Ready (Some (Inr f)), db\<lparr>db_state := DoneState\<rparr>)
      | DoneState \<Rightarrow>
          (case B (db_body db) of
             (Pending, b) \<Rightarrow> Some (Pending, db\<lparr>db_body := b\<rparr>)
           | (Ready x, b) \<Rightarrow>
               Some (Ready (map_option (map_sum into (\<lambda>f. f)) x), db\<lparr>db_body := b\<rparr>)))"

definition decoded_is_end_stream :: "('b \<Rightarrow> bool) \<Rightarrow> ('b, 'd, 'h) decoded_body \<Rightarrow> bool" where
  "decoded_is_end_stream is_end db =
     (case db_state db of LastFrame _ \<Rightarrow> False | _ \<Rightarrow> is_end (db_body db))"

definition decoded_size_hint :: "('b \<Rightarrow> size_hint) \<Rightarrow> ('b, 'd, 'h) decoded_body \<Rightarrow> size_hint" where
  "decoded_size_hint hint db =
     (case db_state db of
        Decompressing _ \<Rightarrow> size_hint_new
      | LastFrame (DataFrame d) \<Rightarrow> size_hint_exact (length d)
      | LastFrame (TrailersFrame _) \<Rightarrow> size_hint_exact 0
      | DoneState \<Rightarrow> hint (db_body db))"

definition accept_gzip :: "'h header_api \<Rightarrow> ('h, 'b) request \<Rightarrow> ('h, 'b) request" where
  "accept_gzip A req =
     (if hd_get A (rq_headers req) ''accept-encoding'' = None
      then req\<lparr>rq_headers := hd_insert A (rq_headers req) ''accept-encoding'' ''gzip''\<rparr> else req)"

definition decode_response ::
  "'h header_api \<Rightarrow> 'd gz_api \<Rightarrow> ('h, 'b) response \<Rightarrow> ('h, ('b, 'd, 't) decoded_body) response" where
  "decode_response A G r =
     (if hd_get A (rs_headers r) ''content-encoding'' = Some ''gzip'' then
        \<lparr>rs_status = rs_status r,
         rs_headers = hd_remove A (hd_remove A (rs_headers r) ''content-encoding'') ''content-length'',
         rs_body = \<lparr>db_body = rs_body r, db_state = Decompressing (gz_new G)\<rparr>\<rparr>
      else
        \<lparr>rs_status = rs_status r, rs_headers = rs_headers r,
         rs_body = \<lparr>db_body = rs_body r, db_state = DoneState\<rparr>\<rparr>)"

definition gzip_call ::
  "'h header_api \<Rightarrow> 'd gz_api \<Rightarrow> (('h, 'q) request, 'w, 'e, ('h, 'b) response) service \<Rightarrow>
   (('h, 'q) request, 'w, 'e, ('h, ('b, 'd, 't) decoded_body) response) service" where
  "gzip_call A G inner req w =
     (case inner (accept_gzip A req) w of
        (Inl e, w') \<Rightarrow> (Inl e, w')
      | (Inr r, w') \<Rightarrow> (Inr (decode_response A G r), w'))"

subsection \<open>What a decoded body yields\<close>

inductive produces ::
  "('s \<Rightarrow> ((cause + 'h frame) option poll \<times> 's) option) \<Rightarrow> 's \<Rightarrow> (cause, 'h) item list \<Rightarrow> bool"
  for P :: "'s \<Rightarrow> ((cause + 'h frame) option poll \<times> 's) option" where
  produces_end: "P s = Some (Ready None, s') \<Longrightarrow> produces P s []"
| produces_more: "P s = Some (poll_of x, s') \<Longrightarrow> produces P s' xs \<Longrightarrow> produces P s (x # xs)"

fun trailers_of :: "('e, 'h) item \<Rightarrow> 'h list" where
  "trailers_of (Yield (TrailersFrame t)) = [t]"
| "trailers_of _ = []"

definition trailers :: "('e, 'h) item list \<Rightarrow> 'h list" where
  "trailers s = concat (map trailers_of s)"

lemma trailers_simps [simp]: "trailers [] = []" "trailers (x # s) = trailers_of x @ trailers s"
  by (simp_all add: trailers_def)

text \<open>HTTP framing: data, then at most one block of trailers, then nothing.\<close>

fun framed :: "('e, 'h) item list \<Rightarrow> bool" where
  "framed [] = True"
| "framed (Yield (TrailersFrame t) # s) = (s = [])"
| "framed (Failure e # s) = False"
| "framed (_ # s) = framed s"

fun convert_item :: "('e \<Rightarrow> cause) \<Rightarrow> ('e, 'h) item \<Rightarrow> (cause, 'h) item" where
  "convert_item into Stall = Stall"
| "convert_item into (Failure e) = Failure (into e)"
| "convert_item into (Yield f) = Yield f"

lemma convert_item_simps [simp]:
  "data_of (convert_item into x) = data_of x" "trailers_of (convert_item into x) = trailers_of x"
  by (cases x; simp; rename_tac f; case_tac f; simp)+

lemma content_convert_item [simp]: "content (map (convert_item into) s) = content s"
  by (induction s) simp_all

lemma trailers_convert_item [simp]: "trailers (map (convert_item into) s) = trailers s"
  by (induction s) simp_all

text \<open>A body that is not or no longer decoded is passed through.\<close>

lemma done_produces:
  "yields B b s \<Longrightarrow> produces (decoded_poll G B is_end into) \<lparr>db_body = b, db_state = DoneState\<rparr> (map (convert_item into) s)"
proof (induction rule: yields.induct)
  case (yields_end b b')
  then have "decoded_poll G B is_end into \<lparr>db_body = b, db_state = DoneState\<rparr> =
      Some (Ready None, \<lparr>db_body = b', db_state = DoneState\<rparr>)"
    by (subst decoded_poll.simps) simp
  from produces_end [of "decoded_poll G B is_end into", OF this] show ?case by simp
next
  case (yields_more b x b' s)
  have "decoded_poll G B is_end into \<lparr>db_body = b, db_state = DoneState\<rparr> =
      Some (poll_of (convert_item into x), \<lparr>db_body = b', db_state = DoneState\<rparr>)"
    using yields_more(1) by (cases x; subst decoded_poll.simps) simp_all
  from produces_more [of "decoded_poll G B is_end into", OF this yields_more(3)] show ?case by simp
qed

text \<open>
  A poll that returns is the poll of a body: \<open>D\<close> is one that agrees with the decoded body wherever that
  returns.
\<close>

definition returning :: "('s \<Rightarrow> ((cause + 'h frame) option poll \<times> 's) option) \<Rightarrow> ('s, cause, 'h) body_poll \<Rightarrow> bool" where
  "returning P D \<longleftrightarrow> (\<forall>s x. P s = Some x \<longrightarrow> D s = x)"

lemma produces_yields: "produces P s out \<Longrightarrow> returning P D \<Longrightarrow> yields D s out"
  by (induction rule: produces.induct) (auto simp: returning_def intro: yields.intros)

lemma body_layer_plain:
  assumes "returning (decoded_poll G B is_end into) D"
  shows "body_layer B D (\<lambda>b. \<lparr>db_body = b, db_state = DoneState\<rparr>) (convert_item into)"
  using produces_yields [OF done_produces assms] by unfold_locales simp_all

text \<open>
  What the decoder relies on in the body it reads: \<^verbatim>\<open>is_end_stream\<close> is true only at the end, and the end
  is reported again when the body is polled after it.
\<close>

definition honest :: "('b, 'e, 'h) body_poll \<Rightarrow> ('b \<Rightarrow> bool) \<Rightarrow> bool" where
  "honest B is_end \<longleftrightarrow>
     (\<forall>b. is_end b \<longrightarrow> (\<exists>b'. B b = (Ready None, b'))) \<and>
     (\<forall>b b'. B b = (Ready None, b') \<longrightarrow> (\<exists>b2. B b' = (Ready None, b2)))"

lemma honest_end: "honest B is_end \<Longrightarrow> is_end b \<Longrightarrow> yields B b s \<Longrightarrow> s = []"
  unfolding honest_def by (metis fst_conv poll_of_not_end yields.cases)

lemma honest_stays: "honest B is_end \<Longrightarrow> B b = (Ready None, b') \<Longrightarrow> yields B b' []"
  unfolding honest_def by (metis yields_end)

definition decodes ::
  "'d gz_api \<Rightarrow> (byte list \<Rightarrow> byte list) \<Rightarrow> 'd \<Rightarrow> ('e, 'h) item list \<Rightarrow> (cause, 'h) item list \<Rightarrow> bool" where
  "decodes G gunzip d s out \<longleftrightarrow>
     ((\<forall>e. Failure e \<notin> set out) \<longrightarrow>
        gz_taken G d @ content out = gunzip (gz_fed G d @ content s) \<and> trailers out = trailers s)"

lemma decodes_Failure [simp]: "decodes G gunzip d s (Failure e # out)"
  by (auto simp: decodes_def)

text \<open>The last frame: what finishing leaves in the buffer, then the end or the trailers.\<close>

lemma produces_finish:
  assumes "gz_ok G gunzip" "yields B b []" "gz_try_finish G d = Inr d2"
    and "decoded_poll G B is_end into db =
      Some (if gz_buf G d2 = [] then Ready None else Ready (Some (Inr (DataFrame (gz_buf G d2)))),
            \<lparr>db_body = b, db_state = DoneState\<rparr>)"
  shows "\<exists>out. produces (decoded_poll G B is_end into) db out \<and> (\<forall>e. Failure e \<notin> set out) \<and>
    gz_taken G d @ content out = gunzip (gz_fed G d) \<and> trailers out = []"
proof -
  have t: "gz_taken G d @ gz_buf G d2 = gunzip (gz_fed G d)" using gz_laws(5) [OF assms(1,3)] by metis
  show ?thesis
  proof (cases "gz_buf G d2 = []")
    case True
    then have "produces (decoded_poll G B is_end into) db []" using assms(4) by (intro produces_end) simp
    then show ?thesis using t True by (intro exI [of _ "[]"]) simp
  next
    case False
    have "produces (decoded_poll G B is_end into) db [Yield (DataFrame (gz_buf G d2))]"
      using done_produces [OF assms(2), of G is_end into] assms(4) False by (intro produces_more) simp_all
    then show ?thesis using t by (intro exI [of _ "[Yield (DataFrame (gz_buf G d2))]"]) simp
  qed
qed

lemma produces_error:
  assumes "yields B b s"
    and "decoded_poll G B is_end into db = Some (Ready (Some (Inl e)), \<lparr>db_body = b, db_state = DoneState\<rparr>)"
  shows "\<exists>out. produces (decoded_poll G B is_end into) db (Failure e # out)"
  using produces_more [of "decoded_poll G B is_end into" db "Failure e"]
    done_produces [OF assms(1), of G is_end into] assms(2) by auto

lemma decodes_finish:
  assumes "gz_ok G gunzip" "yields B b []"
    and "decoded_poll G B is_end into db =
      (case gz_try_finish G d of
         Inl e \<Rightarrow> Some (Ready (Some (Inl e)), \<lparr>db_body = b, db_state = DoneState\<rparr>)
       | Inr d2 \<Rightarrow>
           Some (if gz_buf G d2 = [] then Ready None else Ready (Some (Inr (DataFrame (gz_buf G d2)))),
                 \<lparr>db_body = b, db_state = DoneState\<rparr>))"
  shows "\<exists>out. produces (decoded_poll G B is_end into) db out \<and>
    ((\<forall>e. Failure e \<notin> set out) \<longrightarrow> gz_taken G d @ content out = gunzip (gz_fed G d) \<and> trailers out = [])"
proof (cases "gz_try_finish G d")
  case (Inl e)
  then have "decoded_poll G B is_end into db = Some (Ready (Some (Inl e)), \<lparr>db_body = b, db_state = DoneState\<rparr>)"
    using assms(3) by simp
  from produces_error [OF assms(2) this] show ?thesis by force
next
  case (Inr d2)
  from produces_finish [OF assms(1,2) Inr, of is_end into db] assms(3) Inr show ?thesis by auto
qed

lemma produces_same: "P s = P s' \<Longrightarrow> produces P s' out \<Longrightarrow> produces P s out"
  by (erule produces.cases) (auto intro: produces.intros)

lemma decodes_trailers:
  assumes G: "gz_ok G gunzip" and b': "B b = (Ready (Some (Inr (TrailersFrame t))), b')" and s: "yields B b' []"
  shows "\<exists>out. produces (decoded_poll G B is_end into) \<lparr>db_body = b, db_state = Decompressing d\<rparr> out \<and>
    decodes G gunzip d [Yield (TrailersFrame t)] out"
proof (cases "gz_try_finish G d")
  case (Inl e)
  then have "decoded_poll G B is_end into \<lparr>db_body = b, db_state = Decompressing d\<rparr> =
      Some (Ready (Some (Inl e)), \<lparr>db_body = b', db_state = DoneState\<rparr>)"
    using b' by (subst decoded_poll.simps) simp
  from produces_error [OF s this] show ?thesis by force
next
  case (Inr d2)
  let ?P = "decoded_poll G B is_end into"
  have t: "gz_taken G d @ gz_buf G d2 = gunzip (gz_fed G d)" using gz_laws(5) [OF G Inr] by metis
  have fin: "produces ?P \<lparr>db_body = b', db_state = DoneState\<rparr> []" using done_produces [OF s] by simp
  show ?thesis
  proof (cases "gz_buf G d2 = []")
    case True
    have "?P \<lparr>db_body = b, db_state = Decompressing d\<rparr> =
        Some (poll_of (Yield (TrailersFrame t)), \<lparr>db_body = b', db_state = DoneState\<rparr>)"
      using b' Inr True by (subst decoded_poll.simps) simp
    from produces_more [of ?P, OF this fin] show ?thesis
      using t True by (intro exI [of _ "[Yield (TrailersFrame t)]"]) (simp add: decodes_def)
  next
    case False
    have 1: "?P \<lparr>db_body = b, db_state = Decompressing d\<rparr> =
        Some (poll_of (Yield (DataFrame (gz_buf G d2))), \<lparr>db_body = b', db_state = LastFrame (TrailersFrame t)\<rparr>)"
      using b' Inr False by (subst decoded_poll.simps) simp
    have 2: "?P \<lparr>db_body = b', db_state = LastFrame (TrailersFrame t)\<rparr> =
        Some (poll_of (Yield (TrailersFrame t)), \<lparr>db_body = b', db_state = DoneState\<rparr>)"
      by (subst decoded_poll.simps) simp
    from produces_more [of ?P, OF 1 produces_more [of ?P, OF 2 fin]] show ?thesis
      using t by (intro exI [of _ "[Yield (DataFrame (gz_buf G d2)), Yield (TrailersFrame t)]"])
        (simp add: decodes_def)
  qed
qed

lemma decompressing_produces:
  assumes G: "gz_ok G gunzip" and H: "honest B is_end"
  shows "yields B b s \<Longrightarrow> framed s \<Longrightarrow>
    \<exists>out. produces (decoded_poll G B is_end into) \<lparr>db_body = b, db_state = Decompressing d\<rparr> out \<and>
      decodes G gunzip d s out"
proof (induction s arbitrary: b d)
  case Nil
  from Nil obtain b' where b': "B b = (Ready None, b')" by (auto elim: yields_NilE)
  have "decoded_poll G B is_end into \<lparr>db_body = b, db_state = Decompressing d\<rparr> =
      (case gz_try_finish G d of
         Inl e \<Rightarrow> Some (Ready (Some (Inl e)), \<lparr>db_body = b', db_state = DoneState\<rparr>)
       | Inr d2 \<Rightarrow>
           Some (if gz_buf G d2 = [] then Ready None else Ready (Some (Inr (DataFrame (gz_buf G d2)))),
                 \<lparr>db_body = b', db_state = DoneState\<rparr>))"
    using b' by (subst decoded_poll.simps) (simp split: sum.splits)
  from decodes_finish [OF G honest_stays [OF H b'] this] show ?case by (auto simp: decodes_def)
next
  case (Cons x s)
  let ?db = "\<lparr>db_body = b, db_state = Decompressing d\<rparr>"
  from Cons.prems(1) obtain b' where b': "B b = (poll_of x, b')" and s: "yields B b' s" by (rule yields_ConsE)
  show ?case
  proof (cases x)
    case Stall
    have "decoded_poll G B is_end into ?db = Some (poll_of Stall, \<lparr>db_body = b', db_state = Decompressing d\<rparr>)"
      using b' Stall by (subst decoded_poll.simps) simp
    moreover obtain out where "produces (decoded_poll G B is_end into) \<lparr>db_body = b', db_state = Decompressing d\<rparr> out"
      "decodes G gunzip d s out"
      using Cons.IH [OF s] Cons.prems(2) Stall by auto
    ultimately show ?thesis using Stall
      by (intro exI [of _ "Stall # out"] conjI produces_more) (auto simp: decodes_def)
  next
    case (Failure e)
    then show ?thesis using Cons.prems(2) by simp
  next
    case (Yield f)
    show ?thesis
    proof (cases f)
      case (TrailersFrame t)
      then have "s = []" using Cons.prems(2) Yield by simp
      then show ?thesis
        using decodes_trailers [OF G, of B b t b' is_end into d] b' s Yield TrailersFrame by simp
    next
      case (DataFrame data)
      have fr: "framed s" using Cons.prems(2) Yield DataFrame by simp
      have bd: "B b = (Ready (Some (Inr (DataFrame data))), b')" using b' Yield DataFrame by simp
      let ?P = "decoded_poll G B is_end into"
      have err: ?thesis if "?P ?db = Some (Ready (Some (Inl e)), \<lparr>db_body = b', db_state = DoneState\<rparr>)" for e
        using produces_error [OF s that] by (elim exE) (intro exI conjI, assumption, rule decodes_Failure)
      show ?thesis
      proof (cases "gz_write_all G data d")
        case (Inl e)
        then have "?P ?db = Some (Ready (Some (Inl e)), \<lparr>db_body = b', db_state = DoneState\<rparr>)"
          using bd by (subst decoded_poll.simps) simp
        then show ?thesis by (rule err)
      next
        case d1: (Inr d1)
        have w: "gz_fed G d1 = gz_fed G d @ data" "gz_taken G d1 = gz_taken G d" using gz_laws(3) [OF G d1] by blast+
        show ?thesis
        proof (cases "is_end b'")
          case True
          have "?P ?db = (case gz_try_finish G d1 of
               Inl e \<Rightarrow> Some (Ready (Some (Inl e)), \<lparr>db_body = b', db_state = DoneState\<rparr>)
             | Inr d2 \<Rightarrow>
                 Some (if gz_buf G d2 = [] then Ready None else Ready (Some (Inr (DataFrame (gz_buf G d2)))),
                       \<lparr>db_body = b', db_state = DoneState\<rparr>))"
            using bd d1 True by (subst decoded_poll.simps) (simp split: sum.splits)
          moreover have "s = []" by (rule honest_end [OF H True s])
          ultimately show ?thesis
            using decodes_finish [OF G, of B b' is_end into ?db d1] s w Yield DataFrame by (auto simp: decodes_def)
        next
          case False
          show ?thesis
          proof (cases "gz_flush G d1")
            case (Inl e)
            then have "?P ?db = Some (Ready (Some (Inl e)), \<lparr>db_body = b', db_state = DoneState\<rparr>)"
              using bd d1 False by (subst decoded_poll.simps) simp
            then show ?thesis by (rule err)
          next
            case d2: (Inr d2)
            let ?d = "gz_split G d2"
            let ?next = "\<lparr>db_body = b', db_state = Decompressing ?d\<rparr>"
            have g: "gz_fed G ?d = gz_fed G d @ data" "gz_taken G ?d = gz_taken G d @ gz_buf G d2"
              using gz_laws(4) [OF G d2] gz_laws(6,7) [OF G] w by metis+
            obtain out where out: "produces ?P ?next out" "decodes G gunzip ?d s out"
              using Cons.IH [OF s fr] by blast
            show ?thesis
            proof (cases "gz_buf G d2 = []")
              case True
              have "?P ?db = ?P ?next"
                using bd d1 d2 False True by (subst decoded_poll.simps) simp
              then show ?thesis
                using produces_same [of ?P, OF _ out(1)] out(2) g True Yield DataFrame
                by (intro exI [of _ out]) (simp add: decodes_def)
            next
              case buf: False
              have "?P ?db = Some (poll_of (Yield (DataFrame (gz_buf G d2))), ?next)"
                using bd d1 d2 False buf by (subst decoded_poll.simps) simp
              from produces_more [of ?P, OF this out(1)] show ?thesis
                using out(2) g Yield DataFrame
                by (intro exI [of _ "Yield (DataFrame (gz_buf G d2)) # out"]) (simp add: decodes_def)
            qed
          qed
        qed
      qed
    qed
  qed
qed

text \<open>The gzip layer decodes. For a response marked as gzip, over any body that follows HTTP framing
  (data, then at most one block of trailers), however it is cut into frames and however it stalls, the
  decoded body comes to an end, and unless it reports an error, its data frames concatenate to
  exactly the decoded content, its trailers are those of the body, and the headers that describe the
  encoded form are gone. Any other response passes through with its content unchanged.\<close>

theorem gzip_body_decodes:
  assumes "gz_ok G gunzip" "honest B is_end" "yields B (rs_body r) s" "framed s" "header_ok A"
  shows "let r' = decode_response A G r
    in \<exists>out. produces (decoded_poll G B is_end into) (rs_body r') out \<and> rs_status r' = rs_status r \<and>
      (if hd_get A (rs_headers r) ''content-encoding'' = Some ''gzip''
       then ((\<forall>e. Failure e \<notin> set out) \<longrightarrow> content out = gunzip (content s) \<and> trailers out = trailers s) \<and>
         hd_get A (rs_headers r') ''content-encoding'' = None \<and> hd_get A (rs_headers r') ''content-length'' = None
       else content out = content s \<and> trailers out = trailers s \<and> rs_headers r' = rs_headers r)"
proof (cases "hd_get A (rs_headers r) ''content-encoding'' = Some ''gzip''")
  case True
  obtain out where "produces (decoded_poll G B is_end into)
      \<lparr>db_body = rs_body r, db_state = Decompressing (gz_new G)\<rparr> out" "decodes G gunzip (gz_new G) s out"
    using decompressing_produces [OF assms(1-4)] by blast
  then show ?thesis
    using True gz_laws(1,2) [OF assms(1)] header_okD [OF assms(5)]
    by (auto simp: decode_response_def decodes_def Let_def intro!: exI [of _ out])
next
  case False
  then show ?thesis
    using done_produces [OF assms(3), of G is_end into]
    by (auto simp: decode_response_def Let_def intro!: exI [of _ "map (convert_item into) s"])
qed

text \<open>A decoder of the identity coding, which keeps what was taken from it and what is in its buffer.\<close>

definition copy_gz :: "(byte list \<times> byte list) gz_api" where
  "copy_gz =
     \<lparr>gz_new = ([], []), gz_write_all = (\<lambda>b (t, u). Inr (t, u @ b)), gz_flush = Inr, gz_try_finish = Inr,
      gz_buf = snd, gz_split = (\<lambda>(t, u). (t @ u, [])), gz_fed = (\<lambda>(t, u). t @ u), gz_taken = fst\<rparr>"

lemma copy_gz_ok: "gz_ok copy_gz (\<lambda>b. b)"
  by (auto simp: gz_ok_def copy_gz_def)

lemma script_honest: "honest script (\<lambda>s. s = [])"
  unfolding honest_def
proof (intro conjI allI impI)
  fix b b' :: "('e, 'h) item list"
  show "\<exists>b'. script b = (Ready None, b')" if "b = []" using that by simp
  show "\<exists>b2. script b' = (Ready None, b2)" if "script b = (Ready None, b')"
    using that by (cases b) auto
qed

theorem gzip_body_decodes_witness:
  "\<exists>out. produces (decoded_poll copy_gz script (\<lambda>s. s = []) (\<lambda>_ :: unit. Foreign ''io'' None))
     (rs_body (decode_response map_headers copy_gz
       \<lparr>rs_status = 200, rs_headers = [''content-encoding'' \<mapsto> ''gzip''],
        rs_body = [Yield (DataFrame [1, 2]), Stall, Yield (DataFrame [3]), Yield (TrailersFrame (7 :: nat))]\<rparr>)) out \<and>
     ((\<forall>e. Failure e \<notin> set out) \<longrightarrow> content out = [1, 2, 3] \<and> trailers out = [7])"
  using gzip_body_decodes [OF copy_gz_ok script_honest yields_script _ map_headers_ok,
    of "\<lparr>rs_status = 200, rs_headers = [''content-encoding'' \<mapsto> ''gzip''],
        rs_body = [Yield (DataFrame [1, 2]), Stall, Yield (DataFrame [3]), Yield (TrailersFrame (7 :: nat))]\<rparr>"
      "\<lambda>_ :: unit. Foreign ''io'' None"]
  by (auto simp: Let_def map_headers_def)

end
