(* ===== verification/Outbound.thy ===== *)
theory Outbound
  imports Proxy Gzip
begin

text \<open>
  The layers between a node and the raw client that only adjust the request: trace propagation
  (\<^verbatim>\<open>service/trace_propagation.rs\<close>), the user agent (\<^verbatim>\<open>service/user_agent.rs\<close>) and the format of error
  parameters (\<^verbatim>\<open>service/error_parameter_format.rs\<close>), with the order in which \<^verbatim>\<open>client.rs\<close> stacks them,
  the proxy, gzip and error mapping layers. Injecting a trace context into headers is the
  \<^verbatim>\<open>http_zipkin\<close> crate's: \<open>trace_api\<close> has the context of the current task and the injection.
\<close>

record ('h, 't, 'w) trace_api =
  tr_current :: "'w \<Rightarrow> 't option"
  tr_inject :: "'t \<Rightarrow> 'h \<Rightarrow> 'h"

definition is_b3 :: "string \<Rightarrow> bool" where
  "is_b3 k \<longleftrightarrow> take 5 k = ''x-b3-''"

definition trace_ok :: "'h header_api \<Rightarrow> ('h, 't, 'w) trace_api \<Rightarrow> bool" where
  "trace_ok A T \<longleftrightarrow> (\<forall>t h k. \<not> is_b3 k \<longrightarrow> hd_get A (tr_inject T t h) k = hd_get A h k)"

definition trace_request :: "('h, 't, 'w) trace_api \<Rightarrow> 'w \<Rightarrow> ('h, 'b) request \<Rightarrow> ('h, 'b) request" where
  "trace_request T w req =
     (case tr_current T w of
        Some t \<Rightarrow> req\<lparr>rq_headers := tr_inject T t (rq_headers req)\<rparr>
      | None \<Rightarrow> req)"

definition trace_call ::
  "('h, 't, 'w) trace_api \<Rightarrow> (('h, 'b) request \<Rightarrow> 'w \<Rightarrow> 'r) \<Rightarrow> ('h, 'b) request \<Rightarrow> 'w \<Rightarrow> 'r" where
  "trace_call T inner req w = inner (trace_request T w req) w"

definition CARGO_PKG_VERSION :: string where "CARGO_PKG_VERSION = ''7.8.0''"

text \<open>\<^verbatim>\<open>Agent::new\<close> asserts that the name is valid.\<close>

definition agent_or_panic :: "string \<Rightarrow> string \<Rightarrow> panic + agent" where
  "agent_or_panic name version =
     (case agent_new name version of None \<Rightarrow> Inl (Expect ''invalid agent name'') | Some a \<Rightarrow> Inr a)"

definition request_agent :: "user_agent \<Rightarrow> endpoint \<Rightarrow> panic + user_agent" where
  "request_agent ua ed =
     and_then (agent_or_panic (ed_service ed) (case ed_version ed of Some v \<Rightarrow> v | None \<Rightarrow> ''0.0.0''))
       (\<lambda>service.
     and_then (agent_or_panic ''conjure-rust-runtime'' CARGO_PKG_VERSION) (\<lambda>runtime.
       Inr (push_agent runtime (push_agent service ua))))"

definition user_agent_request ::
  "'h header_api \<Rightarrow> text_api \<Rightarrow> user_agent \<Rightarrow> ('h, 'b) request \<Rightarrow> panic + ('h, 'b) request" where
  "user_agent_request A V ua req =
     (case rq_endpoint req of
        None \<Rightarrow> Inl (Expect ''Endpoint missing from request extensions'')
      | Some ed \<Rightarrow>
          and_then (request_agent ua ed) (\<lambda>u.
            let text = user_agent_display u
            in if tx_header_legal V text
               then Inr (req\<lparr>rq_headers := hd_insert A (rq_headers req) ''user-agent'' text\<rparr>)
               else Inl (Unwrap ''user agent'')))"

definition user_agent_call ::
  "'h header_api \<Rightarrow> text_api \<Rightarrow> user_agent \<Rightarrow> (('h, 'b) request \<Rightarrow> 'w \<Rightarrow> panic + 'r) \<Rightarrow>
   ('h, 'b) request \<Rightarrow> 'w \<Rightarrow> panic + 'r" where
  "user_agent_call A V ua inner req w = and_then (user_agent_request A V ua req) (\<lambda>req'. inner req' w)"

definition error_format_request ::
  "'h header_api \<Rightarrow> string option \<Rightarrow> ('h, 'b) request \<Rightarrow> ('h, 'b) request" where
  "error_format_request A value req =
     (case value of
        Some v \<Rightarrow>
          if hd_get A (rq_headers req) ''accept-conjure-error-parameter-format'' = None
          then req\<lparr>rq_headers := hd_insert A (rq_headers req) ''accept-conjure-error-parameter-format'' v\<rparr>
          else req
      | None \<Rightarrow> req)"

definition error_format_new :: "builder \<Rightarrow> string option" where
  "error_format_new b = header_value (cc_error_parameter_format (cached b))"

definition error_format_call ::
  "'h header_api \<Rightarrow> string option \<Rightarrow> (('h, 'b) request \<Rightarrow> 'w \<Rightarrow> 'r) \<Rightarrow> ('h, 'b) request \<Rightarrow> 'w \<Rightarrow> 'r" where
  "error_format_call A value inner req w = inner (error_format_request A value req) w"

subsection \<open>Stacking layers\<close>

text \<open>
  \<^verbatim>\<open>service/mod.rs\<close>: a layer is a function of services, and a builder applies the layer added first
  outermost.
\<close>

definition identity_layer :: "'s \<Rightarrow> 's" where
  "identity_layer inner = inner"

definition stack_layer :: "('t \<Rightarrow> 'u) \<Rightarrow> ('s \<Rightarrow> 't) \<Rightarrow> 's \<Rightarrow> 'u" where
  "stack_layer outer inner s = outer (inner s)"

definition service_builder_new :: "'s \<Rightarrow> 's" where
  "service_builder_new = identity_layer"

definition service_builder_layer :: "('t \<Rightarrow> 'u) \<Rightarrow> ('s \<Rightarrow> 't) \<Rightarrow> 's \<Rightarrow> 'u" where
  "service_builder_layer self layer = stack_layer self layer"

definition service_builder_service :: "('s \<Rightarrow> 'u) \<Rightarrow> 's \<Rightarrow> 'u" where
  "service_builder_service self service = self service"

lemmas stack_defs = identity_layer_def stack_layer_def service_builder_new_def service_builder_layer_def
  service_builder_service_def

text \<open>The gzip and error mapping services cannot panic.\<close>

definition no_panic :: "('req \<Rightarrow> 'w \<Rightarrow> 'r) \<Rightarrow> 'req \<Rightarrow> 'w \<Rightarrow> panic + 'r" where
  "no_panic service req w = Inr (service req w)"

text \<open>The layers from the proxy layer to the raw client, as \<^verbatim>\<open>ClientState::new\<close> stacks them.\<close>

definition outbound_call ::
  "uri_api \<Rightarrow> 'h header_api \<Rightarrow> text_api \<Rightarrow> 'e error_api \<Rightarrow> ('h, 't, 'w) trace_api \<Rightarrow> 'd gz_api \<Rightarrow>
   builder \<Rightarrow> proxy_setup \<Rightarrow>
   (('h, 'q) request, 'w, cause, ('h, 'b) response) service \<Rightarrow> ('h, 'q) request \<Rightarrow> 'w \<Rightarrow>
   panic + ('e + ('h, ('b, 'd, 'tr) decoded_body) response) \<times> 'w" where
  "outbound_call U A V E T G b p raw =
     service_builder_service
       (service_builder_layer
       (service_builder_layer
       (service_builder_layer
       (service_builder_layer
       (service_builder_layer
       (service_builder_layer
       (service_builder_layer service_builder_new
         (proxy_call U A p))
         (trace_call T))
         (user_agent_call A V (cc_user_agent (cached b))))
         (error_format_call A (error_format_new b)))
         no_panic)
         (gzip_call A G))
         (map_error_call E)) raw"

subsection \<open>What reaches the wire\<close>

definition text_ok :: "text_api \<Rightarrow> bool" where
  "text_ok V \<longleftrightarrow> (\<forall>s. list_all is_visible s \<longrightarrow> tx_header_legal V s)"

definition service_agent :: "endpoint \<Rightarrow> agent" where
  "service_agent ed =
     \<lparr>agent_name = ed_service ed,
      agent_version = (case ed_version ed of Some v \<Rightarrow> if valid_version v then v else ''0.0.0'' | None \<Rightarrow> ''0.0.0'')\<rparr>"

definition runtime_agent :: agent where
  "runtime_agent = \<lparr>agent_name = ''conjure-rust-runtime'', agent_version = ''7.8.0''\<rparr>"

lemma runtime_agent_new: "agent_new ''conjure-rust-runtime'' CARGO_PKG_VERSION = Some runtime_agent"
  by code_simp

lemma service_agent_new:
  "valid_name (ed_service ed) \<Longrightarrow>
   agent_new (ed_service ed) (case ed_version ed of Some v \<Rightarrow> v | None \<Rightarrow> ''0.0.0'') = Some (service_agent ed)"
  using default_version_valid
  by (auto simp: agent_new_def service_agent_def DEFAULT_VERSION_def split: option.splits)

lemma request_agent_ok:
  assumes "valid_name (ed_service ed)"
  shows "request_agent ua ed = Inr (push_agent runtime_agent (push_agent (service_agent ed) ua))"
  using service_agent_new [OF assms] runtime_agent_new
  by (simp add: request_agent_def agent_or_panic_def)

lemma pushed_agents_visible:
  assumes "user_agent_ok ua" "valid_name (ed_service ed)"
  shows "list_all is_visible (user_agent_display (push_agent runtime_agent (push_agent (service_agent ed) ua)))"
  using assms agent_new_ok [OF runtime_agent_new] agent_new_ok [OF service_agent_new [OF assms(2)]]
  by (intro user_agent_visible user_agent_ops_ok(2)) auto

text \<open>Each layer by its effect on one header, and the fields it leaves alone.\<close>

lemma get_accept_gzip:
  assumes "header_ok A"
  shows "hd_get A (rq_headers (accept_gzip A r)) k =
    (if k = ''accept-encoding'' \<and> hd_get A (rq_headers r) k = None then Some ''gzip'' else hd_get A (rq_headers r) k)"
  using header_okD(1,2) [OF assms] by (cases "k = ''accept-encoding''") (auto simp: accept_gzip_def)

lemma get_error_format:
  assumes "header_ok A"
  shows "hd_get A (rq_headers (error_format_request A v r)) k =
    (if k = ''accept-conjure-error-parameter-format'' \<and> hd_get A (rq_headers r) k = None then v
     else hd_get A (rq_headers r) k)"
  using header_okD(1,2) [OF assms]
  by (cases "k = ''accept-conjure-error-parameter-format''"; cases v) (auto simp: error_format_request_def)

lemma get_proxy:
  assumes "header_ok A"
  shows "hd_get A (rq_headers (proxy_request U A p r)) k =
    (case p of
       ProxyHttp x \<Rightarrow>
         if k = ''proxy-authorization'' \<and> uri_scheme U (rq_uri r) = Some ''http'' \<and> xp_credentials x \<noteq> None
         then xp_credentials x else hd_get A (rq_headers r) k
     | ProxyDirect \<Rightarrow> hd_get A (rq_headers r) k)"
  using header_okD(1,2) [OF assms]
  by (cases "k = ''proxy-authorization''") (auto simp: proxy_request_def split: option.splits proxy_setup.splits)

lemma request_layers_keep:
  "\<exists>h. accept_gzip A r = r\<lparr>rq_headers := h\<rparr>" "\<exists>h. error_format_request A v r = r\<lparr>rq_headers := h\<rparr>"
  "\<exists>h. trace_request T w r = r\<lparr>rq_headers := h\<rparr>" "\<exists>h. proxy_request U A p r = r\<lparr>rq_headers := h\<rparr>"
  by (cases r; auto simp: accept_gzip_def error_format_request_def trace_request_def proxy_request_def
      split: option.splits proxy_setup.splits)+

text \<open>The headers of the request the raw client is given, by name.\<close>

definition wire_header ::
  "uri_api \<Rightarrow> 'h header_api \<Rightarrow> builder \<Rightarrow> proxy_setup \<Rightarrow> endpoint \<Rightarrow> ('h, 'q) request \<Rightarrow> string \<Rightarrow> string option" where
  "wire_header U A b p ed req k =
     (let given = hd_get A (rq_headers req) k
      in if k = ''user-agent'' then
           Some (user_agent_display (push_agent runtime_agent (push_agent (service_agent ed) (cc_user_agent (cached b)))))
         else if k = ''accept-encoding'' then (if given = None then Some ''gzip'' else given)
         else if k = ''accept-conjure-error-parameter-format'' then
           (if given = None then header_value (cc_error_parameter_format (cached b)) else given)
         else if k = ''proxy-authorization'' then
           (case p of
              ProxyHttp x \<Rightarrow>
                if uri_scheme U (rq_uri req) = Some ''http'' \<and> xp_credentials x \<noteq> None
                then xp_credentials x else given
            | ProxyDirect \<Rightarrow> given)
         else given)"

lemma outbound_call_sends:
  assumes "header_ok A" "text_ok V" "trace_ok A T" "user_agent_ok (cc_user_agent (cached b))"
    and ed: "rq_endpoint req = Some ed" "valid_name (ed_service ed)"
  shows "\<exists>req'. outbound_call U A V E T G b p raw req w =
      Inr (map_prod (map_sum (\<lambda>e. e) (decode_response A G)) (\<lambda>w. w) (map_error_call E raw req' w)) \<and>
    req' = req\<lparr>rq_headers := rq_headers req'\<rparr> \<and>
    (\<forall>k. \<not> is_b3 k \<longrightarrow> hd_get A (rq_headers req') k = wire_header U A b p ed req k)"
proof -
  let ?ua = "user_agent_display (push_agent runtime_agent (push_agent (service_agent ed) (cc_user_agent (cached b))))"
  let ?r1 = "trace_request T w (proxy_request U A p req)"
  let ?r2 = "?r1\<lparr>rq_headers := hd_insert A (rq_headers ?r1) ''user-agent'' ?ua\<rparr>"
  let ?r3 = "accept_gzip A (error_format_request A (error_format_new b) ?r2)"
  note get = header_okD(1,2) [OF assms(1)]
  have tr: "hd_get A (rq_headers ?r1) k = hd_get A (rq_headers (proxy_request U A p req)) k" if "\<not> is_b3 k" for k
    using assms(3) that by (auto simp: trace_ok_def trace_request_def split: option.splits)
  obtain h1 where h1: "?r1 = req\<lparr>rq_headers := h1\<rparr>"
    using request_layers_keep(3) [of T w "proxy_request U A p req"] request_layers_keep(4) [of U A p req] by auto
  then have ed1: "rq_endpoint ?r1 = Some ed" using ed(1) by simp
  have "tx_header_legal V ?ua"
    using assms(2) pushed_agents_visible [OF assms(4) ed(2)] by (auto simp: text_ok_def)
  then have "user_agent_request A V (cc_user_agent (cached b)) ?r1 = Inr ?r2"
    using request_agent_ok [OF ed(2)] ed1 by (simp add: user_agent_request_def Let_def)
  then have call: "outbound_call U A V E T G b p raw req w =
      Inr (map_prod (map_sum (\<lambda>e. e) (decode_response A G)) (\<lambda>w. w) (map_error_call E raw ?r3 w))"
    by (simp add: outbound_call_def proxy_call_def trace_call_def user_agent_call_def error_format_call_def
        gzip_call_def no_panic_def stack_defs split: prod.splits sum.splits)
  obtain h3 where "?r3 = req\<lparr>rq_headers := h3\<rparr>"
    using request_layers_keep(1) [of A "error_format_request A (error_format_new b) ?r2"]
      request_layers_keep(2) [of A "error_format_new b" ?r2] h1 by auto
  then have same: "?r3 = req\<lparr>rq_headers := rq_headers ?r3\<rparr>" by simp
  have ua: "hd_get A (rq_headers ?r2) k = (if k = ''user-agent'' then Some ?ua else hd_get A (rq_headers ?r1) k)" for k
    using get by simp
  have "hd_get A (rq_headers ?r3) k = wire_header U A b p ed req k" if "\<not> is_b3 k" for k
    unfolding get_accept_gzip [OF assms(1)] get_error_format [OF assms(1)] ua tr [OF that] get_proxy [OF assms(1)]
    by (cases p; cases "k = ''accept-encoding''"; cases "k = ''accept-conjure-error-parameter-format''")
      (simp_all add: wire_header_def Let_def error_format_new_def)
  with call same show ?thesis by blast
qed

lemma outbound_call_panics:
  fixes raw :: "(('h, 'q) request, 'w, cause, ('h, 'b) response) service"
    and G :: "'d gz_api" and E :: "'e error_api"
  assumes "user_agent_request A V (cc_user_agent (cached b)) (trace_request T w (proxy_request U A p req)) = Inl x"
  shows "(outbound_call U A V E T G b p raw req w ::
    panic + ('e + ('h, ('b, 'd, 'tr) decoded_body) response) \<times> 'w) = Inl x"
  using assms
  by (simp add: outbound_call_def proxy_call_def trace_call_def user_agent_call_def stack_defs)

text \<open>C26: The layers below a node change nothing of a request but the headers they are for. From a user
  agent built through the API, and for a request with its endpoint, whose service name is a valid agent
  name, nothing panics, and the raw client is called once, with the method, URI, extensions and body it was
  given and with exactly these headers: the configured user agent extended by the endpoint's service and the
  runtime, whatever the caller set; \<^verbatim>\<open>Accept-Encoding\<close> and the error parameter format as the caller set
  them, with the configured values when absent; the proxy's credentials only for a plain HTTP target; every
  other header outside the trace context untouched. Its result is mapped and decoded by the error and gzip
  layers. A request without endpoint panics, and so does one whose endpoint belongs to a service with another
  name; the raw client is not called then.\<close>

theorem outbound_headers:
  fixes raw :: "(('h, 'q) request, 'w, cause, ('h, 'b) response) service"
    and G :: "'d gz_api" and E :: "'e error_api" and U :: uri_api and p :: proxy_setup
    and req :: "('h, 'q) request" and w :: 'w
  assumes "header_ok A" "text_ok V" "trace_ok A T" "built_user_agent (cc_user_agent (cached b))"
  defines "result \<equiv> outbound_call U A V E T G b p raw req w ::
    panic + ('e + ('h, ('b, 'd, 'tr) decoded_body) response) \<times> 'w"
  shows "case rq_endpoint req of
      None \<Rightarrow> result = Inl (Expect ''Endpoint missing from request extensions'')
    | Some ed \<Rightarrow>
        if valid_name (ed_service ed)
        then \<exists>req'. result = Inr (map_prod (map_sum (\<lambda>e. e) (decode_response A G)) (\<lambda>w. w) (map_error_call E raw req' w)) \<and>
          req' = req\<lparr>rq_headers := rq_headers req'\<rparr> \<and>
          (\<forall>k. \<not> is_b3 k \<longrightarrow> hd_get A (rq_headers req') k = wire_header U A b p ed req k)
        else result = Inl (Expect ''invalid agent name'')"
proof -
  have "rq_endpoint (trace_request T w (proxy_request U A p req)) = rq_endpoint req"
    by (simp add: trace_request_def proxy_request_def split: option.splits proxy_setup.splits)
  then have bad: "user_agent_request A V (cc_user_agent (cached b)) (trace_request T w (proxy_request U A p req)) =
      (case rq_endpoint req of None \<Rightarrow> Inl (Expect ''Endpoint missing from request extensions'')
       | Some ed \<Rightarrow> Inl (Expect ''invalid agent name''))"
    if "\<And>ed. rq_endpoint req = Some ed \<Longrightarrow> \<not> valid_name (ed_service ed)"
    using that by (auto simp: user_agent_request_def request_agent_def agent_or_panic_def agent_new_def
        split: option.splits)
  show ?thesis
  proof (cases "rq_endpoint req")
    case None
    with bad show ?thesis by (simp add: result_def outbound_call_panics)
  next
    case (Some ed)
    show ?thesis
    proof (cases "valid_name (ed_service ed)")
      case True
      then show ?thesis
        using outbound_call_sends [OF assms(1-3) built_user_agent_ok [OF assms(4)] Some True] Some
        by (simp add: result_def)
    next
      case False
      with bad Some show ?thesis by (simp add: result_def outbound_call_panics)
    qed
  qed
qed

definition no_trace :: "('h, unit, unit) trace_api" where
  "no_trace = \<lparr>tr_current = (\<lambda>_. None), tr_inject = (\<lambda>_ h. h)\<rparr>"

definition demo_builder :: builder where
  "demo_builder = b_error_parameter_format Json
     (builder_new 0 ''svc'' (user_agent_new \<lparr>agent_name = ''app'', agent_version = ''1.0.0''\<rparr>))"

definition demo_endpoint :: endpoint where
  "demo_endpoint = \<lparr>ed_service = ''foo'', ed_version = Some ''oops?'', ed_name = ''bar'', ed_path = ''/b''\<rparr>"

definition demo_request :: "(string \<rightharpoonup> string, unit) request" where
  "demo_request =
     \<lparr>rq_method = ''GET'', rq_uri = ''http://a/b'', rq_headers = [''user-agent'' \<mapsto> ''mine''],
      rq_endpoint = Some demo_endpoint, rq_node = None, rq_body = ()\<rparr>"

definition dead_raw :: "((string \<rightharpoonup> string, unit) request, unit, cause, (string \<rightharpoonup> string, unit) response) service" where
  "dead_raw req w = (Inl RequestBodyError, w)"

lemma demo_builder_fields:
  "cc_user_agent (cached demo_builder) = user_agent_new \<lparr>agent_name = ''app'', agent_version = ''1.0.0''\<rparr>"
  "cc_error_parameter_format (cached demo_builder) = Json"
  by (simp_all add: demo_builder_def b_error_parameter_format_def with_cached_def builder_new_def)

lemma demo_wire:
  "user_agent_display (push_agent runtime_agent (push_agent (service_agent demo_endpoint)
     (cc_user_agent (cached demo_builder)))) = ''app/1.0.0 foo/0.0.0 conjure-rust-runtime/7.8.0''"
  "header_value (cc_error_parameter_format (cached demo_builder)) = Some ''JSON''"
  "valid_name (ed_service demo_endpoint)"
  unfolding demo_builder_fields by code_simp+

lemma demo_agent_built: "built_user_agent (user_agent_new \<lparr>agent_name = ''app'', agent_version = ''1.0.0''\<rparr>)"
proof -
  have "agent_new ''app'' ''1.0.0'' = Some \<lparr>agent_name = ''app'', agent_version = ''1.0.0''\<rparr>" by code_simp
  then show ?thesis by (intro built_new built_agent_new)
qed

theorem outbound_headers_witness:
  "\<exists>req'. outbound_call plain_uri map_headers plain_text std_errors no_trace copy_gz demo_builder ProxyDirect
      dead_raw demo_request () =
      (Inr (map_prod (map_sum (\<lambda>e. e) (decode_response map_headers copy_gz)) (\<lambda>w. w)
        (map_error_call std_errors dead_raw req' ())) ::
        panic + (std_error + (string \<rightharpoonup> string, (unit, byte list \<times> byte list, unit) decoded_body) response) \<times> unit) \<and>
    hd_get map_headers (rq_headers req') ''user-agent'' = Some ''app/1.0.0 foo/0.0.0 conjure-rust-runtime/7.8.0''"
proof -
  have e: "rq_endpoint demo_request = Some demo_endpoint" by (simp add: demo_request_def)
  have b3: "\<not> is_b3 ''user-agent''" by (simp add: is_b3_def)
  have l: "text_ok plain_text" "trace_ok map_headers no_trace"
    by (simp add: text_ok_def plain_text_def, simp add: trace_ok_def no_trace_def)
  have w: "wire_header plain_uri map_headers demo_builder ProxyDirect demo_endpoint demo_request ''user-agent'' =
      Some ''app/1.0.0 foo/0.0.0 conjure-rust-runtime/7.8.0''"
    by (simp add: wire_header_def Let_def demo_wire)
  have "built_user_agent (cc_user_agent (cached demo_builder))" using demo_agent_built by (simp add: demo_builder_fields)
  from outbound_headers [OF map_headers_ok l this, of plain_uri std_errors copy_gz ProxyDirect dead_raw demo_request "()"]
  show ?thesis using b3 w e demo_wire(3) by fastforce
qed

end
