(* ===== verification/HttpError.thy ===== *)
theory HttpError
  imports Http
begin

text \<open>
  \<^verbatim>\<open>service/http_error.rs\<close>: HTTP responses that are not a success become errors. Choosing a decoder
  for the body, decoding a serialized error and turning bytes into text belong to other crates
  (\<open>codec_api\<close>), and so does reading a body as a stream: \<open>body_chunks\<close> is the list of what it yields.
\<close>

type_synonym body_stream = "(cause + byte list) list"

record ('h, 'd, 'b) codec_api =
  response_body_encoding :: "'h \<Rightarrow> 'd option"
  json_encoding :: 'd
  deserialize :: "'d \<Rightarrow> byte list \<Rightarrow> serializable_error option"
  from_utf8_lossy :: "byte list \<Rightarrow> string"
  body_chunks :: "'b \<Rightarrow> body_stream"

fun read_error_body :: "byte list \<Rightarrow> body_stream \<Rightarrow> byte list" where
  "read_error_body acc [] = acc"
| "read_error_body acc (Inl e # rest) = acc"
| "read_error_body acc (Inr chunk # rest) =
     (let acc' = acc @ chunk
      in if length acc' > 500 * 1024 then acc' else read_error_body acc' rest)"

definition parse_retry_after :: "'h header_api \<Rightarrow> 'h \<Rightarrow> duration option" where
  "parse_retry_after A h =
     (case hd_get A h ''retry-after'' of
        None \<Rightarrow> None
      | Some s \<Rightarrow> map_option from_secs (parse_uint (2 ^ 64 - 1) s))"

definition throttled_error :: "'e error_api \<Rightarrow> server_qos \<Rightarrow> duration option \<Rightarrow> 'e" where
  "throttled_error E qos retry_after =
     (let c = ThrottledError retry_after
      in case qos of
           AutomaticRetry \<Rightarrow> internal_safe E c
         | Propagate429And503ToCaller \<Rightarrow>
             (case retry_after of
                Some d \<Rightarrow> throttle_for_safe E c d
              | None \<Rightarrow> throttle_safe E c))"

definition unavailable_error :: "'e error_api \<Rightarrow> server_qos \<Rightarrow> 'e" where
  "unavailable_error E qos =
     (case qos of
        AutomaticRetry \<Rightarrow> internal_safe E UnavailableError
      | Propagate429And503ToCaller \<Rightarrow> unavailable_safe E UnavailableError)"

definition remote_error_of ::
  "'e error_api \<Rightarrow> ('h, 'd, 'b) codec_api \<Rightarrow> service_error \<Rightarrow> ('h, 'b) response \<Rightarrow> 'e" where
  "remote_error_of E C se resp =
     (let body = read_error_body [] (body_chunks C (rs_body resp));
          d = (case response_body_encoding C (rs_headers resp) of
                 Some d \<Rightarrow> d
               | None \<Rightarrow> json_encoding C);
          error = deserialize C d body;
          c = RemoteError (rs_status resp) error;
          e = (case (error, se) of
                 (Some s, PropagateToCaller) \<Rightarrow> propagated_service_safe E c s
               | (Some s, WrapInNewError) \<Rightarrow>
                   service_safe_with_instance_id E c (error_instance_id s)
               | (None, _) \<Rightarrow> internal_safe E c)
      in if error = None then with_unsafe_param E e ''body'' (from_utf8_lossy C body) else e)"

definition http_error_call ::
  "http_api \<Rightarrow> 'e error_api \<Rightarrow> 'h header_api \<Rightarrow> ('h, 'd, 'b) codec_api \<Rightarrow> server_qos \<Rightarrow> service_error \<Rightarrow>
   ('req, 'w, 'e, ('h, 'b) response) service \<Rightarrow>
   ('req, 'w, 'e, ('h, 'b) response) service" where
  "http_error_call H E A C qos se inner req w =
     (case inner req w of
        (Inl e, w') \<Rightarrow> (Inl e, w')
      | (Inr resp, w') \<Rightarrow>
          (if is_success H (rs_status resp) then (Inr resp, w')
           else if rs_status resp = TOO_MANY_REQUESTS
             then (Inl (throttled_error E qos (parse_retry_after A (rs_headers resp))), w')
           else if rs_status resp = SERVICE_UNAVAILABLE
             then (Inl (unavailable_error E qos), w')
           else (Inl (remote_error_of E C se resp), w')))"

subsection \<open>Properties\<close>

lemma read_error_body_bound:
  assumes "\<And>c. Inr c \<in> set s \<Longrightarrow> length c \<le> m" "length acc \<le> 500 * 1024"
  shows "length (read_error_body acc s) \<le> 500 * 1024 + m"
  using assms
proof (induction acc s rule: read_error_body.induct)
  case (3 acc chunk rest)
  have "length chunk \<le> m" using 3(2) by simp
  moreover have "length (read_error_body (acc @ chunk) rest) \<le> 500 * 1024 + m"
    if "\<not> length (acc @ chunk) > 500 * 1024"
    using 3(1) [OF refl that] 3(2) that by simp
  ultimately show ?case using 3(3) by (simp add: Let_def)
qed auto

lemma throttled_error_laws:
  assumes "error_ok E"
  shows "cause_of E (throttled_error E qos d) = ThrottledError d"
    "qos = AutomaticRetry \<Longrightarrow> is_service (kind E (throttled_error E qos d))"
    "qos = Propagate429And503ToCaller \<Longrightarrow> kind E (throttled_error E qos d) = Throttle d"
  using assms by (auto simp: throttled_error_def error_laws Let_def split: server_qos.splits option.splits)

lemma unavailable_error_laws:
  assumes "error_ok E"
  shows "cause_of E (unavailable_error E qos) = UnavailableError"
    "qos = AutomaticRetry \<Longrightarrow> is_service (kind E (unavailable_error E qos))"
    "qos = Propagate429And503ToCaller \<Longrightarrow> kind E (unavailable_error E qos) = Unavailable"
  using assms by (auto simp: unavailable_error_def error_laws split: server_qos.splits)

lemma remote_error_of_laws:
  assumes "error_ok E"
  shows "\<exists>s. cause_of E (remote_error_of E C se resp) = RemoteError (rs_status resp) s \<and>
             is_service (kind E (remote_error_of E C se resp)) \<and>
             (\<forall>x. s = Some x \<longrightarrow> se = PropagateToCaller \<longrightarrow>
                kind E (remote_error_of E C se resp) = Service x) \<and>
             (\<forall>x. s = Some x \<longrightarrow> se = WrapInNewError \<longrightarrow>
                (\<exists>y. kind E (remote_error_of E C se resp) = Service y \<and>
                   error_instance_id y = error_instance_id x))"
proof -
  let ?s = "deserialize C (case response_body_encoding C (rs_headers resp) of
                 Some d \<Rightarrow> d | None \<Rightarrow> json_encoding C) (read_error_body [] (body_chunks C (rs_body resp)))"
  show ?thesis
  proof (cases ?s)
    case None
    with assms show ?thesis
      by (intro exI [of _ None]) (simp add: remote_error_of_def Let_def error_laws)
  next
    case (Some x)
    have "is_service (Service x)" by (simp add: is_service_def)
    with Some assms error_ok_instance [OF assms] show ?thesis
      by (intro exI [of _ "Some x"], cases se)
        (simp_all add: remote_error_of_def Let_def error_laws)
  qed
qed

text \<open>C21: The error layer maps every response: a 2xx passes through unchanged; a 429 becomes an error
  with cause \<open>ThrottledError\<close> carrying the parsed \<^verbatim>\<open>Retry-After\<close>, a 503 one with cause
  \<open>UnavailableError\<close>, either as retryable service errors or, when QoS errors are to be propagated, as
  throttle and unavailable errors; everything else becomes a service error whose cause records the
  status.\<close>

theorem http_error_maps_responses:
  assumes "error_ok E" "http_ok H" "inner req w = (Inr resp, w')"
  shows "\<exists>r. http_error_call H E A C qos se inner req w = (r, w') \<and>
    (case r of
       Inr resp' \<Rightarrow> resp' = resp \<and> 200 \<le> rs_status resp \<and> rs_status resp < 300
     | Inl e \<Rightarrow>
         (if rs_status resp = 429 then
            cause_of E e = ThrottledError (parse_retry_after A (rs_headers resp)) \<and>
            (case qos of
               AutomaticRetry \<Rightarrow> is_service (kind E e)
             | Propagate429And503ToCaller \<Rightarrow>
                 kind E e = Throttle (parse_retry_after A (rs_headers resp)))
          else if rs_status resp = 503 then
            cause_of E e = UnavailableError \<and>
            (case qos of
               AutomaticRetry \<Rightarrow> is_service (kind E e)
             | Propagate429And503ToCaller \<Rightarrow> kind E e = Unavailable)
          else
            (rs_status resp < 200 \<or> 300 \<le> rs_status resp) \<and>
            remote_status (cause_of E e) = Some (rs_status resp) \<and> is_service (kind E e)))"
proof -
  have ok: "is_success H s \<longleftrightarrow> 200 \<le> s \<and> s < 300" for s using assms(2) by (simp add: http_ok_def)
  consider (ok) "200 \<le> rs_status resp \<and> rs_status resp < 300" | (throttled) "rs_status resp = 429"
    | (unavailable) "rs_status resp = 503"
    | (other) "rs_status resp \<noteq> 429" "rs_status resp \<noteq> 503"
        "\<not> (200 \<le> rs_status resp \<and> rs_status resp < 300)"
    by blast
  then show ?thesis
  proof cases
    case ok
    with assms(3) show ?thesis by (simp add: http_error_call_def \<open>\<And>s. is_success H s \<longleftrightarrow> _\<close>)
  next
    case throttled
    with assms(3) ok throttled_error_laws [OF assms(1)] show ?thesis
      by (cases qos) (simp_all add: http_error_call_def)
  next
    case unavailable
    with assms(3) ok unavailable_error_laws [OF assms(1)] show ?thesis
      by (cases qos) (simp_all add: http_error_call_def)
  next
    case other
    from remote_error_of_laws [OF assms(1), of C se resp] other assms(3) ok show ?thesis
      by (auto simp: http_error_call_def remote_status_def)
  qed
qed

definition std_codec :: "(string \<rightharpoonup> string, unit, body_stream) codec_api" where
  "std_codec =
     \<lparr>response_body_encoding = (\<lambda>_. Some ()), json_encoding = (), deserialize = (\<lambda>_ _. None),
      from_utf8_lossy = map (\<lambda>b. char_of (unat b)), body_chunks = (\<lambda>s. s)\<rparr>"

theorem http_error_maps_responses_witness:
  "\<exists>e. http_error_call std_http std_errors map_headers std_codec AutomaticRetry WrapInNewError
     (\<lambda>(req :: unit) (w :: unit).
        (Inr \<lparr>rs_status = 429, rs_headers = [''retry-after'' \<mapsto> ''7''], rs_body = []\<rparr>, w)) () () =
     (Inl e, ()) \<and> cause_of std_errors e = ThrottledError (Some (from_secs 7))"
proof -
  let ?resp = "\<lparr>rs_status = 429, rs_headers = [''retry-after'' \<mapsto> ''7''], rs_body = []\<rparr>
      :: (string \<rightharpoonup> string, body_stream) response"
  have pr: "parse_retry_after map_headers (rs_headers ?resp) = Some (from_secs 7)"
    by (simp add: parse_retry_after_def map_headers_def parse_uint_def digits_val_def is_digit_def
        digit_val_def)
  from http_error_maps_responses [OF std_errors_ok std_http_ok, of "\<lambda>req w. (Inr ?resp, w)" "()" "()" ?resp "()"
      map_headers std_codec AutomaticRetry WrapInNewError]
  show ?thesis
    using pr by (elim meta_impE exE conjE, simp, rename_tac r, case_tac r) simp_all
qed

text \<open>Reading the body of an error response is bounded: at most 500 KiB and one chunk are kept,
  however long the server's stream is.\<close>

theorem error_body_bounded:
  assumes "\<And>c. Inr c \<in> set s \<Longrightarrow> length c \<le> m"
  shows "length (read_error_body [] s) \<le> 512000 + m"
  using read_error_body_bound [of s m "[]"] assms by simp

theorem error_body_bounded_witness:
  "length (read_error_body [] [Inr [1, 2], Inl RequestBodyError, Inr [3]]) \<le> 512000 + 2"
  using error_body_bounded [of "[Inr [1, 2], Inl RequestBodyError, Inr [3]]" 2] by auto

end
