(* ===== verification/Retry.thy ===== *)
theory Retry
  imports HttpError
begin

text \<open>
  \<^verbatim>\<open>service/retry.rs\<close>: the retry loop. The environment (\<open>retry_env\<close>) is what an attempt meets: the
  inner service together with the writer of a streaming body, the body's \<^verbatim>\<open>reset\<close>, the random
  number generator and the timer. An exchange reports whether the transport polled the request
  body, what writing it gave, and the response. Every attempt, retry decision, reset and sleep is
  recorded in a trace, in order; an attempt is recorded with what the environment reported, whether the
  transport polled the body and how the attempt came back. \<open>rt_span\<close> is the span around an attempt: it is opened for the number of
  failures so far and the request, in the state before, and ended with the attempt's result. The arithmetic of the backoff panics as in the source: the shift
  of a \<^verbatim>\<open>u32\<close> by 32 or more, and the multiplication of a \<^verbatim>\<open>Duration\<close> that overflows.
\<close>

datatype async_body = BodyEmpty | BodyFixed "byte list" | BodyStreaming

datatype raw_body = RawEmpty | RawSingle "byte list" | RawStream

record retry_service =
  rt_idempotency :: idempotency
  rt_max_num_retries :: u32
  rt_backoff_slot_size :: duration

definition retry_layer_new :: "builder \<Rightarrow> retry_service" where
  "retry_layer_new b =
     \<lparr>rt_idempotency = cc_idempotency (cached b),
      rt_max_num_retries = cc_max_num_retries (cached b),
      rt_backoff_slot_size = cc_backoff_slot_size (cached b)\<rparr>"

record ('h, 'e, 'r, 'w) retry_env =
  rt_exchange :: "('h, raw_body) request \<Rightarrow> 'w \<Rightarrow> (bool \<times> ('e + unit) \<times> ('e + 'r)) \<times> 'w"
  rt_reset :: "'w \<Rightarrow> bool \<times> 'w"
  rt_random :: "duration \<Rightarrow> 'w \<Rightarrow> duration \<times> 'w"
  rt_sleep :: "duration \<Rightarrow> 'w \<Rightarrow> 'w"
  rt_span :: "nat \<Rightarrow> ('h, async_body) request \<Rightarrow> 'w \<Rightarrow> 'e + 'r \<Rightarrow> 'w \<Rightarrow> 'w"

text \<open>How an attempt came back: with a response, or with an error of the kind of a service error or not.\<close>

datatype attempt_reply =
    Answered
  | Failed bool cause

datatype retry_event =
    Attempt nat bool attempt_reply
  | Retrying cause "duration option"
  | ResetBody bool
  | Sleep duration

datatype ('e, 'r) attempt_outcome =
    OutcomeOk 'r
  | OutcomeErr 'e
  | OutcomeRetry 'e "duration option"

definition is_request_idempotent :: "http_api \<Rightarrow> idempotency \<Rightarrow> string \<Rightarrow> bool" where
  "is_request_idempotent H i m =
     (case i of Always \<Rightarrow> True | ByMethod \<Rightarrow> is_idempotent H m | Never \<Rightarrow> False)"

definition clone_request :: "('h, 'a) request \<Rightarrow> 'b \<Rightarrow> ('h, 'b) request" where
  "clone_request parts body =
     \<lparr>rq_method = rq_method parts, rq_uri = rq_uri parts, rq_headers = rq_headers parts,
      rq_endpoint = rq_endpoint parts, rq_node = None, rq_body = body\<rparr>"

fun raw_request_body :: "async_body \<Rightarrow> raw_body" where
  "raw_request_body BodyEmpty = RawEmpty"
| "raw_request_body (BodyFixed bytes) = RawSingle bytes"
| "raw_request_body BodyStreaming = RawStream"

fun has_body_error :: "cause \<Rightarrow> bool" where
  "has_body_error RequestBodyError = True"
| "has_body_error (RawClientError c) = has_body_error c"
| "has_body_error (Foreign _ (Some c)) = has_body_error c"
| "has_body_error _ = False"

definition deconflict_errors :: "'e error_api \<Rightarrow> 'e \<Rightarrow> 'e \<Rightarrow> 'e" where
  "deconflict_errors E body_error hyper_error =
     (if has_body_error (cause_of E hyper_error) then body_error else hyper_error)"

text \<open>
  The writer of an empty or fixed body does nothing, and the writer of a streaming body returns
  without writing when the transport never polls it. The second component tells whether the body
  was written to, that is whether it needs a reset before the next attempt.
\<close>

definition writer_result :: "async_body \<Rightarrow> bool \<Rightarrow> 'e + unit \<Rightarrow> ('e + unit) \<times> bool" where
  "writer_result body polled out =
     (if body = BodyStreaming \<and> polled then (out, True) else (Inr (), False))"

definition send_raw ::
  "'e error_api \<Rightarrow> ('h, 'e, 'r, 'w) retry_env \<Rightarrow> ('h, async_body) request \<Rightarrow> 'w \<Rightarrow>
   ('e + 'r) \<times> bool \<times> bool \<times> 'w" where
  "send_raw E env req w =
     (case rt_exchange env (clone_request req (raw_request_body (rq_body req))) w of
        ((polled, out, resp), w') \<Rightarrow>
          (case writer_result (rq_body req) polled out of
             (body_result, needs_reset) \<Rightarrow>
               ((case (body_result, resp) of
                   (Inr _, Inr r) \<Rightarrow> Inr r
                 | (Inr _, Inl e) \<Rightarrow> Inl e
                 | (Inl _, Inr r) \<Rightarrow> Inr r
                 | (Inl b, Inl h) \<Rightarrow> Inl (deconflict_errors E b h)),
                polled, needs_reset, w')))"

definition classify :: "'e error_api \<Rightarrow> bool \<Rightarrow> 'e \<Rightarrow> ('e, 'r) attempt_outcome" where
  "classify E idempotent e =
     (if \<not> is_service (kind E e) then OutcomeErr e
      else
        (case cause_of E e of
           ThrottledError retry_after \<Rightarrow> OutcomeRetry e retry_after
         | UnavailableError \<Rightarrow> OutcomeRetry e None
         | c \<Rightarrow>
             (if idempotent \<and> is_raw_client_error c then OutcomeRetry e None
              else if idempotent \<and> remote_status c = Some INTERNAL_SERVER_ERROR
                then OutcomeRetry e None
              else OutcomeErr e)))"

definition send_attempt ::
  "'e error_api \<Rightarrow> ('h, 'e, 'r, 'w) retry_env \<Rightarrow> nat \<Rightarrow> bool \<Rightarrow> ('h, async_body) request \<Rightarrow> 'w \<Rightarrow>
   ('e, 'r) attempt_outcome \<times> bool \<times> bool \<times> 'w" where
  "send_attempt E env attempt idempotent req w =
     (case send_raw E env req w of
        (r, polled, nr, w') \<Rightarrow>
          ((case r of Inr x \<Rightarrow> OutcomeOk x | Inl e \<Rightarrow> classify E idempotent e), polled, nr,
           rt_span env attempt req w r w'))"

definition backoff ::
  "retry_service \<Rightarrow> ('h, 'e, 'r, 'w) retry_env \<Rightarrow> nat \<Rightarrow> duration option \<Rightarrow> 'w \<Rightarrow>
   panic + (duration \<times> 'w)" where
  "backoff s env attempt retry_after w =
     (case retry_after of
        Some d \<Rightarrow> Inr (d, w)
      | None \<Rightarrow>
          (if attempt - 1 \<ge> 32 then Inl ArithmeticOverflow
           else
             let mx = rt_backoff_slot_size s * 2 ^ (attempt - 1)
             in if mx > DURATION_MAX then Inl ArithmeticOverflow
                else if mx = 0 then Inr (0, w)
                else Inr (rt_random env mx w)))"

definition prepare_for_retry ::
  "retry_service \<Rightarrow> ('h, 'e, 'r, 'w) retry_env \<Rightarrow> nat \<Rightarrow> bool \<Rightarrow> 'e \<Rightarrow> duration option \<Rightarrow> 'w \<Rightarrow>
   panic + (('e + unit) \<times> 'w \<times> retry_event list)" where
  "prepare_for_retry s env attempt needs_reset e retry_after w =
     (if attempt \<ge> 2 ^ 32 then Inl ArithmeticOverflow
      else if attempt > unat (rt_max_num_retries s) then Inr (Inl e, w, [])
      else
        (case (if needs_reset then rt_reset env w else (True, w)) of
           (ok, w1) \<Rightarrow>
             let evs = (if needs_reset then [ResetBody ok] else [])
             in if needs_reset \<and> \<not> ok then Inr (Inl e, w1, evs)
                else
                  and_then (backoff s env attempt retry_after w1) (\<lambda>(d, w2).
                    Inr (Inr (), rt_sleep env d w2, evs @ [Sleep d]))))"

lemma prepare_for_retry_bound:
  "prepare_for_retry s env attempt nr e ra w = Inr (Inr u, w', evs) \<Longrightarrow>
     attempt \<le> unat (rt_max_num_retries s)"
  by (auto simp: prepare_for_retry_def split: if_splits)

definition reply_of :: "'e error_api \<Rightarrow> ('e, 'r) attempt_outcome \<Rightarrow> attempt_reply" where
  "reply_of E out =
     (case out of
        OutcomeOk _ \<Rightarrow> Answered
      | OutcomeErr e \<Rightarrow> Failed (is_service (kind E e)) (cause_of E e)
      | OutcomeRetry e _ \<Rightarrow> Failed (is_service (kind E e)) (cause_of E e))"

text \<open>\<open>attempt\<close> counts the failures so far; the counter of the source is this number.\<close>

function retry_loop ::
  "retry_service \<Rightarrow> 'e error_api \<Rightarrow> ('h, 'e, 'r, 'w) retry_env \<Rightarrow> bool \<Rightarrow> nat \<Rightarrow>
   ('h, async_body) request \<Rightarrow> 'w \<Rightarrow> panic + (('e + 'r) \<times> 'w \<times> retry_event list)" where
  "retry_loop s E env idempotent attempt req w =
     (case send_attempt E env attempt idempotent (clone_request req (rq_body req)) w of
        (out, polled, nr, w1) \<Rightarrow>
          let ev = Attempt attempt polled (reply_of E out)
          in (case out of
                OutcomeOk r \<Rightarrow> Inr (Inr r, w1, [ev])
              | OutcomeErr e \<Rightarrow> Inr (Inl e, w1, [ev])
              | OutcomeRetry e ra \<Rightarrow>
                  (case prepare_for_retry s env (attempt + 1) nr e ra w1 of
                     Inl p \<Rightarrow> Inl p
                   | Inr (Inl e', w2, evs) \<Rightarrow> Inr (Inl e', w2, ev # evs)
                   | Inr (Inr _, w2, evs) \<Rightarrow>
                       (case retry_loop s E env idempotent (attempt + 1) req w2 of
                          Inl p \<Rightarrow> Inl p
                        | Inr (res, w3, evs') \<Rightarrow>
                            Inr (res, w3, ev # Retrying (cause_of E e) ra # evs @ evs')))))"
  by pat_completeness auto

termination
  by (relation "measure (\<lambda>(s, E, env, i, attempt, req, w). Suc (unat (rt_max_num_retries s)) - attempt)")
    (auto dest!: prepare_for_retry_bound)

declare retry_loop.simps [simp del]

definition retry_call ::
  "http_api \<Rightarrow> 'e error_api \<Rightarrow> retry_service \<Rightarrow> ('h, 'e, 'r, 'w) retry_env \<Rightarrow>
   ('h, async_body) request \<Rightarrow> 'w \<Rightarrow> panic + (('e + 'r) \<times> 'w \<times> retry_event list)" where
  "retry_call H E s env req w =
     retry_loop s E env (is_request_idempotent H (rt_idempotency s) (rq_method req)) 0 req w"

subsection \<open>What a run of the loop looks like\<close>

definition retryable :: "bool \<Rightarrow> cause \<Rightarrow> bool" where
  "retryable idempotent c \<longleftrightarrow>
     (case c of
        ThrottledError _ \<Rightarrow> True
      | UnavailableError \<Rightarrow> True
      | RawClientError _ \<Rightarrow> idempotent
      | RemoteError st _ \<Rightarrow> idempotent \<and> st = 500
      | _ \<Rightarrow> False)"

definition should_retry :: "bool \<Rightarrow> attempt_reply \<Rightarrow> bool" where
  "should_retry idempotent reply \<longleftrightarrow>
     (case reply of Answered \<Rightarrow> False | Failed service c \<Rightarrow> service \<and> retryable idempotent c)"

text \<open>Only a throttled response says when to come back, and it need not.\<close>

definition retry_after_of :: "cause \<Rightarrow> duration option" where
  "retry_after_of c = (case c of ThrottledError ra \<Rightarrow> ra | _ \<Rightarrow> None)"

definition sleep_ok :: "retry_service \<Rightarrow> nat \<Rightarrow> duration option \<Rightarrow> duration \<Rightarrow> bool" where
  "sleep_ok s attempt ra d \<longleftrightarrow>
     (case ra of
        Some x \<Rightarrow> d = x
      | None \<Rightarrow> d < rt_backoff_slot_size s * 2 ^ attempt \<or> rt_backoff_slot_size s = 0 \<and> d = 0)"

definition written :: "async_body \<Rightarrow> bool \<Rightarrow> bool" where
  "written body polled \<longleftrightarrow> body = BodyStreaming \<and> polled"

text \<open>
  The specification of a run from the attempt with a given number. It ends with an attempt whose reply is not
  to be retried or that was the last one allowed, or after one with a body that was written to and could not
  be reset. Between two attempts there is a reply that is to be retried, the reset of the body if and only if it
  was written to, and one sleep.
\<close>

inductive retry_trace :: "retry_service \<Rightarrow> bool \<Rightarrow> async_body \<Rightarrow> nat \<Rightarrow> retry_event list \<Rightarrow> bool"
  for s :: retry_service and idempotent :: bool and body :: async_body where
  trace_last: "a \<le> unat (rt_max_num_retries s) \<Longrightarrow>
    a = unat (rt_max_num_retries s) \<or> \<not> should_retry idempotent reply \<Longrightarrow>
    retry_trace s idempotent body a [Attempt a polled reply]"
| trace_stuck: "a < unat (rt_max_num_retries s) \<Longrightarrow> should_retry idempotent reply \<Longrightarrow> written body polled \<Longrightarrow>
    retry_trace s idempotent body a [Attempt a polled reply, ResetBody False]"
| trace_again: "a < unat (rt_max_num_retries s) \<Longrightarrow> should_retry idempotent (Failed service c) \<Longrightarrow>
    resets = (if written body polled then [ResetBody True] else []) \<Longrightarrow>
    sleep_ok s a (retry_after_of c) d \<Longrightarrow> retry_trace s idempotent body (a + 1) t \<Longrightarrow>
    retry_trace s idempotent body a
      (Attempt a polled (Failed service c) # Retrying c (retry_after_of c) # resets @ Sleep d # t)"

definition random_ok :: "('h, 'e, 'r, 'w) retry_env \<Rightarrow> bool" where
  "random_ok env \<longleftrightarrow> (\<forall>mx w. 0 < mx \<longrightarrow> fst (rt_random env mx w) < mx)"

lemma classify_cases:
  fixes E :: "'e error_api"
  defines "reply \<equiv> \<lambda>e. Failed (is_service (kind E e)) (cause_of E e)"
  shows "(classify E i e = (OutcomeRetry e (retry_after_of (cause_of E e)) :: ('e, 'r) attempt_outcome) \<and> should_retry i (reply e)) \<or>
    (classify E i e = (OutcomeErr e :: ('e, 'r) attempt_outcome) \<and> \<not> should_retry i (reply e))"
  by (cases "cause_of E e") (auto simp: reply_def classify_def should_retry_def retryable_def retry_after_of_def
      is_raw_client_error_def remote_status_def)

text \<open>An attempt's outcome and events agree with what the environment reported.\<close>

lemma send_attempt_reply:
  fixes E :: "'b error_api" and out :: "('b, 'c) attempt_outcome"
  assumes "send_attempt E env a i req w = (out, polled, nr, w')"
  shows "nr = written (rq_body req) polled" "out = OutcomeErr e \<Longrightarrow> \<not> should_retry i (reply_of E out)"
    "out = OutcomeOk r \<Longrightarrow> reply_of E out = Answered"
    "out = OutcomeRetry e ra \<Longrightarrow> should_retry i (reply_of E out) \<and> ra = retry_after_of (cause_of E e) \<and>
       (\<exists>service. reply_of E out = Failed service (cause_of E e))"
proof -
  show "nr = written (rq_body req) polled"
    using assms by (auto simp: send_attempt_def send_raw_def writer_result_def written_def split: prod.splits if_splits)
  obtain y where y: "out = (case y of Inr r \<Rightarrow> OutcomeOk r | Inl e \<Rightarrow> classify E i e)"
    using assms by (auto simp: send_attempt_def split: prod.splits)
  have cls: "(classify E i x = (OutcomeRetry x (retry_after_of (cause_of E x)) :: ('b, 'c) attempt_outcome) \<and>
        should_retry i (Failed (is_service (kind E x)) (cause_of E x))) \<or>
      (classify E i x = (OutcomeErr x :: ('b, 'c) attempt_outcome) \<and>
        \<not> should_retry i (Failed (is_service (kind E x)) (cause_of E x)))" for x
    using classify_cases [of E i x] .
  have outs: "(\<exists>r. out = OutcomeOk r) \<or> (\<exists>x. out = classify E i x)"
    using y by (cases y) auto
  show "\<not> should_retry i (reply_of E out)" if out: "out = OutcomeErr e"
  proof -
    obtain x where "classify E i x = (OutcomeErr e :: ('b, 'c) attempt_outcome)" using outs out by auto
    with cls [of x] have "\<not> should_retry i (Failed (is_service (kind E e)) (cause_of E e))" by auto
    then show ?thesis by (simp add: out reply_of_def)
  qed
  show "reply_of E out = Answered" if "out = OutcomeOk r"
    using that by (simp add: reply_of_def)
  show "should_retry i (reply_of E out) \<and> ra = retry_after_of (cause_of E e) \<and>
       (\<exists>service. reply_of E out = Failed service (cause_of E e))" if out: "out = OutcomeRetry e ra"
  proof -
    obtain x where "classify E i x = (OutcomeRetry e ra :: ('b, 'c) attempt_outcome)" using outs out by auto
    with cls [of x] have "should_retry i (Failed (is_service (kind E e)) (cause_of E e))"
      "ra = retry_after_of (cause_of E e)" by auto
    then show ?thesis by (simp add: out reply_of_def)
  qed
qed

lemma backoff_sleep_ok:
  assumes "random_ok env" "backoff s env (a + 1) ra w = Inr (d, w')"
  shows "sleep_ok s a ra d"
proof (cases ra)
  case None
  let ?mx = "rt_backoff_slot_size s * 2 ^ a"
  from None assms(2) have "?mx = 0 \<and> d = 0 \<or> ?mx \<noteq> 0 \<and> rt_random env ?mx w = (d, w')"
    by (auto simp: backoff_def Let_def split: if_splits)
  moreover have "d < ?mx" if "?mx \<noteq> 0" "rt_random env ?mx w = (d, w')"
    using that assms(1) unfolding random_ok_def by (metis fst_conv neq0_conv)
  ultimately show ?thesis using None by (auto simp: sleep_ok_def)
qed (use assms(2) in \<open>simp add: backoff_def sleep_ok_def\<close>)

lemma prepare_Go:
  assumes "random_ok env" "prepare_for_retry s env (a + 1) nr e ra w = Inr (Inr u, w', evs)"
  shows "\<exists>d. sleep_ok s a ra d \<and> a < unat (rt_max_num_retries s) \<and>
           evs = (if nr then [ResetBody True] else []) @ [Sleep d]"
  using assms backoff_sleep_ok [OF assms(1)]
  by (fastforce simp: prepare_for_retry_def and_then_Inr_iff Let_def split: if_splits prod.splits)

lemma prepare_Stop:
  assumes "prepare_for_retry s env (a + 1) nr e ra w = Inr (Inl e', w', evs)" "a \<le> unat (rt_max_num_retries s)"
  shows "e' = e \<and> (evs = [] \<and> a = unat (rt_max_num_retries s) \<or>
    nr \<and> a < unat (rt_max_num_retries s) \<and> evs = [ResetBody False])"
  using assms
  by (auto simp: prepare_for_retry_def and_then_Inr_iff Let_def split: if_splits prod.splits)

text \<open>Whether a run ended with a response.\<close>

definition ends_answered :: "retry_event list \<Rightarrow> bool" where
  "ends_answered tr \<longleftrightarrow> (case last tr of Attempt _ _ Answered \<Rightarrow> True | _ \<Rightarrow> False)"

lemma retry_trace_nonempty: "retry_trace s i body a tr \<Longrightarrow> tr \<noteq> []"
  by (induction rule: retry_trace.induct) simp_all

lemma retry_loop_trace_ends:
  assumes "random_ok env" "a \<le> unat (rt_max_num_retries s)"
    and "retry_loop s E env i a req w = Inr (res, w', tr)"
  shows "retry_trace s i (rq_body req) a tr \<and> ((\<exists>r. res = Inr r) \<longleftrightarrow> ends_answered tr)"
  using assms
proof (induction s E env i a req w arbitrary: res w' tr rule: retry_loop.induct)
  case (1 s E env i a req w)
  obtain out polled nr w1 where
    at: "send_attempt E env a i (clone_request req (rq_body req)) w = (out, polled, nr, w1)"
    by (metis prod_cases4)
  note sent = send_attempt_reply [OF at]
  have nr: "nr = written (rq_body req) polled" using sent(1) by (simp add: clone_request_def)
  note simps = retry_loop.simps [of s E env i a]
  show ?case
  proof (cases out)
    case (OutcomeOk r)
    with 1(4) at sent(3) [OF OutcomeOk] have "tr = [Attempt a polled Answered]" "res = Inr r"
      by (simp_all add: simps Let_def)
    then show ?thesis using 1(3) by (auto simp: ends_answered_def should_retry_def intro: trace_last)
  next
    case (OutcomeErr e)
    with 1(4) at have "tr = [Attempt a polled (reply_of E out)]" "res = Inl e" by (simp_all add: simps Let_def)
    then show ?thesis using 1(3) sent(2) [OF OutcomeErr] OutcomeErr
      by (auto simp: ends_answered_def reply_of_def intro: trace_last)
  next
    case (OutcomeRetry e ra)
    note retry = sent(4) [OF OutcomeRetry]
    then obtain service where reply: "reply_of E out = Failed service (cause_of E e)" by blast
    show ?thesis
    proof (cases "prepare_for_retry s env (a + 1) nr e ra w1")
      case (Inr p)
      then obtain out2 w2 evs where p: "prepare_for_retry s env (a + 1) nr e ra w1 = Inr (out2, w2, evs)"
        by (metis prod_cases3)
      show ?thesis
      proof (cases out2)
        case (Inl e')
        with p 1(4) at OutcomeRetry have "tr = Attempt a polled (reply_of E out) # evs" "res = Inl e'"
          by (simp_all add: simps Let_def)
        with prepare_Stop [OF p [unfolded Inl] 1(3)] 1(3) nr retry reply show ?thesis
          by (auto simp: ends_answered_def intro: trace_last trace_stuck)
      next
        case out2: (Inr u)
        with p 1(4) at OutcomeRetry obtain t where
          t: "retry_loop s E env i (a + 1) req w2 = Inr (res, w', t)"
          "tr = Attempt a polled (reply_of E out) # Retrying (cause_of E e) ra # evs @ t"
          by (auto simp: simps Let_def split: sum.splits)
        obtain d where d: "sleep_ok s a ra d" "a < unat (rt_max_num_retries s)"
          "evs = (if nr then [ResetBody True] else []) @ [Sleep d]"
          using prepare_Go [OF 1(2) p [unfolded out2]] by blast
        have IH: "retry_trace s i (rq_body req) (a + 1) t" "(\<exists>r. res = Inr r) \<longleftrightarrow> ends_answered t"
          using 1(1) [OF at [symmetric] refl refl refl OutcomeRetry p refl out2 refl 1(2) _ t(1)] d(2) by simp_all
        have "retry_trace s i (rq_body req) a
            (Attempt a polled (Failed service (cause_of E e)) # Retrying (cause_of E e) (retry_after_of (cause_of E e)) #
             (if written (rq_body req) polled then [ResetBody True] else []) @ Sleep d # t)"
          using d retry reply IH(1) by (intro trace_again) auto
        moreover have "last tr = last t" using retry_trace_nonempty [OF IH(1)] t(2) d(3) by simp
        ultimately show ?thesis using t(2) d(3) nr retry reply IH(2) by (simp add: ends_answered_def)
      qed
    qed (use 1(4) at OutcomeRetry in \<open>simp add: simps Let_def\<close>)
  qed
qed

lemmas retry_loop_trace = conjunct1 [OF retry_loop_trace_ends]

definition attempts :: "retry_event list \<Rightarrow> nat" where
  "attempts tr = length (filter (\<lambda>e. case e of Attempt _ _ _ \<Rightarrow> True | _ \<Rightarrow> False) tr)"

lemma attempts_simps [simp]:
  "attempts [] = 0" "attempts (Attempt a p r # t) = Suc (attempts t)" "attempts (Retrying c ra # t) = attempts t"
  "attempts (ResetBody b # t) = attempts t" "attempts (Sleep d # t) = attempts t"
  by (simp_all add: attempts_def)

lemma retry_trace_bound:
  "retry_trace s i body a tr \<Longrightarrow> 1 \<le> attempts tr \<and> a + attempts tr \<le> unat (rt_max_num_retries s) + 1"
  by (induction rule: retry_trace.induct) auto

lemma retry_trace_causes:
  "retry_trace s i body a tr \<Longrightarrow> Retrying c ra \<in> set tr \<Longrightarrow> retryable i c \<and> ra = retry_after_of c"
  by (induction rule: retry_trace.induct) (auto simp: should_retry_def split: if_splits)

lemma retry_trace_reset_last:
  "retry_trace s i body a tr \<Longrightarrow> ResetBody False \<in> set tr \<Longrightarrow> last tr = ResetBody False"
  by (induction rule: retry_trace.induct) (auto split: if_splits dest: retry_trace_nonempty)

text \<open>
  What the transport reported of an attempt of a request: whether it polled the body, and a response or an error.
  The error is the writer's when the transport's was caused by the body, as the transport then only says that
  the body failed, and the transport's otherwise.
\<close>

definition reported ::
  "'e error_api \<Rightarrow> ('h, 'e, 'r, 'w) retry_env \<Rightarrow> ('h, async_body) request \<Rightarrow> bool \<Rightarrow> attempt_reply \<Rightarrow> bool" where
  "reported E env req polled reply \<longleftrightarrow>
     (\<exists>w out resp w'. rt_exchange env (clone_request req (raw_request_body (rq_body req))) w = ((polled, out, resp), w') \<and>
        (case reply of
           Answered \<Rightarrow> \<exists>r. resp = Inr r
         | Failed service c \<Rightarrow>
             \<exists>h e. resp = Inl h \<and> service = is_service (kind E e) \<and> c = cause_of E e \<and>
               (if written (rq_body req) polled \<and> has_body_error (cause_of E h) \<and> isl out then out = Inl e
                else e = h)))"

lemma reported_clone: "reported E env (clone_request r (rq_body r)) = reported E env r"
proof -
  have "clone_request (clone_request r (rq_body r)) b' = clone_request r b'" for b' :: raw_body
    by (simp add: clone_request_def)
  moreover have "rq_body (clone_request r (rq_body r)) = rq_body r" by (simp add: clone_request_def)
  ultimately show ?thesis by (intro ext) (simp only: reported_def)
qed

lemma classify_reply:
  "reply_of E (classify E i e :: ('e, 'r) attempt_outcome) = Failed (is_service (kind E e)) (cause_of E e)"
  using classify_cases [of E i e, where 'r = 'r] by (elim disjE conjE) (simp_all add: reply_of_def)

lemma send_attempt_reported:
  fixes out :: "('e, 'r) attempt_outcome"
  assumes "send_attempt E env a i req w = (out, polled, nr, w')"
  shows "reported E env req polled (reply_of E out)"
proof -
  obtain p wr resp w1 where x: "rt_exchange env (clone_request req (raw_request_body (rq_body req))) w = ((p, wr, resp), w1)"
    by (metis surj_pair)
  obtain b n where b: "writer_result (rq_body req) p wr = (b, n)" by fastforce
  have p: "polled = p" using assms by (simp add: send_attempt_def send_raw_def x b)
  show ?thesis
  proof (cases resp)
    case (Inr r)
    with assms have "out = OutcomeOk r" by (cases b) (simp_all add: send_attempt_def send_raw_def x b)
    then have "reply_of E out = Answered" by (simp add: reply_of_def)
    with x Inr p show ?thesis unfolding reported_def by fastforce
  next
    case (Inl h)
    define e where "e = (case b of Inr _ \<Rightarrow> h | Inl b \<Rightarrow> deconflict_errors E b h)"
    have "out = classify E i e" using assms Inl by (cases b) (simp_all add: send_attempt_def send_raw_def x b e_def)
    then have reply: "reply_of E out = Failed (is_service (kind E e)) (cause_of E e)" using classify_reply by simp
    have "if written (rq_body req) p \<and> has_body_error (cause_of E h) \<and> isl wr then wr = Inl e else e = h"
      using b by (cases wr) (auto simp: e_def writer_result_def written_def deconflict_errors_def split: if_splits)
    then have "\<exists>h' e'. resp = Inl h' \<and> is_service (kind E e) = is_service (kind E e') \<and> cause_of E e = cause_of E e' \<and>
        (if written (rq_body req) p \<and> has_body_error (cause_of E h') \<and> isl wr then wr = Inl e' else e' = h')"
      using Inl by blast
    then show ?thesis unfolding reported_def reply attempt_reply.case p using x by blast
  qed
qed

lemma retry_loop_reported:
  assumes "retry_loop s E env i a req w = Inr (res, w', tr)" "Attempt n polled reply \<in> set tr"
  shows "reported E env req polled reply"
  using assms
proof (induction s E env i a req w arbitrary: res w' tr rule: retry_loop.induct)
  case (1 s E env i a req w)
  obtain out p nr w1 where
    at: "send_attempt E env a i (clone_request req (rq_body req)) w = (out, p, nr, w1)"
    by (metis prod_cases4)
  have here: "reported E env req p (reply_of E out)" using send_attempt_reported [OF at] by (simp add: reported_clone)
  note simps = retry_loop.simps [of s E env i a]
  show ?case
  proof (cases out)
    case (OutcomeRetry e ra)
    then obtain out2 w2 evs where q: "prepare_for_retry s env (a + 1) nr e ra w1 = Inr (out2, w2, evs)"
      using 1(2) at by (auto simp: simps Let_def split: sum.splits)
    have evs: "Attempt n polled reply \<notin> set evs"
      using q by (auto simp: prepare_for_retry_def and_then_Inr_iff Let_def split: if_splits prod.splits)
    show ?thesis
    proof (cases out2)
      case (Inl e')
      with q at OutcomeRetry 1(2,3) evs here show ?thesis by (auto simp: simps Let_def)
    next
      case (Inr u)
      with q at OutcomeRetry 1(2) obtain t where
        t: "retry_loop s E env i (a + 1) req w2 = Inr (res, w', t)"
        "tr = Attempt a p (reply_of E out) # Retrying (cause_of E e) ra # evs @ t"
        by (auto simp: simps Let_def split: sum.splits)
      have "Attempt n polled reply \<in> set t \<Longrightarrow> ?thesis"
        using 1(1) [OF at [symmetric] refl refl refl OutcomeRetry q refl Inr refl t(1)] .
      with t(2) evs here 1(3) show ?thesis by auto
    qed
  qed (use 1(2,3) at here in \<open>auto simp: simps Let_def\<close>)
qed

subsection \<open>The loop returns\<close>

definition backoff_fits :: "retry_service \<Rightarrow> bool" where
  "backoff_fits s \<longleftrightarrow>
     unat (rt_max_num_retries s) \<le> 32 \<and> rt_backoff_slot_size s * 2 ^ 31 \<le> DURATION_MAX"

lemma backoff_total:
  assumes "backoff_fits s" "a < unat (rt_max_num_retries s)"
  shows "\<exists>d w'. backoff s env (a + 1) ra w = Inr (d, w')"
proof (cases ra)
  case None
  have a: "a \<le> 31" using assms by (simp add: backoff_fits_def)
  then have "rt_backoff_slot_size s * 2 ^ a \<le> rt_backoff_slot_size s * 2 ^ 31"
    by (intro mult_le_mono2 power_increasing) auto
  also have "\<dots> \<le> DURATION_MAX" using assms by (simp add: backoff_fits_def)
  finally show ?thesis using a None
    by (cases "rt_random env (rt_backoff_slot_size s * 2 ^ a) w") (auto simp: backoff_def Let_def)
qed (simp add: backoff_def)

lemma prepare_total:
  assumes "backoff_fits s" "a \<le> unat (rt_max_num_retries s)"
  shows "\<exists>r w' evs. prepare_for_retry s env (a + 1) nr e ra w = Inr (r, w', evs)"
proof (cases "a < unat (rt_max_num_retries s)")
  case True
  obtain ok w1 where ok: "(if nr then rt_reset env w else (True, w)) = (ok, w1)" by fastforce
  obtain d w2 where "backoff s env (a + 1) ra w1 = Inr (d, w2)"
    using backoff_total [OF assms(1) True, of env ra w1] by blast
  with ok True assms show ?thesis
    by (auto simp: prepare_for_retry_def Let_def backoff_fits_def)
qed (use assms in \<open>simp add: prepare_for_retry_def backoff_fits_def\<close>)

lemma retry_loop_total:
  assumes "backoff_fits s" "a \<le> unat (rt_max_num_retries s)"
  shows "\<exists>res w' tr. retry_loop s E env i a req w = Inr (res, w', tr)"
  using assms
proof (induction s E env i a req w rule: retry_loop.induct)
  case (1 s E env i a req w)
  obtain out polled nr w1 where
    at: "send_attempt E env a i (clone_request req (rq_body req)) w = (out, polled, nr, w1)"
    by (metis prod_cases4)
  show ?case
  proof (cases out)
    case (OutcomeRetry e ra)
    obtain out2 w2 evs where p: "prepare_for_retry s env (a + 1) nr e ra w1 = Inr (out2, w2, evs)"
      using prepare_total [OF 1(2,3), of env nr e ra w1] by blast
    show ?thesis
    proof (cases out2)
      case (Inl e')
      with p at OutcomeRetry show ?thesis by (simp add: retry_loop.simps [of s E env i a] Let_def)
    next
      case (Inr u)
      have "a + 1 \<le> unat (rt_max_num_retries s)" using prepare_for_retry_bound [OF p [unfolded Inr]] .
      then obtain res w' t where "retry_loop s E env i (a + 1) req w2 = Inr (res, w', t)"
        using 1(1) [OF at [symmetric] refl refl refl OutcomeRetry p refl Inr refl 1(2)] by blast
      with p at OutcomeRetry Inr show ?thesis by (simp add: retry_loop.simps [of s E env i a] Let_def)
    qed
  qed (use at in \<open>simp_all add: retry_loop.simps [of s E env i a] Let_def\<close>)
qed

text \<open>Nothing but the arithmetic of the backoff panics.\<close>

lemma retry_loop_panics: "retry_loop s E env i a req w = Inl p \<Longrightarrow> p = ArithmeticOverflow"
proof (induction s E env i a req w rule: retry_loop.induct)
  case (1 s E env i a req w)
  obtain out polled nr w1 where
    at: "send_attempt E env a i (clone_request req (rq_body req)) w = (out, polled, nr, w1)"
    by (metis prod_cases4)
  note simps = retry_loop.simps [of s E env i a]
  have prep: "p = ArithmeticOverflow" if "prepare_for_retry s env (a + 1) nr e ra w1 = Inl p" for e ra
    using that by (auto simp: prepare_for_retry_def backoff_def Let_def split: if_splits option.splits prod.splits)
  show ?case
  proof (cases out)
    case (OutcomeRetry e ra)
    show ?thesis
    proof (cases "prepare_for_retry s env (a + 1) nr e ra w1")
      case (Inr x)
      then obtain out2 w2 evs where p: "prepare_for_retry s env (a + 1) nr e ra w1 = Inr (out2, w2, evs)"
        by (metis prod_cases3)
      with 1(2) at OutcomeRetry obtain u where out2: "out2 = Inr u" "retry_loop s E env i (a + 1) req w2 = Inl p"
        by (cases out2) (auto simp: simps Let_def split: sum.splits)
      from 1(1) [OF at [symmetric] refl refl refl OutcomeRetry p refl out2(1) refl out2(2)] show ?thesis .
    qed (use prep 1(2) at OutcomeRetry in \<open>auto simp: simps Let_def\<close>)
  qed (use 1(2) at in \<open>simp_all add: simps Let_def\<close>)
qed

subsection \<open>A concrete environment\<close>

text \<open>A server that reads the body and answers 503 to the first \<open>k\<close> attempts; the state counts the attempts.\<close>

definition flaky_env :: "nat \<Rightarrow> (unit, std_error, unit, nat) retry_env" where
  "flaky_env k =
     \<lparr>rt_exchange = (\<lambda>req w. ((True, Inr (),
        if w < k then Inl (internal_safe std_errors UnavailableError) else Inr ()), w + 1)),
      rt_reset = (\<lambda>w. (True, w)), rt_random = (\<lambda>mx w. (mx - 1, w)), rt_sleep = (\<lambda>d w. w), rt_span = (\<lambda>a req w r w'. w')\<rparr>"

definition demo_call :: "string \<Rightarrow> (unit, async_body) request" where
  "demo_call m =
     \<lparr>rq_method = m, rq_uri = ''/'', rq_headers = (), rq_endpoint = None, rq_node = None,
      rq_body = BodyEmpty\<rparr>"

definition demo_retry :: "u32 \<Rightarrow> retry_service" where
  "demo_retry n = \<lparr>rt_idempotency = ByMethod, rt_max_num_retries = n, rt_backoff_slot_size = 250\<rparr>"

lemma flaky_random_ok: "random_ok (flaky_env k)"
  by (simp add: random_ok_def flaky_env_def)

lemma flaky_attempt:
  "send_attempt std_errors (flaky_env k) a i req w =
     (if w < k then OutcomeRetry (internal_safe std_errors UnavailableError) None else OutcomeOk (),
      True, rq_body req = BodyStreaming, w + 1)"
  by (simp add: send_attempt_def send_raw_def flaky_env_def writer_result_def classify_def
      std_errors_def is_service_def)

lemma demo_retry_fits: "backoff_fits (demo_retry 4)"
  by (simp add: backoff_fits_def demo_retry_def DURATION_MAX_def)

subsection \<open>Properties\<close>

text \<open>C6: The retry loop refines its specification. With a random number generator that stays below its
  bound, a call that ends without a panic has a run of this form: attempts are numbered from zero without gaps; an
  attempt is followed by another one exactly when its reply is to be retried, there are retries left, and the
  body could be reset, where the reset is tried if and only if the body is a stream that the transport polled;
  in between there is exactly one sleep, for what the server's \<^verbatim>\<open>Retry-After\<close> said when a throttled
  response had one, and in every other case below the slot size doubled with every attempt. To be retried are
  errors of the service kind that are throttled or unavailable, and for an idempotent request transport
  errors and an internal error of the server. Every recorded attempt is what the transport reported of an
  exchange of this request, with the writer's error in place of a transport error caused by the body.
  The call returns a response exactly when its last attempt did.\<close>

theorem retry_refines_trace:
  assumes "random_ok env" "retry_call H E s env req w = Inr (res, w', tr)"
  shows "retry_trace s (is_request_idempotent H (rt_idempotency s) (rq_method req)) (rq_body req) 0 tr \<and>
    (\<forall>n polled reply. Attempt n polled reply \<in> set tr \<longrightarrow> reported E env req polled reply) \<and>
    ((\<exists>r. res = Inr r) \<longleftrightarrow> ends_answered tr)"
  using retry_loop_trace_ends [OF assms(1), of 0] retry_loop_reported assms(2) unfolding retry_call_def by fastforce

lemma flaky_run:
  "retry_call std_http std_errors (demo_retry 4) (flaky_env 1) ((demo_call ''POST'')\<lparr>rq_body := body\<rparr>) 0 =
     Inr (Inr (), 2, [Attempt 0 True (Failed True UnavailableError), Retrying UnavailableError None] @
       (if body = BodyStreaming then [ResetBody True] else []) @ [Sleep 249, Attempt 1 True Answered])"
proof -
  have p: "prepare_for_retry (demo_retry 4) (flaky_env 1) 1 nr e None 1 =
      Inr (Inr (), 1, (if nr then [ResetBody True] else []) @ [Sleep 249])" for e nr
    by (simp add: prepare_for_retry_def demo_retry_def backoff_def flaky_env_def DURATION_MAX_def)
  have "cause_of std_errors (internal_safe std_errors UnavailableError) = UnavailableError"
    "is_service (kind std_errors (internal_safe std_errors UnavailableError))"
    by (simp_all add: std_errors_def is_service_def)
  with p show ?thesis
    unfolding retry_call_def
    by (subst retry_loop.simps)
      (simp add: flaky_attempt retry_loop.simps [of _ _ _ _ "Suc 0"] reply_of_def clone_request_def Let_def)
qed

theorem retry_refines_trace_witness:
  "\<exists>res w' tr. retry_call std_http std_errors (demo_retry 4) (flaky_env 1) ((demo_call ''POST'')\<lparr>rq_body := BodyStreaming\<rparr>) 0 =
     Inr (res, w', tr) \<and> ResetBody True \<in> set tr \<and> retry_trace (demo_retry 4) False BodyStreaming 0 tr"
  using retry_refines_trace [OF flaky_random_ok flaky_run [of BodyStreaming]] flaky_run [of BodyStreaming]
  by (simp add: is_request_idempotent_def demo_retry_def demo_call_def std_http_def)

text \<open>C7: A request is attempted at least once and at most one more time than the configured number
  of retries, and never again after a body could not be reset.\<close>

theorem retry_attempts_bounded:
  assumes "random_ok env" "retry_call H E s env req w = Inr (res, w', tr)"
  shows "1 \<le> attempts tr \<and> attempts tr \<le> unat (rt_max_num_retries s) + 1 \<and>
         (ResetBody False \<in> set tr \<longrightarrow> last tr = ResetBody False)"
proof -
  have "retry_trace s (is_request_idempotent H (rt_idempotency s) (rq_method req)) (rq_body req) 0 tr"
    using retry_loop_trace [OF assms(1), of 0] assms(2) by (simp add: retry_call_def)
  from retry_trace_bound [OF this] retry_trace_reset_last [OF this] show ?thesis by simp
qed

theorem retry_attempts_bounded_witness:
  "\<exists>res w' tr. retry_call std_http std_errors (demo_retry 4) (flaky_env 9) (demo_call ''GET'') 0 =
     Inr (res, w', tr) \<and> attempts tr \<le> 5"
proof -
  obtain res w' tr where r: "retry_call std_http std_errors (demo_retry 4) (flaky_env 9)
      (demo_call ''GET'') 0 = Inr (res, w', tr)"
    using retry_loop_total [OF demo_retry_fits, of 0] unfolding retry_call_def by (meson le0)
  from retry_attempts_bounded [OF flaky_random_ok r] r show ?thesis by (simp add: demo_retry_def)
qed

text \<open>C8: A request that is not idempotent is sent again only after the server refused to process it:
  every retry is then caused by a 429 or a 503, never by a transport error or an internal error.\<close>

theorem retry_respects_idempotency:
  assumes "random_ok env" "retry_call H E s env req w = Inr (res, w', tr)"
    and "\<not> is_request_idempotent H (rt_idempotency s) (rq_method req)"
    and "Retrying c ra \<in> set tr"
  shows "c = UnavailableError \<or> c = ThrottledError ra"
proof -
  have t: "retry_trace s False (rq_body req) 0 tr"
    using retry_loop_trace [OF assms(1), of 0] assms(2,3) by (simp add: retry_call_def)
  from retry_trace_causes [OF t assms(4)] show ?thesis
    by (auto simp: retryable_def retry_after_of_def split: cause.splits)
qed

lemma demo_call_body: "(demo_call m)\<lparr>rq_body := BodyEmpty\<rparr> = demo_call m"
  by (simp add: demo_call_def)

lemmas empty_run = flaky_run [of BodyEmpty, unfolded demo_call_body]

theorem retry_respects_idempotency_witness:
  "\<exists>tr c ra. retry_call std_http std_errors (demo_retry 4) (flaky_env 1) (demo_call ''POST'') 0 =
     Inr (Inr (), 2, tr) \<and> Retrying c ra \<in> set tr \<and>
     (c = UnavailableError \<or> c = ThrottledError ra)"
  using retry_respects_idempotency [OF flaky_random_ok empty_run, of UnavailableError None] empty_run
  by (force simp: is_request_idempotent_def demo_retry_def demo_call_def std_http_def)

text \<open>C9: The retry loop returns: with at most 32 retries and a slot size that can be doubled 31 times
  it ends with a response or an error for every behaviour of the server, the body, the random
  numbers and the clock.\<close>

theorem retry_returns:
  assumes "backoff_fits s"
  shows "\<exists>res w' tr. retry_call H E s env req w = Inr (res, w', tr)"
  unfolding retry_call_def by (rule retry_loop_total [OF assms]) simp

theorem retry_returns_witness:
  "\<exists>res w' tr. retry_call std_http std_errors (demo_retry 4) (flaky_env 9) (demo_call ''GET'') 0 =
     Inr (res, w', tr)"
  by (rule retry_returns [OF demo_retry_fits])

lemma flaky_overflow:
  assumes "33 \<le> unat (rt_max_num_retries s)" "rt_backoff_slot_size s = 250"
  shows "n \<le> 32 \<Longrightarrow> retry_loop s std_errors (flaky_env 99) i (32 - n) req (32 - n) = Inl ArithmeticOverflow"
proof (induction n)
  case 0
  have "prepare_for_retry s (flaky_env 99) 33 nr e None 33 = Inl ArithmeticOverflow" for e nr
    using assms by (simp add: prepare_for_retry_def backoff_def flaky_env_def)
  then show ?case by (subst retry_loop.simps) (simp add: flaky_attempt Let_def)
next
  case (Suc n)
  define k where "k = 32 - Suc n"
  have k: "32 - n = k + 1" "k + 1 \<le> 32" using Suc.prems by (auto simp: k_def)
  then have le: "(2 :: nat) ^ k \<le> 2 ^ 31" by (intro power_increasing) auto
  have "250 * 2 ^ k \<le> DURATION_MAX"
    by (rule order_trans [OF mult_le_mono2 [OF le]]) (simp add: DURATION_MAX_def)
  then have d: "\<exists>evs. prepare_for_retry s (flaky_env 99) (k + 1) nr e None (k + 1) =
      Inr (Inr (), k + 1, evs)" for e nr
    using assms k(2) by (auto simp: prepare_for_retry_def backoff_def flaky_env_def Let_def)
  have ih: "retry_loop s std_errors (flaky_env 99) i (k + 1) req (k + 1) = Inl ArithmeticOverflow"
    using Suc k by simp
  obtain evs where evs: "prepare_for_retry s (flaky_env 99) (k + 1) (rq_body (clone_request req (rq_body req)) = BodyStreaming)
      (internal_safe std_errors UnavailableError) None (k + 1) = Inr (Inr (), k + 1, evs)" using d by blast
  have "retry_loop s std_errors (flaky_env 99) i k req k = Inl ArithmeticOverflow"
    using evs ih k by (subst retry_loop.simps) (simp add: flaky_attempt Let_def)
  then show ?case by (simp add: k_def)
qed

text \<open>C39: The backoff's shift overflows when more than 32 retries are configured: against a server
  that keeps answering 503 the loop panics instead of returning the error.\<close>

theorem retry_shift_overflows:
  assumes "33 \<le> unat n"
  shows "retry_call std_http std_errors (demo_retry n) (flaky_env 99) req 0 = Inl ArithmeticOverflow"
  using flaky_overflow [of "demo_retry n" 32] assms by (simp add: retry_call_def demo_retry_def)

theorem retry_shift_overflows_witness:
  "retry_call std_http std_errors (demo_retry 40) (flaky_env 99) (demo_call ''GET'') 0 =
     Inl ArithmeticOverflow"
  by (rule retry_shift_overflows) simp

end
