(* ===== verification/Instrumentation.thy ===== *)
theory Instrumentation
  imports HttpError Body
begin

text \<open>
  The layers that observe calls: the request timer (\<^verbatim>\<open>service/metrics.rs\<close>), the spans around a call and
  around each attempt (\<^verbatim>\<open>util/spans.rs\<close>, \<^verbatim>\<open>service/root_span.rs\<close>, \<^verbatim>\<open>service/wait_for_spans.rs\<close>) and the layer
  that gives the response its public body type (\<^verbatim>\<open>service/response_body.rs\<close>). Spans are the \<^verbatim>\<open>zipkin\<close>
  crate's: here a span has its context, name and tags, and the spans that have ended are a list, in the
  order in which they were dropped.
\<close>

record span =
  sp_context :: nat
  sp_name :: string
  sp_tags :: "(string \<times> string) list"

definition tag :: "string \<Rightarrow> string \<Rightarrow> span \<Rightarrow> span" where
  "tag k v s = s\<lparr>sp_tags := sp_tags s @ [(k, v)]\<rparr>"

definition add_request_tags :: "('h, 'b) request \<Rightarrow> span \<Rightarrow> panic + span" where
  "add_request_tags req s =
     (case rq_endpoint req of
        None \<Rightarrow> Inl (Expect ''Endpoint missing from request extensions'')
      | Some ed \<Rightarrow>
          Inr (tag ''http.url_details.path'' (ed_path ed)
            (tag ''http.method'' (rq_method req)
              (tag ''endpointName'' (ed_name ed) (tag ''endpointService'' (ed_service ed) s)))))"

text \<open>The status an error stands for.\<close>

definition error_status :: "'e error_api \<Rightarrow> 'e \<Rightarrow> status option" where
  "error_status E e =
     (case cause_of E e of
        ThrottledError _ \<Rightarrow> Some 429
      | UnavailableError \<Rightarrow> Some 503
      | RemoteError s _ \<Rightarrow> Some s
      | _ \<Rightarrow> None)"

definition tag_result :: "http_api \<Rightarrow> 'e error_api \<Rightarrow> 'e + ('h, 'b) response \<Rightarrow> span \<Rightarrow> span" where
  "tag_result H E r s =
     (case r of
        Inr resp \<Rightarrow>
          tag ''http.status_code'' (show_nat (rs_status resp))
            (tag ''outcome'' (if is_success H (rs_status resp) then ''success'' else ''failure'') s)
      | Inl e \<Rightarrow>
          (let s1 = tag ''outcome'' ''failure'' s
           in case error_status E e of
                Some st \<Rightarrow> tag ''http.status_code'' (show_nat st) s1
              | None \<Rightarrow> s1))"

record 'f http_span_future =
  hs_inner :: 'f
  hs_span :: "span option"
  hs_ended :: "span list"

definition http_span_new :: "'f \<Rightarrow> span \<Rightarrow> span list \<Rightarrow> 'f http_span_future" where
  "http_span_new f s ended = \<lparr>hs_inner = f, hs_span = Some s, hs_ended = ended\<rparr>"

text \<open>\<open>inner\<close> is polled with the context that is current meanwhile.\<close>

definition http_span_poll ::
  "http_api \<Rightarrow> 'e error_api \<Rightarrow> (nat \<Rightarrow> 'f \<Rightarrow> ('e + ('h, 'b) response) poll \<times> 'f) \<Rightarrow> 'f http_span_future \<Rightarrow>
   (panic + ('e + ('h, 'b) response)) poll \<times> 'f http_span_future" where
  "http_span_poll H E inner hs =
     (case hs_span hs of
        None \<Rightarrow> (Ready (Inl (Expect ''future polled after completion'')), hs)
      | Some s \<Rightarrow>
          (case inner (sp_context s) (hs_inner hs) of
             (Pending, f) \<Rightarrow> (Pending, hs\<lparr>hs_inner := f\<rparr>)
           | (Ready r, f) \<Rightarrow>
               (Ready (Inr r),
                \<lparr>hs_inner = f, hs_span = None, hs_ended = hs_ended hs @ [tag_result H E r s]\<rparr>)))"

text \<open>Dropping the future ends a span that is still open.\<close>

definition http_span_drop :: "'f http_span_future \<Rightarrow> span list" where
  "http_span_drop hs = hs_ended hs @ (case hs_span hs of Some s \<Rightarrow> [s] | None \<Rightarrow> [])"

definition root_span_call ::
  "nat \<Rightarrow> (('h, 'b) request \<Rightarrow> 'f) \<Rightarrow> ('h, 'b) request \<Rightarrow> span list \<Rightarrow> panic + 'f http_span_future" where
  "root_span_call context inner req ended =
     and_then (add_request_tags req \<lparr>sp_context = context, sp_name = ''conjure-runtime: request'', sp_tags = []\<rparr>)
       (\<lambda>s. Inr (http_span_new (inner req) s ended))"

subsection \<open>The other observers\<close>

text \<open>The blocking client's future runs in the context of the thread that made the call (\<^verbatim>\<open>blocking/client.rs\<close>).\<close>

record 'f context_future =
  cf_future :: 'f
  cf_context :: "nat option"

definition context_future_new :: "nat option \<Rightarrow> 'f \<Rightarrow> 'f context_future" where
  "context_future_new current f = \<lparr>cf_future = f, cf_context = current\<rparr>"

definition context_future_poll ::
  "(nat option \<Rightarrow> 'f \<Rightarrow> 'r poll \<times> 'f) \<Rightarrow> nat option \<Rightarrow> 'f context_future \<Rightarrow> 'r poll \<times> 'f context_future" where
  "context_future_poll poll ambient c =
     (case poll (case cf_context c of Some x \<Rightarrow> Some x | None \<Rightarrow> ambient) (cf_future c) of
        (r, f) \<Rightarrow> (r, c\<lparr>cf_future := f\<rparr>))"

record 'b wait_for_spans_body =
  wb_body :: 'b
  wb_span :: span

definition wait_for_spans_call ::
  "nat \<Rightarrow> nat \<Rightarrow> (nat \<Rightarrow> ('req, 'w, 'e, ('h, 'b) response) service) \<Rightarrow>
   'req \<Rightarrow> 'w \<times> span list \<Rightarrow> ('e + ('h, 'b wait_for_spans_body) response) \<times> ('w \<times> span list)" where
  "wait_for_spans_call context body_context inner req st =
     (case st of (w, ended) \<Rightarrow>
        let s = \<lparr>sp_context = context, sp_name = ''conjure-runtime: wait-for-headers'', sp_tags = []\<rparr>
        in case inner context req w of
             (Inl e, w') \<Rightarrow> (Inl e, (w', ended @ [s]))
           | (Inr r, w') \<Rightarrow>
               (Inr \<lparr>rs_status = rs_status r, rs_headers = rs_headers r,
                     rs_body =
                       \<lparr>wb_body = rs_body r,
                        wb_span = \<lparr>sp_context = body_context, sp_name = ''conjure-runtime: wait-for-body'', sp_tags = []\<rparr>\<rparr>\<rparr>,
                (w', ended @ [s])))"

definition wait_for_spans_poll :: "('b, 'e, 'h) body_poll \<Rightarrow> ('b wait_for_spans_body, 'e, 'h) body_poll" where
  "wait_for_spans_poll B wb = (case B (wb_body wb) of (r, b) \<Rightarrow> (r, wb\<lparr>wb_body := b\<rparr>))"

definition wait_for_spans_is_end :: "('b \<Rightarrow> bool) \<Rightarrow> 'b wait_for_spans_body \<Rightarrow> bool" where
  "wait_for_spans_is_end is_end wb = is_end (wb_body wb)"

definition wait_for_spans_size_hint :: "('b \<Rightarrow> size_hint) \<Rightarrow> 'b wait_for_spans_body \<Rightarrow> size_hint" where
  "wait_for_spans_size_hint hint wb = hint (wb_body wb)"

lemma wait_for_spans_yields:
  assumes "yields B b s"
  shows "yields (wait_for_spans_poll B) \<lparr>wb_body = b, wb_span = sp\<rparr> s"
  using assms
proof (induction rule: yields.induct)
  case (yields_end b b')
  then show ?case by (intro yields.yields_end) (simp add: wait_for_spans_poll_def)
next
  case (yields_more b x b' s)
  then have "wait_for_spans_poll B \<lparr>wb_body = b, wb_span = sp\<rparr> = (poll_of x, \<lparr>wb_body = b', wb_span = sp\<rparr>)"
    by (simp add: wait_for_spans_poll_def)
  then show ?case using yields_more(3) by (rule yields.yields_more)
qed

interpretation waiting: body_layer B "wait_for_spans_poll B" "\<lambda>b. \<lparr>wb_body = b, wb_span = sp\<rparr>" "\<lambda>x. x"
  by unfold_locales (simp_all add: wait_for_spans_yields)

record timer_update =
  tu_name :: string
  tu_tags :: "(string \<times> string) list"
  tu_elapsed :: duration

record metrics_layer =
  ml_registry :: handle
  ml_service_name :: string

definition metrics_layer_new :: "builder \<Rightarrow> metrics_layer option" where
  "metrics_layer_new b =
     map_option (\<lambda>m. \<lparr>ml_registry = m, ml_service_name = cc_service (cached b)\<rparr>) (uc_metrics (uncached b))"

definition metrics_call ::
  "metrics_layer option \<Rightarrow> ('w \<Rightarrow> duration) \<Rightarrow> (('h, 'q) request, 'w, 'e, 'r) service \<Rightarrow>
   ('h, 'q) request \<Rightarrow> 'w \<times> timer_update list \<Rightarrow> panic + ('e + 'r) \<times> ('w \<times> timer_update list)" where
  "metrics_call ml now inner req st =
     (case rq_endpoint req of
        None \<Rightarrow> Inl (Expect ''Request extensions missing Endpoint'')
      | Some ed \<Rightarrow>
          (case st of (w, updates) \<Rightarrow>
             (case inner req w of
                (r, w') \<Rightarrow>
                  Inr (r, (w',
                    (case ml of
                       None \<Rightarrow> updates
                     | Some m \<Rightarrow>
                         updates @
                         [\<lparr>tu_name = ''client.response'',
                           tu_tags =
                             [(''channel-name'', ml_service_name m), (''service-name'', ed_service ed),
                              (''endpoint'', ed_name ed),
                              (''status'', case r of Inr _ \<Rightarrow> ''success'' | Inl _ \<Rightarrow> ''failure'')],
                           tu_elapsed = now w' - now w\<rparr>]))))))"

definition response_body_call ::
  "('req, 'w, 'e, ('h, 'b) response) service \<Rightarrow> ('req, 'w, 'e, ('h, 'b response_body) response) service" where
  "response_body_call inner req w =
     (case inner req w of
        (Inl e, w') \<Rightarrow> (Inl e, w')
      | (Inr r, w') \<Rightarrow>
          (Inr \<lparr>rs_status = rs_status r, rs_headers = rs_headers r, rs_body = response_body_new (rs_body r)\<rparr>, w'))"

subsection \<open>What a span says\<close>

text \<open>The error layer's errors stand for the status of the response they were made from.\<close>

lemma error_status_of_response:
  assumes "error_ok E"
  shows "error_status E (throttled_error E qos d) = Some 429" "error_status E (unavailable_error E qos) = Some 503"
    "error_status E (remote_error_of E C se resp) = Some (rs_status resp)"
  using throttled_error_laws(1) [OF assms] unavailable_error_laws(1) [OF assms] remote_error_of_laws [OF assms, of C se resp]
  by (auto simp: error_status_def)

lemma tag_result_http_error:
  assumes "error_ok E" "svc req w = (Inr resp, w')" "http_error_call H E A C qos se svc req w = (r, w')"
  shows "sp_tags (tag_result H E r s) = sp_tags s @
    [(''outcome'', if is_success H (rs_status resp) then ''success'' else ''failure''),
     (''http.status_code'', show_nat (rs_status resp))]"
  using assms(2,3) error_status_of_response(1,2) [OF assms(1)] error_status_of_response(3) [OF assms(1), of C se resp]
  by (auto simp: http_error_call_def tag_result_def tag_def Let_def split: if_splits)

text \<open>A span tells the truth about the response. The future of a span polls the call only in the span's
  own context and completes exactly when the call does, with its result; it then ends the span once, and
  when the call ended in a response of the server, passed on or turned into an error by the error
  layer, the span carries exactly that response's status code and is tagged a success exactly
  for a 2xx.\<close>

theorem span_reports_response:
  assumes "error_ok E" "await (inner (sp_context s)) f = Some (r, f')"
    and "svc req w = (Inr resp, w')" "http_error_call H E A C qos se svc req w = (r, w')" "http_ok H"
  shows "await (http_span_poll H E inner) (http_span_new f s ended) =
    Some (Inr r, \<lparr>hs_inner = f', hs_span = None,
      hs_ended = ended @ [s\<lparr>sp_tags := sp_tags s @
        [(''outcome'', if 200 \<le> rs_status resp \<and> rs_status resp < 300 then ''success'' else ''failure''),
         (''http.status_code'', show_nat (rs_status resp))]\<rparr>]\<rparr>)"
proof -
  have "await (http_span_poll H E inner) (http_span_new f s ended) =
      Some (Inr r, \<lparr>hs_inner = f', hs_span = None, hs_ended = ended @ [tag_result H E r s]\<rparr>)"
    by (rule await_simulates [OF assms(2), where g = "\<lambda>f. http_span_new f s ended" and h = "\<lambda>r f. Inr r"
          and k = "\<lambda>r f. \<lparr>hs_inner = f, hs_span = None, hs_ended = ended @ [tag_result H E r s]\<rparr>"])
      (simp_all add: http_span_poll_def http_span_new_def)
  moreover have "tag_result H E r s = s\<lparr>sp_tags := sp_tags (tag_result H E r s)\<rparr>"
    by (simp add: tag_result_def tag_def Let_def split: sum.splits option.splits)
  ultimately show ?thesis
    using tag_result_http_error [OF assms(1,3,4), of s] assms(5) by (simp add: http_ok_def)
qed

theorem span_reports_response_witness:
  "\<exists>e. await (http_span_poll std_http std_errors (\<lambda>_ n. if n < 2 then (Pending, Suc n) else (Ready (Inl e), n)))
     (http_span_new 0 \<lparr>sp_context = 5, sp_name = ''a'', sp_tags = []\<rparr> []) =
     (Some (Inr (Inl e), \<lparr>hs_inner = 2, hs_span = None, hs_ended = [\<lparr>sp_context = 5, sp_name = ''a'',
       sp_tags = [(''outcome'', ''failure''), (''http.status_code'', show_nat 503)]\<rparr>]\<rparr>) ::
       ((panic + (std_error + (string \<rightharpoonup> string, body_stream) response)) \<times> nat http_span_future) option)"
proof -
  let ?resp = "\<lparr>rs_status = 503, rs_headers = Map.empty, rs_body = []\<rparr> :: (string \<rightharpoonup> string, body_stream) response"
  let ?e = "unavailable_error std_errors AutomaticRetry"
  let ?inner = "\<lambda>(_ :: nat) n. if n < 2 then (Pending, Suc n)
    else (Ready (Inl ?e :: std_error + (string \<rightharpoonup> string, body_stream) response), n)"
  have run: "await (?inner 5) 0 = Some (Inl ?e, 2)"
    by (subst await.simps, simp, subst await.simps, simp, subst await.simps, simp add: numeral_eq_Suc)
  have call: "http_error_call std_http std_errors map_headers std_codec AutomaticRetry WrapInNewError
      (\<lambda>(_ :: unit) (w :: unit). (Inr ?resp, w)) () () = (Inl ?e, ())"
    by (simp add: http_error_call_def std_http_def)
  from span_reports_response [OF std_errors_ok _ _ call std_http_ok,
      of ?inner "\<lparr>sp_context = 5, sp_name = ''a'', sp_tags = []\<rparr>" 0 2 ?resp "[]"] run
  show ?thesis by (intro exI [of _ ?e]) simp
qed

end
