(* ===== verification/RawClient.thy ===== *)
theory RawClient
  imports Proxy Body
begin

text \<open>
  \<^verbatim>\<open>service/raw/hyper.rs\<close>: what the raw client is built from, above all its TLS policy; the connectors
  below it that set socket timeouts (\<^verbatim>\<open>service/timeout.rs\<close>) and count handshakes
  (\<^verbatim>\<open>service/tls_metrics.rs\<close>), and the crypto provider (\<^verbatim>\<open>service/raw/provider.rs\<close>). Files, PEM parsing, the
  built-in roots, the comparison in constant time and the checks of the TLS library are \<open>tls_api\<close>.
\<close>

type_synonym cert = "byte list"

datatype private_key = Pkcs1 "byte list" | Pkcs8 "byte list" | Sec1 "byte list"

datatype pem_item =
    Pkcs1Key "byte list"
  | Pkcs8Key "byte list"
  | Sec1Key "byte list"
  | OtherItem "byte list"

record tls_api =
  tls_open :: "string \<Rightarrow> cause + string"
  tls_certs :: "string \<Rightarrow> cause + cert list"
  tls_read_all :: "string \<Rightarrow> cause + pem_item list"
  tls_builtin :: "cert list"
  tls_parsable :: "cert \<Rightarrow> bool"
  tls_ct_eq :: "cert \<Rightarrow> cert \<Rightarrow> bool"
  tls_versions :: "string list \<times> string list \<Rightarrow> cause option"
  tls_auth :: "cert list \<Rightarrow> private_key \<Rightarrow> cause option"
  tls_fips :: bool
  tls_fips_suite :: "string \<Rightarrow> bool"
  tls_fips_group :: "string \<Rightarrow> bool"

text \<open>\<^verbatim>\<open>subtle\<close> compares slices in constant time.\<close>

definition tls_ok :: "tls_api \<Rightarrow> bool" where
  "tls_ok X \<longleftrightarrow> (\<forall>a b. tls_ct_eq X a b \<longleftrightarrow> a = b)"

definition TCP_KEEPALIVE :: duration where "TCP_KEEPALIVE = from_secs (3 * 60)"

definition HTTP_KEEPALIVE :: duration where "HTTP_KEEPALIVE = from_secs 55"

definition CIPHER_SUITES :: "string list" where
  "CIPHER_SUITES =
     [''TLS13_AES_256_GCM_SHA384'', ''TLS13_AES_128_GCM_SHA256'', ''TLS13_CHACHA20_POLY1305_SHA256'',
      ''TLS_ECDHE_ECDSA_WITH_AES_256_GCM_SHA384'', ''TLS_ECDHE_ECDSA_WITH_AES_128_GCM_SHA256'',
      ''TLS_ECDHE_ECDSA_WITH_CHACHA20_POLY1305_SHA256'', ''TLS_ECDHE_RSA_WITH_AES_256_GCM_SHA384'',
      ''TLS_ECDHE_RSA_WITH_AES_128_GCM_SHA256'', ''TLS_ECDHE_RSA_WITH_CHACHA20_POLY1305_SHA256'']"

definition KX_GROUPS :: "string list" where
  "KX_GROUPS = [''X25519'', ''SECP256R1'', ''SECP384R1'', ''X25519MLKEM768'']"

definition provider :: "tls_api \<Rightarrow> string list \<times> string list" where
  "provider X =
     (filter (\<lambda>s. \<not> tls_fips X \<or> tls_fips_suite X s) CIPHER_SUITES,
      filter (\<lambda>g. \<not> tls_fips X \<or> tls_fips_group X g) KX_GROUPS)"

definition load_certs_file :: "tls_api \<Rightarrow> 'e error_api \<Rightarrow> string \<Rightarrow> 'e + cert list" where
  "load_certs_file X E path =
     (case tls_open X path of
        Inl e \<Rightarrow> Inl (internal_safe E e)
      | Inr file \<Rightarrow> (case tls_certs X file of Inl e \<Rightarrow> Inl (internal_safe E e) | Inr cs \<Rightarrow> Inr cs))"

definition load_private_key :: "tls_api \<Rightarrow> 'e error_api \<Rightarrow> string \<Rightarrow> 'e + private_key" where
  "load_private_key X E path =
     (case tls_open X path of
        Inl e \<Rightarrow> Inl (internal_safe E e)
      | Inr file \<Rightarrow>
          (case tls_read_all X file of
             Inl e \<Rightarrow> Inl (internal_safe E e)
           | Inr items \<Rightarrow>
               if length items \<noteq> 1
               then Inl (internal_safe E (Foreign ''expected exactly one private key in key file'' None))
               else
                 (case last items of
                    Pkcs1Key k \<Rightarrow> Inr (Pkcs1 k)
                  | Pkcs8Key k \<Rightarrow> Inr (Pkcs8 k)
                  | Sec1Key k \<Rightarrow> Inr (Sec1 k)
                  | OtherItem _ \<Rightarrow>
                      Inl (internal_safe E
                        (Foreign ''expected a PKCS#1, PKCS#8, or Sec1 private key'' None)))))"

text \<open>The pinned certificates, from the entry with the given index on.\<close>

fun load_pinned :: "tls_api \<Rightarrow> 'e error_api \<Rightarrow> nat \<Rightarrow> string list \<Rightarrow> 'e + cert list" where
  "load_pinned X E idx [] = Inr []"
| "load_pinned X E idx (pem # pems) =
     (case tls_certs X pem of
        Inl e \<Rightarrow> Inl (internal_safe E e)
      | Inr certs \<Rightarrow>
          if length certs \<noteq> 1 then
            Inl (with_safe_param E
              (with_safe_param E
                (internal_safe E
                  (Foreign ''pinned-certs entry must contain exactly one PEM-encoded certificate'' None))
                ''index'' (show_nat idx)) ''count'' (show_nat (length certs)))
          else and_then (load_pinned X E (Suc idx) pems) (\<lambda>pinned. Inr (last certs # pinned)))"

text \<open>How a server is trusted: by the built-in and configured roots, or by its pinned leaf.\<close>

datatype server_trust = TrustRoots "cert list" | PinnedLeafVerifier "cert list"

definition verify_server_cert :: "tls_api \<Rightarrow> cert list \<Rightarrow> cert \<Rightarrow> cause + unit" where
  "verify_server_cert X pinned end_entity =
     (if fold (\<lambda>pin matched. matched \<or> tls_ct_eq X pin end_entity) pinned False then Inr ()
      else Inl (Foreign ''UnknownIssuer'' None))"

definition server_trust_of :: "tls_api \<Rightarrow> 'e error_api \<Rightarrow> security_config \<Rightarrow> 'e + server_trust" where
  "server_trust_of X E sec =
     (if pinned_certs sec = [] then
        (case ca_file sec of
           Some file \<Rightarrow>
             and_then (load_certs_file X E file) (\<lambda>certs.
               Inr (TrustRoots (tls_builtin X @ filter (tls_parsable X) certs)))
         | None \<Rightarrow> Inr (TrustRoots (tls_builtin X)))
      else and_then (load_pinned X E 0 (pinned_certs sec)) (\<lambda>pinned. Inr (PinnedLeafVerifier pinned)))"

definition client_auth_of ::
  "tls_api \<Rightarrow> 'e error_api \<Rightarrow> security_config \<Rightarrow> 'e + (cert list \<times> private_key) option" where
  "client_auth_of X E sec =
     (case (cert_file sec, key_file sec) of
        (Some cert, Some key) \<Rightarrow>
          and_then (load_certs_file X E cert) (\<lambda>chain.
          and_then (load_private_key X E key) (\<lambda>private.
            case tls_auth X chain private of
              Some e \<Rightarrow> Inl (internal_safe E e)
            | None \<Rightarrow> Inr (Some (chain, private))))
      | (None, None) \<Rightarrow> Inr None
      | _ \<Rightarrow>
          Inl (internal_safe E (Foreign
            ''neither or both of key-file and cert-file must be set in the client security config'' None)))"

record raw_client_parts =
  rc_enforce_http :: bool
  rc_nodelay :: bool
  rc_connect_timeout :: duration
  rc_tcp_keepalive :: duration
  rc_read_timeout :: duration
  rc_write_timeout :: duration
  rc_proxy :: "http_proxy option"
  rc_provider :: "string list \<times> string list"
  rc_trust :: server_trust
  rc_client_auth :: "(cert list \<times> private_key) option"
  rc_metrics :: "handle option"
  rc_service :: string
  rc_idle_timeout :: duration

definition raw_client_new ::
  "tls_api \<Rightarrow> uri_api \<Rightarrow> text_api \<Rightarrow> 'e error_api \<Rightarrow> builder \<Rightarrow> panic + ('e + raw_client_parts)" where
  "raw_client_new X U V E b =
     (case proxy_from_config U V E (cc_proxy (cached b)) of
        Inl p \<Rightarrow> Inl p
      | Inr (Inl e) \<Rightarrow> Inr (Inl e)
      | Inr (Inr proxy) \<Rightarrow>
          Inr (case tls_versions X (provider X) of
             Some e \<Rightarrow> Inl (internal_safe E e)
           | None \<Rightarrow>
               and_then (server_trust_of X E (cc_security (cached b))) (\<lambda>trust.
               and_then (client_auth_of X E (cc_security (cached b))) (\<lambda>auth.
                 Inr \<lparr>rc_enforce_http = False, rc_nodelay = True,
                      rc_connect_timeout = cc_connect_timeout (cached b), rc_tcp_keepalive = TCP_KEEPALIVE,
                      rc_read_timeout = cc_read_timeout (cached b), rc_write_timeout = cc_write_timeout (cached b),
                      rc_proxy = proxy_connector_new proxy, rc_provider = provider X, rc_trust = trust,
                      rc_client_auth = auth, rc_metrics = uc_metrics (uncached b),
                      rc_service = cc_service (cached b), rc_idle_timeout = HTTP_KEEPALIVE\<rparr>))))"

text \<open>
  The client's own request and its response's body, around the \<^verbatim>\<open>hyper_util\<close> client \<open>send\<close> and hyper's \<open>Incoming\<close>;
  the signatures of the handshake are checked by the TLS library with the provider's algorithms.
\<close>

record 'i raw_response_body =
  rp_inner :: 'i

definition raw_request_call ::
  "(('h, 'q) request, 'w, cause, ('h, 'i) response) service \<Rightarrow>
   (('h, 'q) request, 'w, cause, ('h, 'i raw_response_body) response) service" where
  "raw_request_call send req w =
     (case send req w of
        (Inl e, w') \<Rightarrow> (Inl e, w')
      | (Inr r, w') \<Rightarrow>
          (Inr \<lparr>rs_status = rs_status r, rs_headers = rs_headers r, rs_body = \<lparr>rp_inner = rs_body r\<rparr>\<rparr>, w'))"

definition raw_response_poll :: "('i, 'e, 'h) body_poll \<Rightarrow> ('i raw_response_body, 'e, 'h) body_poll" where
  "raw_response_poll B b = (case B (rp_inner b) of (r, i) \<Rightarrow> (r, b\<lparr>rp_inner := i\<rparr>))"

definition raw_response_is_end :: "('i \<Rightarrow> bool) \<Rightarrow> 'i raw_response_body \<Rightarrow> bool" where
  "raw_response_is_end is_end b = is_end (rp_inner b)"

definition raw_response_size_hint :: "('i \<Rightarrow> size_hint) \<Rightarrow> 'i raw_response_body \<Rightarrow> size_hint" where
  "raw_response_size_hint hint b = hint (rp_inner b)"

record ('alg, 'm, 'd, 'r) signature_api =
  sg_tls12 :: "'m \<Rightarrow> cert \<Rightarrow> 'd \<Rightarrow> 'alg \<Rightarrow> 'r"
  sg_tls13 :: "'m \<Rightarrow> cert \<Rightarrow> 'd \<Rightarrow> 'alg \<Rightarrow> 'r"
  sg_schemes :: "'alg \<Rightarrow> string list"

definition verify_tls12_signature :: "('alg, 'm, 'd, 'r) signature_api \<Rightarrow> 'alg \<Rightarrow> 'm \<Rightarrow> cert \<Rightarrow> 'd \<Rightarrow> 'r" where
  "verify_tls12_signature G algorithms message cert dss = sg_tls12 G message cert dss algorithms"

definition verify_tls13_signature :: "('alg, 'm, 'd, 'r) signature_api \<Rightarrow> 'alg \<Rightarrow> 'm \<Rightarrow> cert \<Rightarrow> 'd \<Rightarrow> 'r" where
  "verify_tls13_signature G algorithms message cert dss = sg_tls13 G message cert dss algorithms"

definition supported_verify_schemes :: "('alg, 'm, 'd, 'r) signature_api \<Rightarrow> 'alg \<Rightarrow> string list" where
  "supported_verify_schemes G algorithms = sg_schemes G algorithms"

lemma raw_response_yields:
  assumes "yields B b s"
  shows "yields (raw_response_poll B) \<lparr>rp_inner = b\<rparr> s"
  using assms
proof (induction rule: yields.induct)
  case (yields_end b b')
  then show ?case by (intro yields.yields_end) (simp add: raw_response_poll_def)
next
  case (yields_more b x b' s)
  then have "raw_response_poll B \<lparr>rp_inner = b\<rparr> = (poll_of x, \<lparr>rp_inner = b'\<rparr>)"
    by (simp add: raw_response_poll_def)
  then show ?case using yields_more(3) by (rule yields.yields_more)
qed

interpretation raw_response: body_layer B "raw_response_poll B" "\<lambda>b. \<lparr>rp_inner = b\<rparr>" "\<lambda>x. x"
  by unfold_locales (simp_all add: raw_response_yields)

subsection \<open>The connectors\<close>

text \<open>The timeouts themselves are the \<^verbatim>\<open>tokio_io_timeout\<close> crate's: the layer sets them on each stream.\<close>

record timeout_layer =
  tl_read_timeout :: duration
  tl_write_timeout :: duration

record 's timeout_stream =
  ts_stream :: 's
  ts_read_timeout :: "duration option"
  ts_write_timeout :: "duration option"

definition timeout_layer_new :: "builder \<Rightarrow> timeout_layer" where
  "timeout_layer_new b =
     \<lparr>tl_read_timeout = cc_read_timeout (cached b), tl_write_timeout = cc_write_timeout (cached b)\<rparr>"

definition timeout_future_poll ::
  "timeout_layer \<Rightarrow> ('f \<Rightarrow> ('e + 's) poll \<times> 'f) \<Rightarrow> 'f \<Rightarrow> ('e + 's timeout_stream) poll \<times> 'f" where
  "timeout_future_poll l poll f =
     (case poll f of
        (Pending, f') \<Rightarrow> (Pending, f')
      | (Ready (Inl e), f') \<Rightarrow> (Ready (Inl e), f')
      | (Ready (Inr s), f') \<Rightarrow>
          (Ready (Inr \<lparr>ts_stream = s, ts_read_timeout = Some (tl_read_timeout l),
                       ts_write_timeout = Some (tl_write_timeout l)\<rparr>), f'))"

definition timeout_connected :: "('s \<Rightarrow> 'i) \<Rightarrow> 's timeout_stream \<Rightarrow> 'i" where
  "timeout_connected info t = info (ts_stream t)"

record tls_session =
  se_protocol :: "string option option"
  se_suite :: "string option option"

datatype 's maybe_https = HttpStream 's | HttpsStream 's tls_session

record meter =
  mt_name :: string
  mt_tags :: "(string \<times> string) list"

record tls_metrics =
  tm_metrics :: "handle option"
  tm_service :: string

definition tls_metrics_new :: "builder \<Rightarrow> tls_metrics" where
  "tls_metrics_new b = \<lparr>tm_metrics = uc_metrics (uncached b), tm_service = cc_service (cached b)\<rparr>"

definition handshake_meter :: "tls_metrics \<Rightarrow> tls_session \<Rightarrow> panic + meter" where
  "handshake_meter t se =
     (case (se_protocol se, se_suite se) of
        (Some protocol, Some cipher) \<Rightarrow>
          Inr \<lparr>mt_name = ''tls.handshake'',
               mt_tags =
                 [(''context'', tm_service t),
                  (''protocol'', case protocol of Some p \<Rightarrow> p | None \<Rightarrow> ''unknown''),
                  (''cipher'', case cipher of Some c \<Rightarrow> c | None \<Rightarrow> ''unknown'')]\<rparr>
      | _ \<Rightarrow> Inl (Expect ''session is active''))"

text \<open>The meters marked so far are a list.\<close>

definition tls_metrics_poll ::
  "tls_metrics \<Rightarrow> ('f \<Rightarrow> ('e + 's maybe_https) poll \<times> 'f) \<Rightarrow> 'f \<times> meter list \<Rightarrow>
   (panic + ('e + 's maybe_https)) poll \<times> ('f \<times> meter list)" where
  "tls_metrics_poll t poll st =
     (case st of (f, marks) \<Rightarrow>
        (case poll f of
           (Pending, f') \<Rightarrow> (Pending, (f', marks))
         | (Ready (Inl e), f') \<Rightarrow> (Ready (Inr (Inl e)), (f', marks))
         | (Ready (Inr s), f') \<Rightarrow>
             (case (tm_metrics t, s) of
                (Some _, HttpsStream _ se) \<Rightarrow>
                  (case handshake_meter t se of
                     Inl p \<Rightarrow> (Ready (Inl p), (f', marks))
                   | Inr m \<Rightarrow> (Ready (Inr (Inr s)), (f', marks @ [m])))
              | _ \<Rightarrow> (Ready (Inr (Inr s)), (f', marks)))))"

text \<open>A connection is counted once, when it is established over TLS and metrics are recorded.\<close>

lemma tls_metrics_counts_once:
  fixes poll :: "'f \<Rightarrow> ('e + 's maybe_https) poll \<times> 'f"
  assumes "await poll f = Some (Inr s, f')"
  shows "await (tls_metrics_poll t poll) (f, marks) =
    (case (tm_metrics t, s) of
       (Some _, HttpsStream _ se) \<Rightarrow>
         (case handshake_meter t se of
            Inl p \<Rightarrow> Some (Inl p, (f', marks))
          | Inr m \<Rightarrow> Some (Inr (Inr s), (f', marks @ [m])))
     | _ \<Rightarrow> Some (Inr (Inr s), (f', marks)))"
proof -
  let ?fin = "\<lambda>(r :: 'e + 's maybe_https) f. case r of
      Inl e \<Rightarrow> (Inr (Inl e) :: panic + ('e + 's maybe_https), (f, marks))
    | Inr s \<Rightarrow> (case (tm_metrics t, s) of
        (Some _, HttpsStream _ se) \<Rightarrow>
          (case handshake_meter t se of Inl p \<Rightarrow> (Inl p, (f, marks)) | Inr m \<Rightarrow> (Inr (Inr s), (f, marks @ [m])))
      | _ \<Rightarrow> (Inr (Inr s), (f, marks)))"
  have "await (tls_metrics_poll t poll) (f, marks) = Some (fst (?fin (Inr s) f'), snd (?fin (Inr s) f'))"
    by (rule await_simulates [OF assms, where g = "\<lambda>f. (f, marks)" and h = "\<lambda>r f. fst (?fin r f)"
          and k = "\<lambda>r f. snd (?fin r f)"])
      (auto simp: tls_metrics_poll_def split: sum.splits option.splits maybe_https.splits)
  then show ?thesis by (auto split: sum.splits option.splits maybe_https.splits)
qed

subsection \<open>The TLS policy\<close>

lemma fold_or: "fold (\<lambda>x b. b \<or> P x) xs b \<longleftrightarrow> b \<or> (\<exists>x\<in>set xs. P x)"
  by (induction xs arbitrary: b) auto

lemma verify_iff: "tls_ok X \<Longrightarrow> verify_server_cert X pinned leaf = Inr () \<longleftrightarrow> leaf \<in> set pinned"
  by (auto simp: verify_server_cert_def tls_ok_def fold_or)

lemma load_pinned_Inr:
  "load_pinned X E i pems = Inr cs \<Longrightarrow> list_all2 (\<lambda>pem c. tls_certs X pem = Inr [c]) pems cs"
proof (induction pems arbitrary: i cs)
  case (Cons pem pems)
  then obtain certs cs' where "tls_certs X pem = Inr certs" "length certs = 1"
      "load_pinned X E (Suc i) pems = Inr cs'" "cs = last certs # cs'"
    by (auto simp: and_then_Inr_iff split: sum.splits if_splits)
  then show ?case using Cons.IH by (cases certs) auto
qed simp

lemma pinned_accepts:
  assumes "list_all2 (\<lambda>pem c. tls_certs X pem = Inr [c]) pems cs"
  shows "c \<in> set cs \<longleftrightarrow> (\<exists>pem\<in>set pems. tls_certs X pem = Inr [c])"
  using assms by (induction rule: list_all2_induct) auto

lemma client_auth_Inr:
  assumes "client_auth_of X E sec = Inr auth"
  shows "(cert_file sec = None \<longleftrightarrow> key_file sec = None) \<and>
    (case auth of None \<Rightarrow> cert_file sec = None
     | Some (chain, key) \<Rightarrow> \<exists>cf kf. cert_file sec = Some cf \<and> key_file sec = Some kf \<and>
         load_certs_file X E cf = Inr chain \<and> load_private_key X E kf = Inr key \<and> tls_auth X chain key = None)"
  using assms by (auto simp: client_auth_of_def and_then_Inr_iff split: option.splits)

text \<open>C28: The TLS policy of a client that is built. Either certificates are pinned and then the handshake
  accepts a server's leaf certificate exactly when it is the one certificate of some pinned entry, or
  nothing is pinned and the server must chain to the built-in roots or to a parsable
  certificate of the configured CA file. A client certificate is presented exactly when both
  its file and its key's file are configured, with the chain and the one key they hold: a configuration with only
  one of the two is refused. The socket timeouts are the configured ones.\<close>

theorem raw_client_tls_policy:
  assumes "tls_ok X" "raw_client_new X U V E b = Inr (Inr rc)"
  defines "sec \<equiv> cc_security (cached b)"
  shows "(case rc_trust rc of
      PinnedLeafVerifier pinned \<Rightarrow> pinned_certs sec \<noteq> [] \<and>
        (\<forall>leaf. verify_server_cert X pinned leaf = Inr () \<longleftrightarrow>
           (\<exists>pem \<in> set (pinned_certs sec). tls_certs X pem = Inr [leaf]))
    | TrustRoots roots \<Rightarrow> pinned_certs sec = [] \<and>
        (case ca_file sec of
           None \<Rightarrow> roots = tls_builtin X
         | Some f \<Rightarrow> \<exists>certs. load_certs_file X E f = Inr certs \<and>
             set roots = set (tls_builtin X) \<union> {c \<in> set certs. tls_parsable X c})) \<and>
    (cert_file sec = None \<longleftrightarrow> key_file sec = None) \<and>
    (case rc_client_auth rc of None \<Rightarrow> cert_file sec = None
     | Some (chain, key) \<Rightarrow> \<exists>cf kf. cert_file sec = Some cf \<and> key_file sec = Some kf \<and>
         load_certs_file X E cf = Inr chain \<and> load_private_key X E kf = Inr key \<and> tls_auth X chain key = None) \<and>
    rc_connect_timeout rc = cc_connect_timeout (cached b) \<and> rc_read_timeout rc = cc_read_timeout (cached b) \<and>
    rc_write_timeout rc = cc_write_timeout (cached b)"
proof -
  obtain trust auth where t: "server_trust_of X E sec = Inr trust" "client_auth_of X E sec = Inr auth"
      "rc_trust rc = trust" "rc_client_auth rc = auth"
      "rc_connect_timeout rc = cc_connect_timeout (cached b)" "rc_read_timeout rc = cc_read_timeout (cached b)"
      "rc_write_timeout rc = cc_write_timeout (cached b)"
    using assms(2) by (auto simp: raw_client_new_def sec_def and_then_Inr_iff split: sum.splits option.splits)
  have pinned: "leaf \<in> set x \<longleftrightarrow> (\<exists>pem\<in>set (pinned_certs sec). tls_certs X pem = Inr [leaf])"
    if "load_pinned X E 0 (pinned_certs sec) = Inr x" for x leaf
    by (rule pinned_accepts [OF load_pinned_Inr [OF that]])
  have "case trust of
      PinnedLeafVerifier pinned \<Rightarrow> pinned_certs sec \<noteq> [] \<and>
        (\<forall>leaf. verify_server_cert X pinned leaf = Inr () \<longleftrightarrow>
           (\<exists>pem \<in> set (pinned_certs sec). tls_certs X pem = Inr [leaf]))
    | TrustRoots roots \<Rightarrow> pinned_certs sec = [] \<and>
        (case ca_file sec of
           None \<Rightarrow> roots = tls_builtin X
         | Some f \<Rightarrow> \<exists>certs. load_certs_file X E f = Inr certs \<and>
             set roots = set (tls_builtin X) \<union> {c \<in> set certs. tls_parsable X c})"
    using t(1) verify_iff [OF assms(1)] pinned
    by (auto simp: server_trust_of_def and_then_Inr_iff split: if_splits option.splits)
  then show ?thesis using t client_auth_Inr [OF t(2)] by simp
qed

definition demo_tls :: tls_api where
  "demo_tls =
     \<lparr>tls_open = (\<lambda>p. Inr p), tls_certs = (\<lambda>pem. Inr [[of_nat (length pem)]]), tls_read_all = (\<lambda>_. Inr [Sec1Key [1]]),
      tls_builtin = [[9]], tls_parsable = (\<lambda>_. True), tls_ct_eq = (=), tls_versions = (\<lambda>_. None),
      tls_auth = (\<lambda>_ _. None), tls_fips = False, tls_fips_suite = (\<lambda>_. True), tls_fips_group = (\<lambda>_. True)\<rparr>"

definition pinning_builder :: builder where
  "pinning_builder = b_security
     \<lparr>ca_file = None, key_file = Some ''key.pem'', cert_file = Some ''cert.pem'', pinned_certs = [''a'', ''bcd'']\<rparr>
     (builder_new 0 ''svc'' (user_agent_new \<lparr>agent_name = ''app'', agent_version = ''1.0.0''\<rparr>))"

lemmas pinning_builder_defs = pinning_builder_def b_security_def with_cached_def builder_new_def

theorem raw_client_tls_policy_witness:
  "\<exists>pinned rc. raw_client_new demo_tls plain_uri plain_text std_errors pinning_builder = Inr (Inr rc) \<and>
     rc_trust rc = PinnedLeafVerifier pinned \<and> rc_client_auth rc \<noteq> None \<and>
     verify_server_cert demo_tls pinned [3] = Inr () \<and> verify_server_cert demo_tls pinned [2] \<noteq> Inr ()"
proof -
  have ok: "tls_ok demo_tls" by (simp add: tls_ok_def demo_tls_def)
  obtain rc where rc: "raw_client_new demo_tls plain_uri plain_text std_errors pinning_builder = Inr (Inr rc)"
    by (simp add: raw_client_new_def proxy_from_config_def demo_tls_def server_trust_of_def client_auth_of_def
        load_certs_file_def load_private_key_def pinning_builder_defs)
  have "pinned_certs (cc_security (cached pinning_builder)) = [''a'', ''bcd'']"
    "cert_file (cc_security (cached pinning_builder)) = Some ''cert.pem''" by (simp_all add: pinning_builder_defs)
  then show ?thesis
    using raw_client_tls_policy [OF ok rc] rc
    by (cases "rc_trust rc"; cases "rc_client_auth rc") (auto simp: demo_tls_def)
qed

end
