(* ===== verification/ClientStack.thy ===== *)
theory ClientStack
  imports Selector Outbound Retry Instrumentation RawClient
begin

text \<open>
  \<^verbatim>\<open>client.rs\<close>: the whole client, all fifteen layers in the order in which \<^verbatim>\<open>ClientState::new\<close> stacks them over
  the raw client, each one the operation of its own theory. \<open>client_state\<close> is what the layers keep of the
  builder, \<open>client_world\<close> what a call changes: the network, the node selector, the registry of host
  metrics, the timers and spans, and a ghost log of the requests handed to the raw client, each with the network's state then. The crates
  the layers call, the network and the random numbers are the fields of \<open>client_env\<close>. A panic
  unwinds through all layers: the first one is noted in the world, and the call has no other result. The wait for a node's
  permit is not part of the composition: \<open>limited_wrap_as_node\<close> shows that a request whose permit is
  granted does what \<open>node_stack\<close> does.
\<close>

type_synonym ('b, 'd, 'h) base_body = "('b, 'd, 'h) decoded_body wait_for_spans_body"

record client_state =
  st_builder :: builder
  st_metrics :: "metrics_layer option"
  st_retry :: retry_service
  st_proxy :: proxy_setup
  st_raw :: raw_client_parts

record ('h, 'net) client_world =
  cw_net :: 'net
  cw_selector :: node_selector
  cw_registry :: "registry option"
  cw_timers :: "timer_update list"
  cw_spans :: "span list"
  cw_log :: "(('h, raw_body) request \<times> 'net) list"
  cw_panic :: "node_fault option"

record ('h, 't, 'd, 'k, 'e, 'b, 'net) client_env =
  cv_http :: http_api
  cv_errors :: "'e error_api"
  cv_headers :: "'h header_api"
  cv_text :: text_api
  cv_trace :: "('h, 't, 'net) trace_api"
  cv_gzip :: "'d gz_api"
  cv_uri :: uri_api
  cv_math :: f64_math
  cv_codec :: "('h, 'k, ('b, 'd, 'h) base_body) codec_api"
  cv_raw :: "raw_client_parts \<Rightarrow> (('h, raw_body) request, 'net, cause, ('h, 'b) response) service"
  cv_writer :: "'net \<Rightarrow> bool \<times> ('e + unit)"
  cv_reset :: "'net \<Rightarrow> bool \<times> 'net"
  cv_random :: "duration \<Rightarrow> 'net \<Rightarrow> duration \<times> 'net"
  cv_sleep :: "duration \<Rightarrow> 'net \<Rightarrow> 'net"
  cv_now :: "'net \<Rightarrow> duration"
  cv_clock :: "'net \<Rightarrow> u64"
  cv_shuffle :: "nat list \<Rightarrow> nat list"
  cv_pick :: "'net \<Rightarrow> nat"
  cv_context :: "'net \<Rightarrow> nat"

subsection \<open>Building the client\<close>

definition client_state_new ::
  "tls_api \<Rightarrow> uri_api \<Rightarrow> url_api \<Rightarrow> text_api \<Rightarrow> 'e error_api \<Rightarrow> (nat list \<Rightarrow> nat list) \<Rightarrow>
   (limited_node list \<Rightarrow> limited_node list) \<Rightarrow> duration \<Rightarrow> builder \<Rightarrow> duration \<Rightarrow> registry option \<Rightarrow>
   node_fault + ('e + (client_state \<times> node_selector \<times> (string \<times> string \<times> string) list \<times> registry option))" where
  "client_state_new X U L V E shuffle shuffle_nodes jitter b now reg =
     (case raw_client_new X U V E b of
        Inl p \<Rightarrow> Inl (Panicked p)
      | Inr (Inl e) \<Rightarrow> Inr (Inl e)
      | Inr (Inr rc) \<Rightarrow>
          and_then (node_selector_new L shuffle shuffle_nodes jitter b now reg) (\<lambda>(sel, gauges, reg').
            case proxy_from_config U V E (cc_proxy (cached b)) of
              Inl p \<Rightarrow> Inl (Panicked p)
            | Inr (Inl e) \<Rightarrow> Inr (Inl e)
            | Inr (Inr p) \<Rightarrow>
                Inr (Inr (\<lparr>st_builder = b, st_metrics = metrics_layer_new b, st_retry = retry_layer_new b,
                           st_proxy = p, st_raw = rc\<rparr>, sel, gauges, reg'))))"

text \<open>A client shares its state; one made by \<^verbatim>\<open>Builder::build\<close> follows no configuration.\<close>

record 'sub client =
  cl_state :: client_state
  cl_subscription :: "'sub option"

definition client_new :: "client_state \<Rightarrow> 'sub option \<Rightarrow> 'sub client" where
  "client_new st subscription = \<lparr>cl_state = st, cl_subscription = subscription\<rparr>"

definition builder_build ::
  "tls_api \<Rightarrow> uri_api \<Rightarrow> url_api \<Rightarrow> text_api \<Rightarrow> 'e error_api \<Rightarrow> (nat list \<Rightarrow> nat list) \<Rightarrow>
   (limited_node list \<Rightarrow> limited_node list) \<Rightarrow> duration \<Rightarrow> builder \<Rightarrow> duration \<Rightarrow> registry option \<Rightarrow>
   node_fault + ('e + ('sub client \<times> node_selector \<times> (string \<times> string \<times> string) list \<times> registry option))" where
  "builder_build X U L V E shuffle shuffle_nodes jitter b now reg =
     and_then (client_state_new X U L V E shuffle shuffle_nodes jitter b now reg) (\<lambda>r.
       Inr (and_then r (\<lambda>(st, rest). Inr (client_new st None, rest))))"

definition client_world_new :: "'net \<Rightarrow> node_selector \<Rightarrow> registry option \<Rightarrow> ('h, 'net) client_world" where
  "client_world_new net sel reg =
     \<lparr>cw_net = net, cw_selector = sel, cw_registry = reg, cw_timers = [], cw_spans = [], cw_log = [], cw_panic = None\<rparr>"

subsection \<open>The layers over the world\<close>

text \<open>A panic below a layer: the result stands for the unwinding and is discarded by \<open>client_send\<close>.\<close>

definition note_panic :: "node_fault \<Rightarrow> ('h, 'net) client_world \<Rightarrow> ('h, 'net) client_world" where
  "note_panic f w = w\<lparr>cw_panic := (case cw_panic w of None \<Rightarrow> Some f | Some g \<Rightarrow> Some g)\<rparr>"

definition unwinding :: "'e error_api \<Rightarrow> node_fault \<Rightarrow> ('h, 'net) client_world \<Rightarrow> ('e + 'r) \<times> ('h, 'net) client_world" where
  "unwinding E f w = (Inl (internal_safe E (Foreign ''panic'' None)), note_panic f w)"

definition caught ::
  "'e error_api \<Rightarrow> ('h, 'net) client_world \<Rightarrow> node_fault + (('e + 'r) \<times> ('h, 'net) client_world) \<Rightarrow>
   ('e + 'r) \<times> ('h, 'net) client_world" where
  "caught E w m = (case m of Inl f \<Rightarrow> unwinding E f w | Inr x \<Rightarrow> x)"

definition raw_stack ::
  "('h, 't, 'd, 'k, 'e, 'b, 'net) client_env \<Rightarrow> client_state \<Rightarrow>
   (('h, raw_body) request, ('h, 'net) client_world, cause, ('h, 'b) response) service" where
  "raw_stack V st req w =
     (case cv_raw V (st_raw st) req (cw_net w) of
        (r, net) \<Rightarrow> (r, w\<lparr>cw_net := net, cw_log := cw_log w @ [(req, cw_net w)]\<rparr>))"

definition trace_of :: "('h, 't, 'd, 'k, 'e, 'b, 'net) client_env \<Rightarrow> ('h, 't, ('h, 'net) client_world) trace_api" where
  "trace_of V = \<lparr>tr_current = (\<lambda>w. tr_current (cv_trace V) (cw_net w)), tr_inject = tr_inject (cv_trace V)\<rparr>"

definition outbound_stack ::
  "('h, 't, 'd, 'k, 'e, 'b, 'net) client_env \<Rightarrow> client_state \<Rightarrow>
   (('h, raw_body) request, ('h, 'net) client_world, 'e, ('h, ('b, 'd, 'h) decoded_body) response) service" where
  "outbound_stack V st req w =
     caught (cv_errors V) w (map_sum Panicked (\<lambda>x. x)
       (outbound_call (cv_uri V) (cv_headers V) (cv_text V) (cv_errors V) (trace_of V) (cv_gzip V) (st_builder st)
          (st_proxy st) (raw_stack V st) req w))"

definition node_metrics_stack ::
  "('h, 't, 'd, 'k, 'e, 'b, 'net) client_env \<Rightarrow> client_state \<Rightarrow> ('h, raw_body) request \<Rightarrow> ('h, 'net) client_world \<Rightarrow>
   node_fault + (('e + ('h, ('b, 'd, 'h) decoded_body) response) \<times> ('h, 'net) client_world)" where
  "node_metrics_stack V st req w =
     and_then
       (node_metrics_call (outbound_stack V st) (\<lambda>w. cv_now V (cw_net w)) req w
          (case cw_registry w of Some r \<Rightarrow> r | None \<Rightarrow> registry_new))
       (\<lambda>(r, w', reg). Inr (r, w'\<lparr>cw_registry := map_option (\<lambda>_. reg) (cw_registry w')\<rparr>))"

definition node_stack ::
  "('h, 't, 'd, 'k, 'e, 'b, 'net) client_env \<Rightarrow> client_state \<Rightarrow>
   (('h, raw_body) request, ('h, 'net) client_world, 'e, ('h, ('b, 'd, 'h) decoded_body) response) service" where
  "node_stack V st req w =
     caught (cv_errors V) w (node_uri_call (cv_uri V) (node_metrics_stack V st) req w)"

definition selector_stack ::
  "('h, 't, 'd, 'k, 'e, 'b, 'net) client_env \<Rightarrow> client_state \<Rightarrow>
   (('h, raw_body) request, ('h, 'net) client_world, 'e, ('h, ('b, 'd, 'h) decoded_body) response) service" where
  "selector_stack V st req w =
     (case selector_call (cv_http V) (cv_errors V) (cv_math V) (cv_shuffle V) (cv_now V (cw_net w))
             (\<lambda>w. cv_clock V (cw_net w)) (cv_pick V (cw_net w))
             (\<lambda>n req. node_stack V st (req\<lparr>rq_node := Some (ln_node n)\<rparr>)) (cw_selector w) req w of
        None \<Rightarrow> unwinding (cv_errors V) (Panicked ArithmeticOverflow) w
      | Some (r, sel, w') \<Rightarrow> (r, w'\<lparr>cw_selector := sel\<rparr>))"

definition spans_stack ::
  "('h, 't, 'd, 'k, 'e, 'b, 'net) client_env \<Rightarrow> client_state \<Rightarrow>
   (('h, raw_body) request, ('h, 'net) client_world, 'e, ('h, ('b, 'd, 'h) base_body) response) service" where
  "spans_stack V st req w =
     (case wait_for_spans_call (cv_context V (cw_net w)) (cv_context V (cw_net w)) (\<lambda>_. selector_stack V st) req (w, []) of
        (r, (w', ended)) \<Rightarrow> (r, w'\<lparr>cw_spans := cw_spans w' @ ended\<rparr>))"

definition http_error_stack ::
  "('h, 't, 'd, 'k, 'e, 'b, 'net) client_env \<Rightarrow> client_state \<Rightarrow>
   (('h, raw_body) request, ('h, 'net) client_world, 'e, ('h, ('b, 'd, 'h) base_body) response) service" where
  "http_error_stack V st =
     http_error_call (cv_http V) (cv_errors V) (cv_headers V) (cv_codec V) (cc_server_qos (cached (st_builder st)))
       (cc_service_error (cached (st_builder st))) (spans_stack V st)"

definition attempt_span :: "nat \<Rightarrow> nat \<Rightarrow> ('h, async_body) request \<Rightarrow> panic + span" where
  "attempt_span context attempt req =
     add_request_tags req (tag ''failures'' (show_nat attempt)
       \<lparr>sp_context = context, sp_name = ''conjure-runtime: attempt'', sp_tags = []\<rparr>)"

text \<open>The span's future ends in the poll that ends the attempt; its tags are taken before.\<close>

definition attempt_env ::
  "('h, 't, 'd, 'k, 'e, 'b, 'net) client_env \<Rightarrow> client_state \<Rightarrow>
   ('h, 'e, ('h, ('b, 'd, 'h) base_body) response, ('h, 'net) client_world) retry_env" where
  "attempt_env V st =
     \<lparr>rt_exchange = (\<lambda>req w.
        case http_error_stack V st req w of
          (r, w') \<Rightarrow> (case cv_writer V (cw_net w') of (polled, out) \<Rightarrow> ((polled, out, r), w'))),
      rt_reset = (\<lambda>w. case cv_reset V (cw_net w) of (ok, net) \<Rightarrow> (ok, w\<lparr>cw_net := net\<rparr>)),
      rt_random = (\<lambda>mx w. case cv_random V mx (cw_net w) of (d, net) \<Rightarrow> (d, w\<lparr>cw_net := net\<rparr>)),
      rt_sleep = (\<lambda>d w. w\<lparr>cw_net := cv_sleep V d (cw_net w)\<rparr>),
      rt_span = (\<lambda>attempt req w r w'.
        case attempt_span (cv_context V (cw_net w)) attempt req of
          Inl p \<Rightarrow> note_panic (Panicked p) w'
        | Inr s \<Rightarrow> w'\<lparr>cw_spans := cw_spans w' @ [tag_result (cv_http V) (cv_errors V) r s]\<rparr>)\<rparr>"

definition retry_stack ::
  "('h, 't, 'd, 'k, 'e, 'b, 'net) client_env \<Rightarrow> client_state \<Rightarrow>
   (('h, async_body) request, ('h, 'net) client_world, 'e, ('h, ('b, 'd, 'h) base_body) response) service" where
  "retry_stack V st req w =
     caught (cv_errors V) w
       (case retry_call (cv_http V) (cv_errors V) (st_retry st) (attempt_env V st) req w of
          Inl p \<Rightarrow> Inl (Panicked p)
        | Inr (r, w', tr) \<Rightarrow> Inr (r, w'))"

text \<open>The span's future holds the request until it is first polled, and the call ends in that poll.\<close>

definition root_span_stack ::
  "('h, 't, 'd, 'k, 'e, 'b, 'net) client_env \<Rightarrow> client_state \<Rightarrow>
   (('h, async_body) request, ('h, 'net) client_world, 'e, ('h, ('b, 'd, 'h) base_body) response) service" where
  "root_span_stack V st req w =
     caught (cv_errors V) w
       (case root_span_call (cv_context V (cw_net w)) (\<lambda>req. (req, w)) req [] of
          Inl p \<Rightarrow> Inl (Panicked p)
        | Inr fut \<Rightarrow>
            (case http_span_poll (cv_http V) (cv_errors V)
                    (\<lambda>_ (req, w). case retry_stack V st req w of (r, w') \<Rightarrow> (Ready r, (req, w'))) fut of
               (Ready (Inr r), fut') \<Rightarrow>
                 (let w' = snd (hs_inner fut') in Inr (r, w'\<lparr>cw_spans := cw_spans w' @ hs_ended fut'\<rparr>))
             | (Ready (Inl p), _) \<Rightarrow> Inl (Panicked p)
             | (Pending, _) \<Rightarrow> Inl (Panicked (Expect ''ready''))))"

definition metrics_stack ::
  "('h, 't, 'd, 'k, 'e, 'b, 'net) client_env \<Rightarrow> client_state \<Rightarrow>
   (('h, async_body) request, ('h, 'net) client_world, 'e, ('h, ('b, 'd, 'h) base_body) response) service" where
  "metrics_stack V st req w =
     caught (cv_errors V) w
       (case metrics_call (st_metrics st) (\<lambda>w. cv_now V (cw_net w)) (root_span_stack V st) req (w, []) of
          Inl p \<Rightarrow> Inl (Panicked p)
        | Inr (r, (w', updates)) \<Rightarrow> Inr (r, w'\<lparr>cw_timers := cw_timers w' @ updates\<rparr>))"

definition client_send ::
  "('h, 't, 'd, 'k, 'e, 'b, 'net) client_env \<Rightarrow> client_state \<Rightarrow> ('h, async_body) request \<Rightarrow> ('h, 'net) client_world \<Rightarrow>
   node_fault + (('e + ('h, ('b, 'd, 'h) base_body response_body) response) \<times> ('h, 'net) client_world)" where
  "client_send V st req w =
     (case response_body_call (metrics_stack V st) req w of
        (r, w') \<Rightarrow> (case cw_panic w' of Some f \<Rightarrow> Inl f | None \<Rightarrow> Inr (r, w')))"

subsection \<open>What each layer adds\<close>

definition env_ok :: "('h, 't, 'd, 'k, 'e, 'b, 'net) client_env \<Rightarrow> bool" where
  "env_ok V \<longleftrightarrow>
     header_ok (cv_headers V) \<and> text_ok (cv_text V) \<and> trace_ok (cv_headers V) (cv_trace V) \<and>
     error_ok (cv_errors V) \<and> http_ok (cv_http V) \<and> shuffle_ok (cv_shuffle V) \<and>
     (\<forall>mx net. 0 < mx \<longrightarrow> fst (cv_random V mx net) < mx)"

definition st_uris :: "client_state \<Rightarrow> url list" where
  "st_uris st = cc_uris (cached (st_builder st))"

text \<open>A request as the generated clients make it: an endpoint of a service with a valid name, and a path
  without scheme and authority that forms a URI with every configured one.\<close>

definition request_ok ::
  "('h, 't, 'd, 'k, 'e, 'b, 'net) client_env \<Rightarrow> client_state \<Rightarrow> endpoint \<Rightarrow> ('h, 'q) request \<Rightarrow> bool" where
  "request_ok V st ed req \<longleftrightarrow>
     rq_endpoint req = Some ed \<and> valid_name (ed_service ed) \<and>
     uri_scheme (cv_uri V) (rq_uri req) = None \<and> uri_authority (cv_uri V) (rq_uri req) = None \<and>
     (\<exists>rest. uri_path (cv_uri V) (rq_uri req) = CHR ''/'' # rest) \<and>
     (\<forall>u \<in> set (st_uris st). uri_parses (cv_uri V) (strip_slash u @ rq_uri req))"

definition sent_for ::
  "('h, 't, 'd, 'k, 'e, 'b, 'net) client_env \<Rightarrow> client_state \<Rightarrow> endpoint \<Rightarrow> ('h, raw_body) request \<Rightarrow>
   ('h, raw_body) request \<Rightarrow> bool" where
  "sent_for V st ed req q \<longleftrightarrow>
     rq_method q = rq_method req \<and> rq_body q = rq_body req \<and> rq_endpoint q = rq_endpoint req \<and>
     (\<exists>u \<in> set (st_uris st). rq_uri q = strip_slash u @ rq_uri req) \<and>
     (\<forall>k. \<not> is_b3 k \<longrightarrow> hd_get (cv_headers V) (rq_headers q) k =
        wire_header (cv_uri V) (cv_headers V) (st_builder st) (st_proxy st) ed (req\<lparr>rq_uri := rq_uri q\<rparr>) k)"

text \<open>
  A response that the layers made from the raw client's answer to a request in a state of the network: its
  status, its headers and its body are those of the decoded answer, the body inside what \<open>g\<close> unwraps.
\<close>

definition answers ::
  "('h, 't, 'd, 'k, 'e, 'b, 'net) client_env \<Rightarrow> client_state \<Rightarrow> ('c \<Rightarrow> ('b, 'd, 'h) decoded_body) \<Rightarrow>
   ('h, raw_body) request \<times> 'net \<Rightarrow> 'e + ('h, 'c) response \<Rightarrow> bool" where
  "answers V st g x r \<longleftrightarrow>
     (\<forall>resp. r = Inr resp \<longrightarrow>
        (\<exists>raw. fst (cv_raw V (st_raw st) (fst x) (snd x)) = Inr raw \<and>
           (let d = decode_response (cv_headers V) (cv_gzip V) raw
            in rs_status resp = rs_status d \<and> rs_headers resp = rs_headers d \<and> g (rs_body resp) = rs_body d)))"

definition st_balanced :: "client_state \<Rightarrow> bool" where
  "st_balanced st \<longleftrightarrow> cc_node_selection_strategy (cached (st_builder st)) = Balanced"

text \<open>The bookkeeping of the balanced selector and the arithmetic of the backoff may overflow, and nothing else panics.\<close>

definition panicked :: "client_state \<Rightarrow> ('h, 'net) client_world \<Rightarrow> bool" where
  "panicked st w \<longleftrightarrow>
     cw_panic w = Some (Panicked ArithmeticOverflow) \<and> (st_balanced st \<or> \<not> backoff_fits (st_retry st))"

definition world_ok :: "client_state \<Rightarrow> ('h, 'net) client_world \<Rightarrow> bool" where
  "world_ok st w \<longleftrightarrow>
     cw_panic w = None \<and> selector_ok (cw_selector w) \<and>
     (\<forall>ts. cw_selector w = BalancedNodeSelector ts \<longrightarrow> st_balanced st) \<and>
     mset (map (\<lambda>n. node_url (ln_node n)) (selector_nodes (cw_selector w))) = mset (st_uris st)"

lemma outbound_stack_sends:
  fixes V :: "('h, 't, 'd, 'k, 'e, 'b, 'net) client_env"
  assumes "env_ok V" "user_agent_ok (cc_user_agent (cached (st_builder st)))"
    and "rq_endpoint req = Some ed" "valid_name (ed_service ed)"
  shows "\<exists>q r net. outbound_stack V st req w = (r, w\<lparr>cw_net := net, cw_log := cw_log w @ [(q, cw_net w)]\<rparr>) \<and>
    q = req\<lparr>rq_headers := rq_headers q\<rparr> \<and> answers V st (\<lambda>b. b) (q, cw_net w) r \<and>
    (\<forall>k. \<not> is_b3 k \<longrightarrow> hd_get (cv_headers V) (rq_headers q) k =
       wire_header (cv_uri V) (cv_headers V) (st_builder st) (st_proxy st) ed req k)"
proof -
  have tr: "trace_ok (cv_headers V) (trace_of V)" using assms(1) by (simp add: env_ok_def trace_ok_def trace_of_def)
  have ok: "header_ok (cv_headers V)" "text_ok (cv_text V)" using assms(1) by (simp_all add: env_ok_def)
  obtain q where q: "outbound_call (cv_uri V) (cv_headers V) (cv_text V) (cv_errors V) (trace_of V) (cv_gzip V)
        (st_builder st) (st_proxy st) (raw_stack V st) req w =
      Inr (map_prod (map_sum (\<lambda>e. e)
          (decode_response (cv_headers V) (cv_gzip V) :: _ \<Rightarrow> ('h, ('b, 'd, 'h) decoded_body) response)) (\<lambda>w. w)
        (map_error_call (cv_errors V) (raw_stack V st) q w))"
    "q = req\<lparr>rq_headers := rq_headers q\<rparr>" "\<forall>k. \<not> is_b3 k \<longrightarrow> hd_get (cv_headers V) (rq_headers q) k =
       wire_header (cv_uri V) (cv_headers V) (st_builder st) (st_proxy st) ed req k"
    using outbound_call_sends [OF ok tr assms(2,3,4), of "cv_uri V" "cv_errors V" "cv_gzip V" "st_proxy st" "raw_stack V st" w]
    by (elim exE conjE) (rule that)
  obtain x net where x: "cv_raw V (st_raw st) q (cw_net w) = (x, net)" by fastforce
  then have raw: "raw_stack V st q w = (x, w\<lparr>cw_net := net, cw_log := cw_log w @ [(q, cw_net w)]\<rparr>)" by (simp add: raw_stack_def)
  have "\<exists>r. outbound_stack V st req w = (r, w\<lparr>cw_net := net, cw_log := cw_log w @ [(q, cw_net w)]\<rparr>) \<and> answers V st (\<lambda>b. b) (q, cw_net w) r"
  proof (cases x)
    case (Inl c)
    then show ?thesis using q(1) raw by (simp add: outbound_stack_def caught_def map_error_call_def answers_def)
  next
    case (Inr resp)
    then have "answers V st (\<lambda>b. b) (q, cw_net w) (Inr (decode_response (cv_headers V) (cv_gzip V) resp))"
      using x by (simp add: answers_def decode_response_def)
    with Inr show ?thesis using q(1) raw by (simp add: outbound_stack_def caught_def map_error_call_def)
  qed
  with q(2,3) show ?thesis by blast
qed

lemma node_stack_sends:
  assumes "env_ok V" "user_agent_ok (cc_user_agent (cached (st_builder st)))" "request_ok V st ed req"
    and "rq_node req = Some n" "node_url n \<in> set (st_uris st)"
  shows "\<exists>q r net reg. node_stack V st req w =
      (r, w\<lparr>cw_net := net, cw_log := cw_log w @ [(q, cw_net w)], cw_registry := reg\<rparr>) \<and>
    sent_for V st ed req q \<and> answers V st (\<lambda>b. b) (q, cw_net w) r"
proof -
  let ?uri = "strip_slash (node_url n) @ rq_uri req"
  let ?req = "req\<lparr>rq_uri := ?uri\<rparr>"
  have ed: "rq_endpoint ?req = Some ed" "valid_name (ed_service ed)" using assms(3) by (auto simp: request_ok_def)
  obtain q r net where q: "outbound_stack V st ?req w = (r, w\<lparr>cw_net := net, cw_log := cw_log w @ [(q, cw_net w)]\<rparr>)"
    "q = ?req\<lparr>rq_headers := rq_headers q\<rparr>" "answers V st (\<lambda>b. b) (q, cw_net w) r"
    "\<forall>k. \<not> is_b3 k \<longrightarrow> hd_get (cv_headers V) (rq_headers q) k =
       wire_header (cv_uri V) (cv_headers V) (st_builder st) (st_proxy st) ed ?req k"
    using outbound_stack_sends [OF assms(1,2) ed] by blast
  have uri: "rq_uri q = ?uri" by (subst q(2)) simp
  have fields: "rq_method q = rq_method req" "rq_body q = rq_body req" "rq_endpoint q = rq_endpoint req"
    by (subst q(2), simp)+
  with q(4) uri assms(5) have "sent_for V st ed req q" by (auto simp: sent_for_def)
  moreover have "\<exists>reg. node_stack V st req w = (r, w\<lparr>cw_net := net, cw_log := cw_log w @ [(q, cw_net w)], cw_registry := reg\<rparr>)"
    using assms(3,4,5) q(1)
    by (auto simp: node_stack_def node_uri_call_def node_metrics_stack_def node_metrics_call_def caught_def
        request_ok_def Let_def)
  ultimately show ?thesis using q(3) by blast
qed

lemma wire_header_cong:
  assumes "rq_headers r = rq_headers r'" "rq_uri r = rq_uri r'"
  shows "wire_header U A b p ed r k = wire_header U A b p ed r' k"
  unfolding wire_header_def assms by (rule refl)

lemma node_stack_replaces: "rq_node (req\<lparr>rq_node := Some n\<rparr>) = Some n"
  by simp

text \<open>The node call of the composition is \<open>LimitedNode::wrap\<close> once the node's permit is granted, or without limiter.\<close>

lemma limited_wrap_as_node:
  assumes "case ln_limiter n of None \<Rightarrow> True | Some l \<Rightarrow> limiter_ok l \<and>
    (\<exists>ep p l1. rq_endpoint req = Some ep \<and> limiter_poll a wk (AcqStart (request_key req ep)) l = Inr (Inr p, l1))"
    and "node_stack V st (req\<lparr>rq_node := Some (ln_node n)\<rparr>) w = (r, w')"
  shows "\<exists>n'. limited_wrap H E a wk (node_stack V st) req n w = Inr (Inr r, n', w')"
proof (cases "ln_limiter n")
  case None
  then show ?thesis using assms(2) by (simp add: limited_wrap_def acquired_wrap_def)
next
  case (Some l)
  with assms(1) obtain ep p l1 where l: "limiter_ok l" "rq_endpoint req = Some ep"
    "limiter_poll a wk (AcqStart (request_key req ep)) l = Inr (Inr p, l1)" by auto
  from limited_wrap_granted [OF Some l, of H E "node_stack V st" w] assms(2) show ?thesis by auto
qed

text \<open>The numbers of failures that the ended spans of attempts carry.\<close>

definition attempt_failures :: "('h, 'net) client_world \<Rightarrow> string option list" where
  "attempt_failures w =
     map (\<lambda>s. map_of (sp_tags s) ''failures'') (filter (\<lambda>s. sp_name s = ''conjure-runtime: attempt'') (cw_spans w))"

lemma attempt_failures_frame [simp]:
  "attempt_failures (w\<lparr>cw_net := net\<rparr>) = attempt_failures w"
  "attempt_failures (w\<lparr>cw_selector := sel\<rparr>) = attempt_failures w"
  "attempt_failures (w\<lparr>cw_timers := ts\<rparr>) = attempt_failures w"
  by (simp_all add: attempt_failures_def)

text \<open>What one attempt does below the retry layer.\<close>

definition exchanged ::
  "('h, 't, 'd, 'k, 'e, 'b, 'net) client_env \<Rightarrow> client_state \<Rightarrow> ('c \<Rightarrow> ('b, 'd, 'h) decoded_body) \<Rightarrow> endpoint \<Rightarrow>
   ('h, raw_body) request \<Rightarrow> ('h, 'net) client_world \<Rightarrow> ('e + ('h, 'c) response) \<times> ('h, 'net) client_world \<Rightarrow> bool" where
  "exchanged V st g ed req w x \<longleftrightarrow>
     (case x of (r, w') \<Rightarrow>
        panicked st w' \<or>
        world_ok st w' \<and> cw_timers w' = cw_timers w \<and> attempt_failures w' = attempt_failures w \<and>
        (if st_uris st = [] then cw_log w' = cw_log w \<and> (\<exists>e. r = Inl e)
         else \<exists>q. cw_log w' = cw_log w @ [(q, cw_net w)] \<and> sent_for V st ed req q \<and> answers V st g (q, cw_net w) r))"

lemma selector_stack_exchanged:
  assumes "env_ok V" "user_agent_ok (cc_user_agent (cached (st_builder st)))" "request_ok V st ed req" "world_ok st w"
  shows "exchanged V st (\<lambda>b. b) ed req w (selector_stack V st req w)"
proof -
  let ?wrap = "\<lambda>n req. node_stack V st (req\<lparr>rq_node := Some (ln_node n)\<rparr>)"
  let ?sel = "cw_selector w"
  let ?call = "selector_call (cv_http V) (cv_errors V) (cv_math V) (cv_shuffle V) (cv_now V (cw_net w))
    (\<lambda>w. cv_clock V (cw_net w)) (cv_pick V (cw_net w)) ?wrap ?sel req w"
  have sh: "shuffle_ok (cv_shuffle V)" using assms(1) by (simp add: env_ok_def)
  have w: "selector_ok ?sel" "\<And>ts. ?sel = BalancedNodeSelector ts \<Longrightarrow> st_balanced st"
    and urls: "mset (map (\<lambda>n. node_url (ln_node n)) (selector_nodes ?sel)) = mset (st_uris st)"
    using assms(4) by (auto simp: world_ok_def)
  show ?thesis
  proof (cases "selector_nodes ?sel = []")
    case True
    then obtain s where "?sel = EmptySelector s"
      using w by (cases ?sel) (auto simp: reshuffling_len_def fixed_len_def reshuffling_ok_def)
    moreover from True urls have "st_uris st = []" by simp
    ultimately show ?thesis using assms(4)
      by (simp add: exchanged_def selector_stack_def selector_call_def empty_call_def world_ok_def)
  next
    case False
    with urls have ne: "st_uris st \<noteq> []" by (metis Nil_is_map_conv mset_zero_iff)
    show ?thesis
    proof (cases ?call)
      case None
      moreover have "st_balanced st" using selector_call_total [OF sh w(1)] w(2) None by (metis option.distinct(1))
      moreover have "cw_panic w = None" using assms(4) by (simp add: world_ok_def)
      ultimately show ?thesis by (simp add: exchanged_def selector_stack_def panicked_def unwinding_def note_panic_def world_ok_def)
    next
    case (Some x)
    then obtain r sel w' where c: "?call = Some (r, sel, w')" by (metis prod_cases3)
    from selector_call_on [OF sh w(1) False c] obtain n where
      n: "selector_ok sel" "mset (selector_nodes sel) = mset (selector_nodes ?sel)" "n \<in> set (selector_nodes ?sel)"
        "node_stack V st (req\<lparr>rq_node := Some (ln_node n)\<rparr>) w = (r, w')"
      by (auto simp: call_on_def)
    have u: "node_url (ln_node n) \<in> set (st_uris st)" using n(3) urls by (metis image_eqI list.set_map mset_eq_setD)
    have ok: "request_ok V st ed (req\<lparr>rq_node := Some (ln_node n)\<rparr>)" using assms(3) by (simp add: request_ok_def)
    obtain q net reg where q: "w' = w\<lparr>cw_net := net, cw_log := cw_log w @ [(q, cw_net w)], cw_registry := reg\<rparr>"
      "sent_for V st ed (req\<lparr>rq_node := Some (ln_node n)\<rparr>) q" "answers V st (\<lambda>b. b) (q, cw_net w) r"
      using node_stack_sends [OF assms(1,2) ok node_stack_replaces u, of w] n(4) by auto
    have "wire_header U A b p ed (req\<lparr>rq_node := Some (ln_node n), rq_uri := x\<rparr>) k =
        wire_header U A b p ed (req\<lparr>rq_uri := x\<rparr>) k" for U A b p x k
      by (rule wire_header_cong) simp_all
    then have "sent_for V st ed req q" using q(2) by (simp add: sent_for_def)
    moreover have "mset (map (\<lambda>n. node_url (ln_node n)) (selector_nodes sel)) = mset (st_uris st)"
      using n(2) urls by (metis mset_map)
    moreover have "\<forall>ts. sel = BalancedNodeSelector ts \<longrightarrow> st_balanced st" using selector_call_kind [OF c] w(2) by blast
    ultimately show ?thesis using c q n(1) ne assms(4)
      by (auto simp: exchanged_def selector_stack_def world_ok_def attempt_failures_def)
    qed
  qed
qed

lemma spans_stack_exchanged:
  assumes "exchanged V st (\<lambda>b. b) ed req w (selector_stack V st req w)"
  shows "exchanged V st wb_body ed req w (spans_stack V st req w)"
proof -
  obtain r w' where r: "selector_stack V st req w = (r, w')" by fastforce
  with assms show ?thesis
    by (cases r) (auto simp: spans_stack_def wait_for_spans_call_def exchanged_def world_ok_def answers_def Let_def
        panicked_def attempt_failures_def)
qed

lemma http_error_stack_exchanged:
  assumes "env_ok V" "exchanged V st wb_body ed req w (spans_stack V st req w)"
    and "http_error_stack V st req w = (r, w')"
  shows "exchanged V st wb_body ed req w (r, w') \<and> (\<forall>resp. r = Inr resp \<longrightarrow> 200 \<le> rs_status resp \<and> rs_status resp < 300)"
proof -
  obtain r0 where r0: "spans_stack V st req w = (r0, w')" "(\<exists>e. r = Inl e) \<or>
      (\<exists>resp. r0 = Inr resp \<and> r = Inr resp \<and> is_success (cv_http V) (rs_status resp))"
    using assms(3) by (auto simp: http_error_stack_def http_error_call_def split: prod.splits sum.splits if_splits)
  with assms(1,2) show ?thesis
    by (auto simp: exchanged_def answers_def env_ok_def http_ok_def)
qed

text \<open>The first panic stays noted.\<close>

definition keeps_panic :: "('req \<Rightarrow> ('h, 'net) client_world \<Rightarrow> 'r \<times> ('h, 'net) client_world) \<Rightarrow> bool" where
  "keeps_panic svc \<longleftrightarrow> (\<forall>req w f. cw_panic w = Some f \<longrightarrow> cw_panic (snd (svc req w)) = Some f)"

lemma keeps_panicD: "keeps_panic svc \<Longrightarrow> svc req w = (r, w') \<Longrightarrow> cw_panic w = Some f \<Longrightarrow> cw_panic w' = Some f"
  unfolding keeps_panic_def by (metis snd_conv)

lemma gzip_calls_raw: "gzip_call A G (map_error_call E raw) req w = (r, w') \<Longrightarrow> \<exists>q. w' = snd (raw q w)"
  by (auto simp: gzip_call_def map_error_call_def split: prod.splits sum.splits) (metis snd_conv)+

lemma outbound_calls_raw: "outbound_call U A V E T G b p raw req w = Inr (r, w') \<Longrightarrow> \<exists>q. w' = snd (raw q w)"
  by (auto simp: outbound_call_def stack_defs proxy_call_def trace_call_def user_agent_call_def
      error_format_call_def no_panic_def and_then_Inr_iff dest: gzip_calls_raw)

lemma outbound_panics:
  fixes V :: "('h, 't, 'd, 'k, 'e, 'b, 'net) client_env"
  assumes "cw_panic w = Some g"
  shows "cw_panic (snd (outbound_stack V st req w)) = Some g"
proof -
  have raw: "cw_panic (snd (raw_stack V st q w)) = cw_panic w" for q
    by (simp add: raw_stack_def split: prod.splits)
  show ?thesis
  proof (cases "outbound_call (cv_uri V) (cv_headers V) (cv_text V) (cv_errors V) (trace_of V) (cv_gzip V)
      (st_builder st) (st_proxy st) (raw_stack V st) req w ::
      panic + ('e + ('h, ('b, 'd, 'h) decoded_body) response) \<times> ('h, 'net) client_world")
    case (Inl f)
    then show ?thesis using assms by (simp add: outbound_stack_def caught_def unwinding_def note_panic_def)
  next
    case (Inr x)
    obtain r w' where x: "x = (r, w')" by fastforce
    from outbound_calls_raw [OF Inr [unfolded x]] raw assms have "cw_panic w' = Some g" by metis
    with Inr x show ?thesis by (simp add: outbound_stack_def caught_def)
  qed
qed

lemma node_panics: "keeps_panic (node_stack V st)"
  using outbound_panics [of _ _ V st]
  by (auto simp: keeps_panic_def node_stack_def node_uri_call_def node_metrics_stack_def node_metrics_call_def caught_def
      unwinding_def note_panic_def Let_def split: option.splits prod.splits if_splits) (metis snd_conv)+

lemma pin_call_wraps:
  "pin_call H len get wrap req (ns, pin, w) = Some (r, ns', pin', w') \<Longrightarrow> \<exists>n. wrap n req w = (r, w')"
  by (auto simp: pin_call_def split: prod.splits option.splits)

lemma selector_call_wraps:
  assumes "selector_call H E M shuffle now clock pick wrap sel req w = Some (r, sel', w')"
  shows "w' = w \<or> (\<exists>n. wrap n req w = (r, w'))"
proof (cases sel)
  case (BalancedNodeSelector ts)
  with assms show ?thesis by (auto simp: selector_call_def dest!: balanced_at_Some)
qed (use assms in \<open>auto simp: selector_call_def single_call_def dest!: pin_call_wraps split: prod.splits\<close>)

lemma http_error_panics:
  assumes "cw_panic w = Some f" "http_error_stack V st req w = (r, w')"
  shows "cw_panic w' = Some f"
proof -
  have sel: "cw_panic w1 = Some f" if h: "selector_stack V st req w = (x, w1)" for x w1
  proof (cases "selector_call (cv_http V) (cv_errors V) (cv_math V) (cv_shuffle V) (cv_now V (cw_net w))
        (\<lambda>w. cv_clock V (cw_net w)) (cv_pick V (cw_net w))
        (\<lambda>n req. node_stack V st (req\<lparr>rq_node := Some (ln_node n)\<rparr>)) (cw_selector w) req w")
    case None
    with h assms(1) show ?thesis by (auto simp: selector_stack_def unwinding_def note_panic_def)
  next
    case (Some y)
    then obtain x' sel w2 where c: "y = (x', sel, w2)" by (metis prod_cases3)
    from selector_call_wraps [OF Some [unfolded c]] keeps_panicD [OF node_panics] assms(1) have "cw_panic w2 = Some f" by blast
    with h Some c show ?thesis by (auto simp: selector_stack_def)
  qed
  obtain x w1 where "selector_stack V st req w = (x, w1)" by fastforce
  with sel [OF this] assms(2) show ?thesis
    by (auto simp: http_error_stack_def http_error_call_def spans_stack_def wait_for_spans_call_def Let_def
        split: prod.splits sum.splits if_splits)
qed

subsection \<open>The retry loop over a world\<close>

lemma prepare_for_retry_keeps:
  assumes "I w" "\<And>w. I w \<Longrightarrow> I (snd (rt_reset env w))" "\<And>mx w. I w \<Longrightarrow> I (snd (rt_random env mx w))"
    and "\<And>d w. I w \<Longrightarrow> I (rt_sleep env d w)"
    and "prepare_for_retry s env a nr e ra w = Inr (x, w', evs)"
  shows "I w'"
proof -
  obtain ok w1 where w1: "(if nr then rt_reset env w else (True, w)) = (ok, w1)" by fastforce
  then have "I w1" using assms(1) assms(2) [OF assms(1)] by (auto split: if_splits)
  moreover have "I w2" if "backoff s env a ra w1 = Inr (d, w2)" for d w2
    using that \<open>I w1\<close> assms(3) [OF \<open>I w1\<close>]
    by (auto simp: backoff_def Let_def split: option.splits if_splits) (metis snd_conv)+
  ultimately show ?thesis
    using assms(1,5) assms(4) w1
    by (auto simp: prepare_for_retry_def and_then_Inr_iff Let_def split: if_splits)
qed

lemma prepare_events: "prepare_for_retry s env a nr e ra w = Inr (x, w', evs) \<Longrightarrow> attempts (evs @ tr) = attempts tr"
  by (auto simp: prepare_for_retry_def and_then_Inr_iff Let_def attempts_def split: if_splits prod.splits)

lemma retry_loop_accounts:
  assumes "I a w" "retry_loop s E env i a req w = Inr (res, w', tr)"
    and ex: "\<And>a w x w' r. I a w \<Longrightarrow>
      rt_exchange env (clone_request req (raw_request_body (rq_body req))) w = (x, w') \<Longrightarrow>
      I (Suc a) (rt_span env a (clone_request req (rq_body req)) w r w') \<and>
      (\<forall>resp. snd (snd x) = Inr resp \<longrightarrow> r = Inr resp \<longrightarrow> Q resp (rt_span env a (clone_request req (rq_body req)) w r w'))"
    and steps: "\<And>k w. I k w \<Longrightarrow> I k (snd (rt_reset env w))" "\<And>k mx w. I k w \<Longrightarrow> I k (snd (rt_random env mx w))"
      "\<And>k d w. I k w \<Longrightarrow> I k (rt_sleep env d w)"
  shows "I (a + attempts tr) w' \<and> (\<forall>r. res = Inr r \<longrightarrow> Q r w')"
  using assms
proof (induction s E env i a req w arbitrary: res w' tr rule: retry_loop.induct)
  case (1 s E env i a req w)
  let ?q = "clone_request req (raw_request_body (rq_body req))"
  obtain polled out resp w0 where x: "rt_exchange env ?q w = ((polled, out, resp), w0)" by (metis surj_pair)
  obtain body nr where b: "writer_result (rq_body req) polled out = (body, nr)" by fastforce
  define raw where "raw = (case (body, resp) of (Inr _, Inr r) \<Rightarrow> Inr r | (Inr _, Inl e) \<Rightarrow> Inl e
    | (Inl _, Inr r) \<Rightarrow> Inr r | (Inl b, Inl h) \<Rightarrow> Inl (deconflict_errors E b h))"
  define w1 where "w1 = rt_span env a (clone_request req (rq_body req)) w raw w0"
  have q: "clone_request (clone_request req (rq_body req)) z = clone_request req z" for z :: raw_body
    by (simp add: clone_request_def)
  have b': "rq_body (clone_request req (rq_body req)) = rq_body req" by (simp add: clone_request_def)
  have sent: "send_raw E env (clone_request req (rq_body req)) w = (raw, polled, nr, w0)"
    unfolding send_raw_def q b' x raw_def by (simp add: b)
  have ok: "resp = Inr r" if "raw = Inr r" for r using that by (auto simp: raw_def split: sum.splits)
  have I1: "I (Suc a) w1" and Q1: "\<And>r. raw = Inr r \<Longrightarrow> Q r w1"
    using 1(4) [OF 1(2) x, of raw] ok unfolding w1_def by auto
  obtain out where at: "send_attempt E env a i (clone_request req (rq_body req)) w = (out, polled, nr, w1)"
    and out: "out = (case raw of Inr x \<Rightarrow> OutcomeOk x | Inl e \<Rightarrow> classify E i e)"
    by (simp add: send_attempt_def sent w1_def)
  show ?case
  proof (cases out)
    case (OutcomeOk r)
    then have "raw = Inr r" using out by (auto simp: classify_def split: sum.splits if_splits cause.splits)
    then show ?thesis using 1(3) at OutcomeOk I1 Q1 by (auto simp: retry_loop.simps [of s E env i a] Let_def)
  next
    case (OutcomeErr e)
    then show ?thesis using 1(3) at I1 by (auto simp: retry_loop.simps [of s E env i a] Let_def)
  next
    case (OutcomeRetry e ra)
    then obtain out2 w2 evs where p: "prepare_for_retry s env (a + 1) nr e ra w1 = Inr (out2, w2, evs)"
      using 1(3) at by (cases "prepare_for_retry s env (a + 1) nr e ra w1")
        (auto simp: retry_loop.simps [of s E env i a] Let_def)
    have I2: "I (a + 1) w2" using prepare_for_retry_keeps [OF I1 1(5-7) p] by simp
    show ?thesis
    proof (cases out2)
      case (Inl e')
      with p 1(3) at OutcomeRetry have "tr = Attempt a polled (reply_of E out) # evs" "w' = w2" "res = Inl e'"
        by (simp_all add: retry_loop.simps [of s E env i a] Let_def)
      with I2 prepare_events [OF p, of "[]"] show ?thesis by simp
    next
      case out2: (Inr u)
      with p 1(3) at OutcomeRetry obtain t where
        t: "retry_loop s E env i (a + 1) req w2 = Inr (res, w', t)"
        "tr = Attempt a polled (reply_of E out) # Retrying (cause_of E e) ra # evs @ t"
        by (auto simp: retry_loop.simps [of s E env i a] Let_def split: sum.splits)
      have "I (a + 1 + attempts t) w' \<and> (\<forall>r. res = Inr r \<longrightarrow> Q r w')"
        using 1(1) [OF at [symmetric] refl refl refl OutcomeRetry p refl out2 refl I2 t(1)] 1(4-7) by blast
      with t(2) prepare_events [OF p, of t] show ?thesis by simp
    qed
  qed
qed

subsection \<open>A whole call\<close>

definition retry_request :: "('h, async_body) request \<Rightarrow> ('h, raw_body) request" where
  "retry_request req = clone_request req (raw_request_body (rq_body req))"

definition during_call ::
  "('h, 't, 'd, 'k, 'e, 'b, 'net) client_env \<Rightarrow> client_state \<Rightarrow> endpoint \<Rightarrow> ('h, async_body) request \<Rightarrow>
   ('h, 'net) client_world \<Rightarrow> nat \<Rightarrow> ('h, 'net) client_world \<Rightarrow> bool" where
  "during_call V st ed req w0 k w \<longleftrightarrow>
     panicked st w \<or>
     world_ok st w \<and> cw_timers w = cw_timers w0 \<and>
     attempt_failures w = attempt_failures w0 @ map (\<lambda>i. Some (show_nat i)) [0..<k] \<and>
     (\<exists>sent. cw_log w = cw_log w0 @ sent \<and> length sent = (if st_uris st = [] then 0 else k) \<and>
        (\<forall>q \<in> fst ` set sent. sent_for V st ed (retry_request req) q))"

definition answered_last ::
  "('h, 't, 'd, 'k, 'e, 'b, 'net) client_env \<Rightarrow> client_state \<Rightarrow> ('c \<Rightarrow> ('b, 'd, 'h) decoded_body) \<Rightarrow>
   ('h, 'c) response \<Rightarrow> ('h, 'net) client_world \<Rightarrow> bool" where
  "answered_last V st g resp w \<longleftrightarrow>
     st_uris st \<noteq> [] \<and> 200 \<le> rs_status resp \<and> rs_status resp < 300 \<and> answers V st g (last (cw_log w)) (Inr resp :: _ + _)"

lemma attempt_span_tagged:
  assumes "rq_endpoint req = Some ed"
  shows "\<exists>s. attempt_span c a req = Inr s \<and> sp_name (tag_result H E r s) = ''conjure-runtime: attempt'' \<and>
    map_of (sp_tags (tag_result H E r s)) ''failures'' = Some (show_nat a)"
  using assms
  by (auto simp: attempt_span_def add_request_tags_def tag_def tag_result_def Let_def split: sum.splits option.splits)

lemma attempt_span_world:
  assumes "rq_endpoint req = Some ed"
  shows "\<exists>spans. rt_span (attempt_env V st) a req w r w' = w'\<lparr>cw_spans := spans\<rparr> \<and>
    attempt_failures (w'\<lparr>cw_spans := spans\<rparr>) = attempt_failures w' @ [Some (show_nat a)]"
  using attempt_span_tagged [OF assms, of "cv_context V (cw_net w)" a "cv_http V" "cv_errors V" r]
  by (auto simp: attempt_env_def attempt_failures_def)

lemma attempt_accounts:
  assumes "env_ok V" "user_agent_ok (cc_user_agent (cached (st_builder st)))" "request_ok V st ed req"
    and "during_call V st ed req w0 k w" "rt_exchange (attempt_env V st) (retry_request req) w = (x, w')"
  shows "during_call V st ed req w0 (Suc k) (rt_span (attempt_env V st) k (clone_request req (rq_body req)) w r0 w') \<and>
    (\<forall>resp. snd (snd x) = Inr resp \<longrightarrow>
       panicked st (rt_span (attempt_env V st) k (clone_request req (rq_body req)) w r0 w') \<or>
       answered_last V st wb_body resp (rt_span (attempt_env V st) k (clone_request req (rq_body req)) w r0 w'))"
proof -
  obtain r w1 where h: "http_error_stack V st (retry_request req) w = (r, w1)" by fastforce
  then have x: "w' = w1" "snd (snd x) = r"
    using assms(5) by (auto simp: attempt_env_def split: prod.splits)
  have ok: "request_ok V st ed (retry_request req)"
    using assms(3) by (simp add: request_ok_def retry_request_def clone_request_def)
  have "rq_endpoint (clone_request req (rq_body req)) = Some ed"
    using assms(3) by (simp add: request_ok_def clone_request_def)
  from attempt_span_world [OF this, of V st k w r0 w1] obtain spans where
    sp: "rt_span (attempt_env V st) k (clone_request req (rq_body req)) w r0 w1 = w1\<lparr>cw_spans := spans\<rparr>"
    "attempt_failures (w1\<lparr>cw_spans := spans\<rparr>) = attempt_failures w1 @ [Some (show_nat k)]" by blast
  show ?thesis
  proof (cases "panicked st w1")
    case True
    then show ?thesis by (simp add: x sp(1) during_call_def panicked_def)
  next
    case np: False
    then have w: "\<not> panicked st w" using http_error_panics [OF _ h] by (auto simp: panicked_def)
    then have "world_ok st w" using assms(4) by (simp add: during_call_def)
    from http_error_stack_exchanged [OF assms(1) spans_stack_exchanged [OF selector_stack_exchanged [OF assms(1,2) ok this]] h]
    have e: "exchanged V st wb_body ed (retry_request req) w (r, w1)"
      "\<forall>resp. r = Inr resp \<longrightarrow> 200 \<le> rs_status resp \<and> rs_status resp < 300" by blast+
    obtain sent where sent: "cw_log w = cw_log w0 @ sent" "length sent = (if st_uris st = [] then 0 else k)"
      "\<forall>q \<in> fst ` set sent. sent_for V st ed (retry_request req) q" "cw_timers w = cw_timers w0"
      "attempt_failures w = attempt_failures w0 @ map (\<lambda>i. Some (show_nat i)) [0..<k]"
      using assms(4) w by (auto simp: during_call_def)
    have af: "attempt_failures (w1\<lparr>cw_spans := spans\<rparr>) = attempt_failures w0 @ map (\<lambda>i. Some (show_nat i)) [0..<Suc k]"
      using e(1) np sent(5) by (simp add: sp(2) exchanged_def)
    show ?thesis
    proof (cases "st_uris st = []")
      case True
      with e(1) sent(1-4) np af show ?thesis by (auto simp: x sp(1) exchanged_def during_call_def world_ok_def)
    next
      case False
      then obtain q where q: "cw_log w1 = cw_log w @ [(q, cw_net w)]" "sent_for V st ed (retry_request req) q"
        "answers V st wb_body (q, cw_net w) r" "world_ok st w1" "cw_timers w1 = cw_timers w"
        using e(1) np by (auto simp: exchanged_def)
      have "during_call V st ed req w0 (Suc k) (w1\<lparr>cw_spans := spans\<rparr>)"
        unfolding during_call_def af
        using q sent(1-4) False by (auto simp: world_ok_def intro!: exI [of _ "sent @ [(q, cw_net w)]"])
      moreover have "answered_last V st wb_body resp (w1\<lparr>cw_spans := spans\<rparr>)" if "r = Inr resp" for resp
        using that q(1,3) e(2) False by (auto simp: answered_last_def answers_def)
      ultimately show ?thesis by (simp add: x sp(1))
    qed
  qed
qed

lemma attempt_env_keeps:
  assumes "during_call V st ed req w0 k w"
  shows "during_call V st ed req w0 k (snd (rt_reset (attempt_env V st) w))"
    "during_call V st ed req w0 k (snd (rt_random (attempt_env V st) mx w))"
    "during_call V st ed req w0 k (rt_sleep (attempt_env V st) d w)"
  using assms by (auto simp: attempt_env_def during_call_def world_ok_def panicked_def split: prod.splits)

lemma attempt_env_random:
  assumes "env_ok V"
  shows "random_ok (attempt_env V st)"
proof -
  have "fst (rt_random (attempt_env V st) mx w) = fst (cv_random V mx (cw_net w))" for mx w
    by (simp add: attempt_env_def split: prod.splits)
  then show ?thesis using assms by (simp add: random_ok_def env_ok_def)
qed

lemma retry_stack_call:
  assumes "env_ok V" "user_agent_ok (cc_user_agent (cached (st_builder st)))" "request_ok V st ed req" "world_ok st w"
  shows "\<exists>r w' k. retry_stack V st req w = (r, w') \<and> during_call V st ed req w k w' \<and> 1 \<le> k \<and>
    k \<le> unat (rt_max_num_retries (st_retry st)) + 1 \<and>
    (\<forall>resp. r = Inr resp \<longrightarrow> panicked st w' \<or> answered_last V st wb_body resp w')"
proof -
  let ?i = "is_request_idempotent (cv_http V) (rt_idempotency (st_retry st)) (rq_method req)"
  show ?thesis
  proof (cases "retry_loop (st_retry st) (cv_errors V) (attempt_env V st) ?i 0 req w")
    case (Inl p)
    then have "\<not> backoff_fits (st_retry st)"
      using retry_loop_total [of "st_retry st" 0 "cv_errors V" "attempt_env V st" ?i req w] by auto
    with Inl retry_loop_panics [OF Inl] assms(4) have "\<exists>e w'. retry_stack V st req w = (Inl e, w') \<and> panicked st w'"
      by (simp add: retry_stack_def retry_call_def caught_def unwinding_def note_panic_def panicked_def world_ok_def)
    then show ?thesis by (force simp: during_call_def)
  next
    case (Inr x)
    then obtain r w' tr where run:
      "retry_loop (st_retry st) (cv_errors V) (attempt_env V st) ?i 0 req w = Inr (r, w', tr)" by (metis prod_cases3)
    have start: "during_call V st ed req w 0 w" using assms(4) by (simp add: during_call_def)
    have "during_call V st ed req w (0 + attempts tr) w' \<and>
        (\<forall>resp. r = Inr resp \<longrightarrow> panicked st w' \<or> answered_last V st wb_body resp w')"
      using attempt_accounts [OF assms(1-3)] attempt_env_keeps
      by (intro retry_loop_accounts [where I = "during_call V st ed req w"
            and Q = "\<lambda>resp w. panicked st w \<or> answered_last V st wb_body resp w", OF start run])
        (auto simp: retry_request_def)
    moreover have "1 \<le> attempts tr \<and> attempts tr \<le> unat (rt_max_num_retries (st_retry st)) + 1"
      using retry_trace_bound [OF retry_loop_trace [OF attempt_env_random [OF assms(1)] _ run]] by simp
    moreover have "retry_stack V st req w = (r, w')" using run by (simp add: retry_stack_def retry_call_def caught_def)
    ultimately show ?thesis by auto
  qed
qed

lemma root_span_stack_eq:
  assumes "rq_endpoint req = Some ed" "retry_stack V st req w = (r, w')"
  shows "\<exists>spans. root_span_stack V st req w = (r, w'\<lparr>cw_spans := spans\<rparr>) \<and>
    attempt_failures (w'\<lparr>cw_spans := spans\<rparr>) = attempt_failures w'"
proof -
  obtain s where "add_request_tags req
      \<lparr>sp_context = cv_context V (cw_net w), sp_name = ''conjure-runtime: request'', sp_tags = []\<rparr> = Inr s"
    and s: "sp_name s = ''conjure-runtime: request''"
    using assms(1) by (simp add: add_request_tags_def tag_def)
  then have "root_span_stack V st req w =
      (r, w'\<lparr>cw_spans := cw_spans w' @ [tag_result (cv_http V) (cv_errors V) r s]\<rparr>)"
    using assms(2) by (simp add: root_span_stack_def root_span_call_def http_span_poll_def http_span_new_def
        caught_def Let_def)
  moreover have "sp_name (tag_result (cv_http V) (cv_errors V) r s) = sp_name s"
    by (simp add: tag_result_def tag_def Let_def split: sum.splits option.splits)
  ultimately show ?thesis using s by (auto simp: attempt_failures_def)
qed

lemma metrics_stack_eq:
  assumes "rq_endpoint req = Some ed" "root_span_stack V st req w = (r, w')"
  shows "\<exists>updates. metrics_stack V st req w = (r, w'\<lparr>cw_timers := cw_timers w' @ updates\<rparr>) \<and>
    length updates = (if st_metrics st = None then 0 else 1)"
  using assms by (cases "st_metrics st") (auto simp: metrics_stack_def metrics_call_def caught_def)

text \<open>The body below the reader and the span that the top layers put around it.\<close>

definition inner_body :: "('b, 'd, 'h) base_body response_body \<Rightarrow> ('b, 'd, 'h) decoded_body" where
  "inner_body rb = wb_body (fb_body (rb_body rb))"

lemma response_body_call_answered:
  assumes "response_body_call svc req w = (r, w')" "svc req w = (r0, w')"
  shows "case r0 of Inl e \<Rightarrow> r = Inl e
    | Inr resp0 \<Rightarrow> \<exists>resp. r = Inr resp \<and> rs_body resp = response_body_new (rs_body resp0) \<and>
        (answered_last V st wb_body resp0 w' \<longrightarrow> answered_last V st inner_body resp w')"
  using assms
  by (auto simp: response_body_call_def answered_last_def answers_def inner_body_def response_body_new_def fuse_new_def
      Let_def split: sum.splits)

lemma client_send_call:
  assumes "env_ok V" "user_agent_ok (cc_user_agent (cached (st_builder st)))" "request_ok V st ed req" "world_ok st w"
  shows "(client_send V st req w = Inl (Panicked ArithmeticOverflow) \<and> (st_balanced st \<or> \<not> backoff_fits (st_retry st))) \<or>
    (\<exists>r w' sent. client_send V st req w = Inr (r, w') \<and> world_ok st w' \<and> cw_log w' = cw_log w @ sent \<and>
    (\<forall>q \<in> fst ` set sent. sent_for V st ed (retry_request req) q) \<and>
    (if st_uris st = [] then sent = [] \<and> (\<exists>e. r = Inl e)
     else 1 \<le> length sent \<and> length sent \<le> unat (rt_max_num_retries (st_retry st)) + 1) \<and>
    (\<forall>resp. r = Inr resp \<longrightarrow> answered_last V st inner_body resp w' \<and> (\<exists>b. rs_body resp = response_body_new b)) \<and>
    length (cw_timers w') = length (cw_timers w) + (if st_metrics st = None then 0 else 1) \<and>
    (\<exists>n. attempt_failures w' = attempt_failures w @ map (\<lambda>i. Some (show_nat i)) [0..<n] \<and>
       1 \<le> n \<and> n \<le> unat (rt_max_num_retries (st_retry st)) + 1 \<and> (st_uris st \<noteq> [] \<longrightarrow> length sent = n)))"
proof -
  have ed: "rq_endpoint req = Some ed" using assms(3) by (simp add: request_ok_def)
  obtain r w1 k where c: "retry_stack V st req w = (r, w1)" "during_call V st ed req w k w1" "1 \<le> k"
    "k \<le> unat (rt_max_num_retries (st_retry st)) + 1"
    "\<forall>resp. r = Inr resp \<longrightarrow> panicked st w1 \<or> answered_last V st wb_body resp w1"
    using retry_stack_call [OF assms] by blast
  obtain spans where "root_span_stack V st req w = (r, w1\<lparr>cw_spans := spans\<rparr>)"
    and af: "attempt_failures (w1\<lparr>cw_spans := spans\<rparr>) = attempt_failures w1"
    using root_span_stack_eq [OF ed c(1)] by blast
  from metrics_stack_eq [OF ed this(1)] obtain updates where
    m: "metrics_stack V st req w = (r, w1\<lparr>cw_spans := spans, cw_timers := cw_timers w1 @ updates\<rparr>)"
    "length updates = (if st_metrics st = None then 0 else 1)" by auto
  let ?w = "w1\<lparr>cw_spans := spans, cw_timers := cw_timers w1 @ updates\<rparr>"
  obtain r' where r': "response_body_call (metrics_stack V st) req w = (r', ?w)"
    using m(1) by (cases r) (simp_all add: response_body_call_def)
  note top = response_body_call_answered [OF r' m(1), of V st]
  show ?thesis
  proof (cases "panicked st w1")
    case True
    then show ?thesis using r' by (simp add: client_send_def panicked_def)
  next
    case np: False
    obtain sent where s: "cw_log w1 = cw_log w @ sent" "length sent = (if st_uris st = [] then 0 else k)"
      "\<forall>q \<in> fst ` set sent. sent_for V st ed (retry_request req) q" and w1: "world_ok st w1" "cw_timers w1 = cw_timers w"
      "attempt_failures w1 = attempt_failures w @ map (\<lambda>i. Some (show_nat i)) [0..<k]"
      using c(2) np by (auto simp: during_call_def)
    have last: "answered_last V st wb_body resp ?w" if "r = Inr resp" for resp
      using c(5) that np by (simp add: answered_last_def)
    have fail: "\<exists>e. r' = Inl e" if "st_uris st = []"
      using last top that by (cases r) (auto simp: answered_last_def)
    have send: "client_send V st req w = Inr (r', ?w)"
      using r' w1(1) by (simp add: client_send_def world_ok_def)
    have "answered_last V st inner_body resp ?w \<and> (\<exists>b. rs_body resp = response_body_new b)" if h: "r' = Inr resp" for resp
      using top last h by (cases r) auto
    moreover have "world_ok st ?w" using w1(1) by (simp add: world_ok_def)
    moreover have "if st_uris st = [] then sent = [] \<and> (\<exists>e. r' = Inl e)
       else 1 \<le> length sent \<and> length sent \<le> unat (rt_max_num_retries (st_retry st)) + 1"
      using s(2) c(3,4) fail by auto
    moreover have "attempt_failures ?w = attempt_failures w @ map (\<lambda>i. Some (show_nat i)) [0..<k]"
      using af w1(3) by (simp add: attempt_failures_def)
    moreover have "st_uris st \<noteq> [] \<longrightarrow> length sent = k" using s(2) by simp
    ultimately show ?thesis using send s(1,3) m(2) w1(2) c(3,4)
      by (intro disjI2 exI [of _ r'] exI [of _ ?w] exI [of _ sent] conjI exI [of _ k]) simp_all
  qed
qed

text \<open>The worlds a client can be in: freshly built, after any calls, whatever the network did in between.\<close>

inductive client_reach ::
  "('h, 't, 'd, 'k, 'e, 'b, 'net) client_env \<Rightarrow> builder \<Rightarrow> client_state \<Rightarrow> ('h, 'net) client_world \<Rightarrow> bool"
  for V b st where
  client_built: "builder_build X (cv_uri V) L (cv_text V) (cv_errors V) (cv_shuffle V) shuffle_nodes jitter b now reg =
      Inr (Inr (c :: unit client, sel, gauges, reg')) \<Longrightarrow> st = cl_state c \<Longrightarrow> shuffle_ok shuffle_nodes \<Longrightarrow>
    client_reach V b st (client_world_new net sel reg')"
| client_called: "client_reach V b st w \<Longrightarrow> request_ok V st ed req \<Longrightarrow> client_send V st req w = Inr (r, w') \<Longrightarrow>
    client_reach V b st w'"
| client_idle: "client_reach V b st w \<Longrightarrow> client_reach V b st (w\<lparr>cw_net := net\<rparr>)"

lemma client_state_new_fields:
  assumes "client_state_new X U L V E shuffle shuffle_nodes jitter b now reg = Inr (Inr (st, sel, gauges, reg'))"
  shows "st_builder st = b \<and> st_metrics st = metrics_layer_new b \<and> st_retry st = retry_layer_new b \<and>
    node_selector_new L shuffle shuffle_nodes jitter b now reg = Inr (sel, gauges, reg')"
  using assms
  by (cases "raw_client_new X U V E b"; cases "projr (raw_client_new X U V E b)";
      cases "proxy_from_config U V E (cc_proxy (cached b))"; cases "projr (proxy_from_config U V E (cc_proxy (cached b)))")
    (auto simp: client_state_new_def and_then_Inr_iff)

lemma not_balanced:
  "node_selector_new L shuffle shuffle_nodes jitter b now reg = Inr (BalancedNodeSelector ts, gauges, reg') \<Longrightarrow>
     cc_node_selection_strategy (cached b) = Balanced"
  by (auto simp: node_selector_new_def and_then_Inr_iff split: if_splits node_selection_strategy.splits)

lemma client_reach_ok:
  assumes "client_reach V b st w" "env_ok V" "user_agent_ok (cc_user_agent (cached b))"
  shows "world_ok st w \<and> st_builder st = b \<and> st_metrics st = metrics_layer_new b \<and> st_retry st = retry_layer_new b"
  using assms(1)
proof (induction rule: client_reach.induct)
  case (client_built X L shuffle_nodes jitter now reg c sel gauges reg' net)
  then have "client_state_new X (cv_uri V) L (cv_text V) (cv_errors V) (cv_shuffle V) shuffle_nodes jitter b now reg =
      Inr (Inr (st, sel, gauges, reg'))"
    by (auto simp: builder_build_def client_new_def and_then_Inr_iff)
  note f = client_state_new_fields [OF this]
  have sh: "shuffle_ok (cv_shuffle V)" using assms(2) by (simp add: env_ok_def)
  from f node_selector_new_ok [OF _ sh client_built(3)] not_balanced show ?case
    unfolding world_ok_def client_world_new_def st_uris_def st_balanced_def by fastforce
next
  case (client_called w ed req r w')
  have ua: "user_agent_ok (cc_user_agent (cached (st_builder st)))" using client_called(4) assms(3) by simp
  from client_send_call [OF assms(2) ua client_called(2)] client_called(3,4) show ?case by fastforce
qed (simp add: world_ok_def)

text \<open>C1: What a call of the client sends is what was asked for, and what it returns answers it. Let a client be built from a
  configuration, its user agent through the API, with crates below it that do what they document, and let earlier calls
  have left it in any state. A request has an endpoint of a service with a valid name and a path that forms a URI with
  every configured one. Then a call, in which the wait for a node's permit is left out, gives the raw client this
  request at least once and at most once more than the configured retries, each time for a configured URI with the
  request's path, with its method and body and with exactly the specified headers. A response that is
  returned is a 2xx with the status, the headers and the unread body of the decoded answer that the raw client gave to the last request
  sent, in the state the network then was in; every other outcome is an error. Without configured URIs nothing is
  sent and the call fails. The call is timed exactly once when there is a metrics registry, every request sent
  has its own span, and the spans number the failures before it from zero. The only panic is an arithmetic
  overflow: in the bookkeeping of the balanced strategy, or in the backoff, which needs more than 32 retries or
  a slot size that cannot be doubled 31 times.\<close>

theorem client_call_end_to_end:
  assumes "client_reach V b st w" "env_ok V" "built_user_agent (cc_user_agent (cached b))" "request_ok V st ed req"
  shows "case client_send V st req w of
      Inl f \<Rightarrow> f = Panicked ArithmeticOverflow \<and>
        (cc_node_selection_strategy (cached b) = Balanced \<or> \<not> backoff_fits (retry_layer_new b))
    | Inr (r, w') \<Rightarrow>
        client_reach V b st w' \<and>
        (\<exists>sent. cw_log w' = cw_log w @ sent \<and>
           (\<forall>q \<in> fst ` set sent. rq_method q = rq_method req \<and> rq_body q = raw_request_body (rq_body req) \<and>
              (\<exists>u \<in> set (cc_uris (cached b)). rq_uri q = strip_slash u @ rq_uri req) \<and>
              (\<forall>k. \<not> is_b3 k \<longrightarrow> hd_get (cv_headers V) (rq_headers q) k =
                 wire_header (cv_uri V) (cv_headers V) b (st_proxy st) ed (req\<lparr>rq_uri := rq_uri q\<rparr>) k)) \<and>
           (if cc_uris (cached b) = [] then sent = [] \<and> (\<exists>e. r = Inl e)
            else 1 \<le> length sent \<and> length sent \<le> unat (cc_max_num_retries (cached b)) + 1)) \<and>
        (\<forall>resp. r = Inr resp \<longrightarrow> 200 \<le> rs_status resp \<and> rs_status resp < 300 \<and>
           (\<exists>raw b. fst (cv_raw V (st_raw st) (fst (last (cw_log w'))) (snd (last (cw_log w')))) = Inr raw \<and>
              (let d = decode_response (cv_headers V) (cv_gzip V) raw
               in rs_status resp = rs_status d \<and> rs_headers resp = rs_headers d \<and>
                 rs_body resp = response_body_new b \<and> wb_body b = rs_body d))) \<and>
        length (cw_timers w') = length (cw_timers w) + (if uc_metrics (uncached b) = None then 0 else 1) \<and>
        (\<exists>n. attempt_failures w' = attempt_failures w @ map (\<lambda>i. Some (show_nat i)) [0..<n] \<and>
           1 \<le> n \<and> n \<le> unat (cc_max_num_retries (cached b)) + 1 \<and>
           (cc_uris (cached b) \<noteq> [] \<longrightarrow> length (cw_log w') = length (cw_log w) + n))"
proof -
  note inv = client_reach_ok [OF assms(1,2) built_user_agent_ok [OF assms(3)]]
  then have ua: "user_agent_ok (cc_user_agent (cached (st_builder st)))"
    and uris: "st_uris st = cc_uris (cached b)" and mx: "rt_max_num_retries (st_retry st) = cc_max_num_retries (cached b)"
    and me: "st_metrics st = None \<longleftrightarrow> uc_metrics (uncached b) = None"
    and ba: "st_balanced st \<longleftrightarrow> cc_node_selection_strategy (cached b) = Balanced"
    using built_user_agent_ok [OF assms(3)] by (simp_all add: st_uris_def retry_layer_new_def metrics_layer_new_def st_balanced_def)
  have wire: "wire_header U A b p ed ((retry_request req)\<lparr>rq_uri := x\<rparr>) k = wire_header U A b p ed (req\<lparr>rq_uri := x\<rparr>) k"
    for U A b p x k by (rule wire_header_cong) (simp_all add: retry_request_def clone_request_def)
  have fields: "rq_method (retry_request req) = rq_method req" "rq_uri (retry_request req) = rq_uri req"
    "rq_body (retry_request req) = raw_request_body (rq_body req)"
    by (simp_all add: retry_request_def clone_request_def)
  from client_send_call [OF assms(2) ua assms(4) conjunct1 [OF inv]] show ?thesis
  proof (elim disjE exE conjE)
    fix r w' sent
    assume c: "client_send V st req w = Inr (r, w')" "cw_log w' = cw_log w @ sent"
      "\<forall>q \<in> fst ` set sent. sent_for V st ed (retry_request req) q"
      "if st_uris st = [] then sent = [] \<and> (\<exists>e. r = Inl e)
       else 1 \<le> length sent \<and> length sent \<le> unat (rt_max_num_retries (st_retry st)) + 1"
      "\<forall>resp. r = Inr resp \<longrightarrow> answered_last V st inner_body resp w' \<and> (\<exists>b. rs_body resp = response_body_new b)"
      "length (cw_timers w') = length (cw_timers w) + (if st_metrics st = None then 0 else 1)"
    fix n assume n: "attempt_failures w' = attempt_failures w @ map (\<lambda>i. Some (show_nat i)) [0..<n]"
      "1 \<le> n" "n \<le> unat (rt_max_num_retries (st_retry st)) + 1" "st_uris st \<noteq> [] \<longrightarrow> length sent = n"
    have len: "st_uris st \<noteq> [] \<longrightarrow> length (cw_log w') = length (cw_log w) + n" using c(2) n(4) by simp
    have "\<forall>q \<in> fst ` set sent. rq_method q = rq_method req \<and> rq_body q = raw_request_body (rq_body req) \<and>
         (\<exists>u \<in> set (cc_uris (cached b)). rq_uri q = strip_slash u @ rq_uri req) \<and>
         (\<forall>k. \<not> is_b3 k \<longrightarrow> hd_get (cv_headers V) (rq_headers q) k =
            wire_header (cv_uri V) (cv_headers V) b (st_proxy st) ed (req\<lparr>rq_uri := rq_uri q\<rparr>) k)"
      using c(3) inv by (simp add: sent_for_def wire fields uris)
    moreover have "200 \<le> rs_status resp \<and> rs_status resp < 300 \<and>
        (\<exists>raw b. fst (cv_raw V (st_raw st) (fst (last (cw_log w'))) (snd (last (cw_log w')))) = Inr raw \<and>
           (let d = decode_response (cv_headers V) (cv_gzip V) raw
            in rs_status resp = rs_status d \<and> rs_headers resp = rs_headers d \<and>
              rs_body resp = response_body_new b \<and> wb_body b = rs_body d))" if "r = Inr resp" for resp
      using c(5) that
      by (fastforce simp: answered_last_def answers_def inner_body_def response_body_new_def fuse_new_def Let_def)
    moreover have "client_reach V b st w'" by (rule client_called [OF assms(1,4) c(1)])
    ultimately show ?thesis using c(2,4,6) n(1-3) len unfolding c(1) uris mx me sum.case prod.case by blast
  qed (use inv ba in simp_all)
qed

text \<open>A server that answers 503 to the first two requests; the network counts them.\<close>

definition demo_env ::
  "(string \<rightharpoonup> string, unit, byte list \<times> byte list, unit, std_error, unit, nat) client_env" where
  "demo_env =
     \<lparr>cv_http = std_http, cv_errors = std_errors, cv_headers = map_headers, cv_text = plain_text,
      cv_trace = \<lparr>tr_current = (\<lambda>_. None), tr_inject = (\<lambda>_ h. h)\<rparr>, cv_gzip = copy_gz, cv_uri = plain_uri,
      cv_math = std_math,
      cv_codec = \<lparr>response_body_encoding = (\<lambda>_. None), json_encoding = (), deserialize = (\<lambda>_ _. None),
        from_utf8_lossy = (\<lambda>_. []), body_chunks = (\<lambda>_. [])\<rparr>,
      cv_raw = (\<lambda>rc req n. (Inr \<lparr>rs_status = if n < 2 then 503 else 200, rs_headers = Map.empty, rs_body = ()\<rparr>, n + 1)),
      cv_writer = (\<lambda>_. (False, Inr ())), cv_reset = (\<lambda>n. (True, n)), cv_random = (\<lambda>mx n. (mx - 1, n)),
      cv_sleep = (\<lambda>d n. n), cv_now = (\<lambda>_. 0), cv_clock = (\<lambda>_. 0), cv_shuffle = rev, cv_pick = (\<lambda>_. 0),
      cv_context = (\<lambda>_. 0)\<rparr>"

definition demo_async_request :: "(string \<rightharpoonup> string, async_body) request" where
  "demo_async_request =
     \<lparr>rq_method = ''GET'', rq_uri = ''/b'', rq_headers = Map.empty,
      rq_endpoint = Some \<lparr>ed_service = ''foo'', ed_version = None, ed_name = ''bar'', ed_path = ''/b''\<rparr>,
      rq_node = None, rq_body = BodyEmpty\<rparr>"

lemma demo_env_ok: "env_ok demo_env"
proof -
  have "text_ok plain_text" by (simp add: text_ok_def plain_text_def)
  then show ?thesis
    using map_headers_ok std_errors_ok std_http_ok shuffle_ok_rev by (simp add: env_ok_def demo_env_def trace_ok_def)
qed

lemma two_node_builder_fields:
  "cc_uris (cached two_node_builder) = [''http://a'', ''http://b'']"
  "cc_node_selection_strategy (cached two_node_builder) = PinUntilErrorWithoutReshuffle"
  "uncached two_node_builder = \<lparr>uc_metrics = None, uc_host_metrics = None, uc_blocking_handle = None, uc_conjure_runtime = 0\<rparr>"
  "cc_proxy (cached two_node_builder) = Direct" "cc_security (cached two_node_builder) = security_config_default"
  "cc_max_num_retries (cached two_node_builder) = 4" "cc_backoff_slot_size (cached two_node_builder) = from_millis 250"
  "cc_user_agent (cached two_node_builder) = user_agent_new \<lparr>agent_name = ''app'', agent_version = ''1.0.0''\<rparr>"
  by (simp_all add: two_node_builder_def b_uris_def b_node_selection_strategy_def with_cached_def builder_new_def)

theorem client_call_end_to_end_witness:
  "\<exists>st w r w'. client_reach demo_env two_node_builder st w \<and> client_send demo_env st demo_async_request w = Inr (r, w') \<and>
     cw_log w = [] \<and> 1 \<le> length (cw_log w') \<and> length (cw_log w') \<le> 5 \<and>
     (\<forall>q \<in> fst ` set (cw_log w'). rq_uri q = ''http://a/b'' \<or> rq_uri q = ''http://b/b'')"
proof -
  let ?L = "\<lparr>host_str = (\<lambda>_. None), port_or_known_default = (\<lambda>_. None)\<rparr>"
  let ?b = two_node_builder
  obtain sel where sel: "node_selector_new ?L rev rev 0 ?b 0 None = Inr (sel, [], None)"
    by (simp add: node_selector_new_def two_node_builder_fields limited_node_new_def node_metrics_for_def Let_def)
  obtain rc where "raw_client_new demo_tls plain_uri plain_text std_errors ?b = Inr (Inr rc)"
    by (simp add: raw_client_new_def proxy_from_config_def demo_tls_def server_trust_of_def client_auth_of_def
        two_node_builder_fields security_config_default_def)
  with sel obtain st where "client_state_new demo_tls plain_uri ?L plain_text std_errors rev rev 0 ?b 0 None =
      Inr (Inr (st, sel, [], None))"
    by (simp add: client_state_new_def proxy_from_config_def two_node_builder_fields)
  then have "client_state_new demo_tls (cv_uri demo_env) ?L (cv_text demo_env) (cv_errors demo_env) (cv_shuffle demo_env)
      rev 0 ?b 0 None = Inr (Inr (st, sel, [], None))" by (simp add: demo_env_def)
  then have "builder_build demo_tls (cv_uri demo_env) ?L (cv_text demo_env) (cv_errors demo_env) (cv_shuffle demo_env)
      rev 0 ?b 0 None = Inr (Inr (client_new st None :: unit client, sel, [], None))" by (simp add: builder_build_def)
  from client_built [OF this _ shuffle_ok_rev, of st 0] have
    built: "client_reach demo_env ?b st (client_world_new 0 sel None)" by (simp add: client_new_def)
  have name: "valid_name ''foo''" by code_simp
  have ua: "built_user_agent (cc_user_agent (cached ?b))" unfolding two_node_builder_fields by (rule demo_agent_built)
  have bo: "backoff_fits (retry_layer_new ?b)"
    by (simp add: backoff_fits_def retry_layer_new_def two_node_builder_fields from_millis_def DURATION_MAX_def)
  have fields: "st_builder st = ?b"
    using client_reach_ok [OF built demo_env_ok built_user_agent_ok [OF ua]] by simp
  have ok: "request_ok demo_env st \<lparr>ed_service = ''foo'', ed_version = None, ed_name = ''bar'', ed_path = ''/b''\<rparr>
      demo_async_request"
    using name by (simp add: request_ok_def demo_async_request_def demo_env_def plain_uri_def fields st_uris_def
        two_node_builder_fields strip_slash_def is_visible_def)
  obtain r w' where send: "client_send demo_env st demo_async_request (client_world_new 0 sel None) = Inr (r, w')"
    using client_call_end_to_end [OF built demo_env_ok ua ok] bo
    by (auto simp: two_node_builder_fields split: sum.splits)
  with client_call_end_to_end [OF built demo_env_ok ua ok] obtain sent where
    c: "client_send demo_env st demo_async_request (client_world_new 0 sel None) = Inr (r, w')"
    "cw_log w' = sent" "1 \<le> length sent" "length sent \<le> 5"
    "\<forall>q \<in> fst ` set sent. \<exists>u \<in> {''http://a'', ''http://b''}. rq_uri q = strip_slash u @ ''/b''"
    by (auto simp: two_node_builder_fields client_world_new_def demo_async_request_def)
  then show ?thesis using built
    by (intro exI [of _ st] exI [of _ "client_world_new 0 sel None"] exI [of _ r] exI [of _ w'])
      (auto simp: client_world_new_def strip_slash_def)
qed

end
