(* ===== verification/JsClient.thy ===== *)
theory JsClient
  imports RequestBody Outbound Retry Float64
begin

text \<open>
  The client in a browser (\<^verbatim>\<open>wasm32\<close>): \<^verbatim>\<open>service/raw/js.rs\<close> makes a request of the fetch API, \<^verbatim>\<open>rt/js.rs\<close> has the
  clock and the timer, and the gzip and proxy layers (\<^verbatim>\<open>service/gzip/js.rs\<close>, \<^verbatim>\<open>service/proxy/js.rs\<close>) do nothing,
  as the browser does both. The browser's objects and the \<^verbatim>\<open>http\<close> crate's conversions are the fields of
  \<open>js_api\<close>: \<open>'v\<close> are the values the browser throws, \<open>'hs\<close> its header lists, \<open>'q\<close> its requests, \<open>'ac\<close> its abort
  controllers, \<open>'rd\<close> the readers of its streams and \<open>'p\<close> the promises of their reads. The stream of the
  request body's data is the \<^verbatim>\<open>http_body_util\<close> crate's: \<open>next\<close> is its awaited \<^verbatim>\<open>try_next\<close>.
\<close>

record ('hs, 'ac) js_init =
  in_method :: string
  in_headers :: "'hs option"
  in_body :: "byte list option"
  in_signal :: "'ac option"

record ('v, 'rd) js_response =
  jr_status :: nat
  jr_entries :: "('v + string \<times> string) list"
  jr_reader :: "'rd option"

record read_result =
  rr_done :: "bool option"
  rr_value :: "byte list"

record ('v, 'hs, 'q, 'ac, 'rd, 'p, 'h, 'w) js_api =
  js_debug :: "'v \<Rightarrow> string"
  js_string :: "string \<Rightarrow> 'v"
  js_headers_new :: "'v + 'hs"
  js_append :: "'hs \<Rightarrow> string \<Rightarrow> string \<Rightarrow> 'v + 'hs"
  js_request_new :: "string \<Rightarrow> ('hs, 'ac) js_init \<Rightarrow> 'v + 'q"
  js_abort_new :: "'w \<Rightarrow> ('v + 'ac) \<times> 'w"
  js_abort :: "'ac \<Rightarrow> 'w \<Rightarrow> 'w"
  js_fetch :: "'q \<Rightarrow> 'w \<Rightarrow> ('v + ('v, 'rd) js_response) \<times> 'w"
  js_read :: "'rd \<Rightarrow> 'p \<times> 'rd"
  js_read_poll :: "'p \<Rightarrow> ('v + read_result) poll \<times> 'p"
  js_to_str :: "string \<Rightarrow> string + string"
  js_status :: "nat \<Rightarrow> string + status"
  js_header_name :: "string \<Rightarrow> string + string"
  js_header_value :: "string \<Rightarrow> string + string"
  js_entries :: "'h \<Rightarrow> (string \<times> string) list"
  js_no_headers :: 'h
  js_header_append :: "'h \<Rightarrow> string \<Rightarrow> string \<Rightarrow> 'h"

definition MAX_BODY_SIZE :: nat where "MAX_BODY_SIZE = 50 * 1024 * 1024"

definition FETCH_USER_AGENT :: string where "FETCH_USER_AGENT = ''fetch-user-agent''"

text \<open>An error that only has a message.\<close>

definition message_error :: "string \<Rightarrow> cause" where
  "message_error s = Foreign s None"

definition js_error_new :: "('v, 'hs, 'q, 'ac, 'rd, 'p, 'h, 'w) js_api \<Rightarrow> 'v \<Rightarrow> cause" where
  "js_error_new J raw = message_error (js_debug J raw)"

definition or_js :: "('v, 'hs, 'q, 'ac, 'rd, 'p, 'h, 'w) js_api \<Rightarrow> 'v + 'a \<Rightarrow> cause + 'a" where
  "or_js J r = map_sum (js_error_new J) (\<lambda>x. x) r"

definition or_message :: "string + 'a \<Rightarrow> cause + 'a" where
  "or_message r = map_sum message_error (\<lambda>x. x) r"

subsection \<open>The request's body\<close>

definition check_limit :: "('v, 'hs, 'q, 'ac, 'rd, 'p, 'h, 'w) js_api \<Rightarrow> byte list \<Rightarrow> nat \<Rightarrow> cause + unit" where
  "check_limit J buf mx =
     (if length buf > mx then Inl (js_error_new J (js_string J ''body too large'')) else Inr ())"

text \<open>An error of the body becomes a \<^verbatim>\<open>JsError\<close> with its text.\<close>

definition js_body_error :: "cause \<Rightarrow> cause" where
  "js_body_error e = message_error (display (\<lambda>_. []) e)"

text \<open>Reading further chunks may not end; \<open>None\<close> is for that.\<close>

partial_function (option) read_rest ::
  "('v, 'hs, 'q, 'ac, 'rd, 'p, 'h, 'w) js_api \<Rightarrow> ('s \<Rightarrow> (cause + byte list) option \<times> 's) \<Rightarrow> nat \<Rightarrow> byte list \<Rightarrow> 's \<Rightarrow>
   (cause + byte list) option" where
  "read_rest J next mx buf s =
     (case next s of
        (None, s') \<Rightarrow> Some (Inr buf)
      | (Some (Inl e), s') \<Rightarrow> Some (Inl (js_body_error e))
      | (Some (Inr bytes), s') \<Rightarrow>
          (case check_limit J (buf @ bytes) mx of
             Inl e \<Rightarrow> Some (Inl e)
           | Inr _ \<Rightarrow> read_rest J next mx (buf @ bytes) s'))"

definition read_body ::
  "('v, 'hs, 'q, 'ac, 'rd, 'p, 'h, 'w) js_api \<Rightarrow> ('s \<Rightarrow> (cause + byte list) option \<times> 's) \<Rightarrow> nat \<Rightarrow> 's \<Rightarrow>
   (cause + byte list option) option" where
  "read_body J next mx s =
     (case next s of
        (None, s1) \<Rightarrow> Some (Inr None)
      | (Some (Inl e), s1) \<Rightarrow> Some (Inl (js_body_error e))
      | (Some (Inr first), s1) \<Rightarrow>
          (case check_limit J first mx of
             Inl e \<Rightarrow> Some (Inl e)
           | Inr _ \<Rightarrow>
               (case next s1 of
                  (None, s2) \<Rightarrow> Some (Inr (Some first))
                | (Some (Inl e), s2) \<Rightarrow> Some (Inl (js_body_error e))
                | (Some (Inr second), s2) \<Rightarrow>
                    (case check_limit J (first @ second) mx of
                       Inl e \<Rightarrow> Some (Inl e)
                     | Inr _ \<Rightarrow> map_option (map_sum (\<lambda>e. e) Some) (read_rest J next mx (first @ second) s2)))))"

subsection \<open>A call\<close>

definition fetch_header_name :: "string \<Rightarrow> string" where
  "fetch_header_name name = (if name = ''user-agent'' then FETCH_USER_AGENT else name)"

fun append_request_headers ::
  "('v, 'hs, 'q, 'ac, 'rd, 'p, 'h, 'w) js_api \<Rightarrow> (string \<times> string) list \<Rightarrow> 'hs \<Rightarrow> cause + 'hs" where
  "append_request_headers J [] headers = Inr headers"
| "append_request_headers J ((name, v) # rest) headers =
     and_then (or_message (js_to_str J v)) (\<lambda>text.
     and_then (or_js J (js_append J headers (fetch_header_name name) text)) (\<lambda>headers'.
       append_request_headers J rest headers'))"

fun append_response_headers ::
  "('v, 'hs, 'q, 'ac, 'rd, 'p, 'h, 'w) js_api \<Rightarrow> ('v + string \<times> string) list \<Rightarrow> 'h \<Rightarrow> cause + 'h" where
  "append_response_headers J [] h = Inr h"
| "append_response_headers J (p # rest) h =
     and_then (or_js J p) (\<lambda>(n, v).
     and_then (or_message (js_header_name J n)) (\<lambda>name.
     and_then (or_message (js_header_value J v)) (\<lambda>val.
       append_response_headers J rest (js_header_append J h name val))))"

record ('rd, 'p, 'ac) js_body =
  jb_reader :: "'rd option"
  jb_pending :: "'p option"
  jb_guard :: 'ac

definition abort_guard_drop :: "('v, 'hs, 'q, 'ac, 'rd, 'p, 'h, 'w) js_api \<Rightarrow> 'ac \<Rightarrow> 'w \<Rightarrow> 'w" where
  "abort_guard_drop J ac w = js_abort J ac w"

text \<open>The body owns the guard, so that dropping it aborts what is left of the transfer.\<close>

definition js_body_drop :: "('v, 'hs, 'q, 'ac, 'rd, 'p, 'h, 'w) js_api \<Rightarrow> ('rd, 'p, 'ac) js_body \<Rightarrow> 'w \<Rightarrow> 'w" where
  "js_body_drop J b w = abort_guard_drop J (jb_guard b) w"

definition js_response_of ::
  "('v, 'hs, 'q, 'ac, 'rd, 'p, 'h, 'w) js_api \<Rightarrow> 'ac \<Rightarrow> ('v, 'rd) js_response \<Rightarrow>
   cause + ('h, ('rd, 'p, 'ac) js_body) response" where
  "js_response_of J ac r =
     and_then (or_message (js_status J (jr_status r))) (\<lambda>status.
     and_then (append_response_headers J (jr_entries r) (js_no_headers J)) (\<lambda>h.
       Inr \<lparr>rs_status = status, rs_headers = h,
            rs_body = \<lparr>jb_reader = jr_reader r, jb_pending = None, jb_guard = ac\<rparr>\<rparr>))"

text \<open>From the abort controller on: a failure drops the guard.\<close>

definition js_send ::
  "('v, 'hs, 'q, 'ac, 'rd, 'p, 'h, 'w) js_api \<Rightarrow> string \<Rightarrow> ('hs, 'ac) js_init \<Rightarrow> 'w \<Rightarrow>
   (cause + ('h, ('rd, 'p, 'ac) js_body) response) \<times> 'w" where
  "js_send J uri init w =
     (case js_abort_new J w of
        (Inl v, w1) \<Rightarrow> (Inl (js_error_new J v), w1)
      | (Inr ac, w1) \<Rightarrow>
          (case js_request_new J uri (init\<lparr>in_signal := Some ac\<rparr>) of
             Inl v \<Rightarrow> (Inl (js_error_new J v), abort_guard_drop J ac w1)
           | Inr q \<Rightarrow>
               (case js_fetch J q w1 of
                  (Inl v, w2) \<Rightarrow> (Inl (js_error_new J v), abort_guard_drop J ac w2)
                | (Inr r, w2) \<Rightarrow>
                    (case js_response_of J ac r of
                       Inl e \<Rightarrow> (Inl e, abort_guard_drop J ac w2)
                     | Inr resp \<Rightarrow> (Inr resp, w2)))))"

definition js_call ::
  "('v, 'hs, 'q, 'ac, 'rd, 'p, 'h, 'w) js_api \<Rightarrow> ('s \<Rightarrow> (cause + byte list) option \<times> 's) \<Rightarrow> ('h, 's) request \<Rightarrow> 'w \<Rightarrow>
   ((cause + ('h, ('rd, 'p, 'ac) js_body) response) \<times> 'w) option" where
  "js_call J next req w =
     (case and_then (or_js J (js_headers_new J)) (append_request_headers J (js_entries J (rq_headers req))) of
        Inl e \<Rightarrow> Some (Inl e, w)
      | Inr headers \<Rightarrow>
          map_option
            (\<lambda>data. case data of
               Inl e \<Rightarrow> (Inl e, w)
             | Inr bytes \<Rightarrow>
                 js_send J (rq_uri req)
                   \<lparr>in_method = rq_method req, in_headers = Some headers, in_body = bytes, in_signal = None\<rparr> w)
            (read_body J next MAX_BODY_SIZE (rq_body req)))"

subsection \<open>The response's body\<close>

definition js_poll_frame ::
  "('v, 'hs, 'q, 'ac, 'rd, 'p, 'h, 'w) js_api \<Rightarrow> (('rd, 'p, 'ac) js_body, cause, 'h) body_poll" where
  "js_poll_frame J b =
     (case (case (jb_pending b, jb_reader b) of
              (Some p, _) \<Rightarrow> Some (p, b)
            | (None, Some rd) \<Rightarrow> (case js_read J rd of (p, rd') \<Rightarrow> Some (p, b\<lparr>jb_reader := Some rd'\<rparr>))
            | (None, None) \<Rightarrow> None) of
        None \<Rightarrow> (Ready None, b)
      | Some (p, b1) \<Rightarrow>
          (case js_read_poll J p of
             (Pending, p') \<Rightarrow> (Pending, b1\<lparr>jb_pending := Some p'\<rparr>)
           | (Ready (Inl v), p') \<Rightarrow> (Ready (Some (Inl (js_error_new J v))), b1\<lparr>jb_pending := Some p'\<rparr>)
           | (Ready (Inr c), p') \<Rightarrow>
               (if rr_done c = Some True then Ready None else Ready (Some (Inr (DataFrame (rr_value c)))),
                b1\<lparr>jb_pending := None\<rparr>)))"

subsection \<open>The layers the browser replaces\<close>

definition js_raw_client_new :: "builder \<Rightarrow> 'e + unit" where
  "js_raw_client_new b = Inr ()"

definition js_gzip_layer :: "'s \<Rightarrow> 's" where
  "js_gzip_layer inner = inner"

definition js_proxy_new :: "builder \<Rightarrow> 'e + unit" where
  "js_proxy_new b = Inr ()"

definition js_proxy_layer :: "unit \<Rightarrow> 's \<Rightarrow> 's" where
  "js_proxy_layer self inner = inner"

subsection \<open>Time\<close>

text \<open>
  \<^verbatim>\<open>rt/js.rs\<close>: an instant is the browser's time in milliseconds, a double. The conversions of durations are
  the standard library's; a negative difference panics.
\<close>

type_synonym js_instant = f64

definition as_secs_f64 :: "duration \<Rightarrow> f64" where
  "as_secs_f64 d = f64_add (f64_round (of_nat (d div 10 ^ 9))) (f64_div (f64_round (of_nat (d mod 10 ^ 9))) (10 ^ 9))"

definition from_secs_f64 :: "f64 \<Rightarrow> panic + duration" where
  "from_secs_f64 x =
     (let n = nat (round_half_even (x * 10 ^ 9))
      in if x < 0 \<or> n > DURATION_MAX then Inl (Expect ''duration'') else Inr n)"

definition instant_add :: "js_instant \<Rightarrow> duration \<Rightarrow> js_instant" where
  "instant_add self rhs = f64_add self (f64_mul (as_secs_f64 rhs) 1000)"

definition instant_sub :: "js_instant \<Rightarrow> js_instant \<Rightarrow> panic + duration" where
  "instant_sub self rhs = from_secs_f64 (f64_div (f64_add self (- rhs)) 1000)"

definition instant_elapsed :: "js_instant \<Rightarrow> js_instant \<Rightarrow> panic + duration" where
  "instant_elapsed now self = instant_sub now self"

text \<open>The timer: the receiving half of the channel that the callback sends into, and the browser's timeout.\<close>

datatype js_channel = ChannelOpen | ChannelSent | ChannelDropped

record 'i js_sleep =
  sl_rx :: js_channel
  sl_timeout_id :: 'i

definition js_sleep_new :: "(f64 \<Rightarrow> 'w \<Rightarrow> 'i \<times> 'w) \<Rightarrow> duration \<Rightarrow> 'w \<Rightarrow> 'i js_sleep \<times> 'w" where
  "js_sleep_new set_timeout d w =
     (case set_timeout (f64_mul (as_secs_f64 d) 1000) w of
        (i, w') \<Rightarrow> (\<lparr>sl_rx = ChannelOpen, sl_timeout_id = i\<rparr>, w'))"

definition js_sleep_poll :: "'i js_sleep \<Rightarrow> panic + unit poll" where
  "js_sleep_poll s =
     (case sl_rx s of
        ChannelOpen \<Rightarrow> Inr Pending
      | ChannelSent \<Rightarrow> Inr (Ready ())
      | ChannelDropped \<Rightarrow> Inl (Expect ''timeout dropped''))"

definition js_sleep_drop :: "('i \<Rightarrow> 'w \<Rightarrow> 'w) \<Rightarrow> 'i js_sleep \<Rightarrow> 'w \<Rightarrow> 'w" where
  "js_sleep_drop clear_timeout s w = clear_timeout (sl_timeout_id s) w"

subsection \<open>What a call sends\<close>

text \<open>A stream of data that hands out chunks and then ends, with an error or without.\<close>

inductive supplies :: "('s \<Rightarrow> (cause + byte list) option \<times> 's) \<Rightarrow> 's \<Rightarrow> byte list list \<Rightarrow> cause option \<Rightarrow> bool"
  for nxt where
  supplies_end: "nxt s = (None, s') \<Longrightarrow> supplies nxt s [] None"
| supplies_fail: "nxt s = (Some (Inl e), s') \<Longrightarrow> supplies nxt s [] (Some e)"
| supplies_more: "nxt s = (Some (Inr c), s') \<Longrightarrow> supplies nxt s' cs e \<Longrightarrow> supplies nxt s (c # cs) e"

inductive_cases supplies_NilE: "supplies nxt s [] e"
inductive_cases supplies_ConsE: "supplies nxt s (c # cs) e"

text \<open>The reference for the body: all the data at once.\<close>

definition too_large :: "('v, 'hs, 'q, 'ac, 'rd, 'p, 'h, 'w) js_api \<Rightarrow> cause" where
  "too_large J = js_error_new J (js_string J ''body too large'')"

definition buffered ::
  "('v, 'hs, 'q, 'ac, 'rd, 'p, 'h, 'w) js_api \<Rightarrow> nat \<Rightarrow> byte list list \<Rightarrow> cause option \<Rightarrow> cause + byte list option" where
  "buffered J mx cs e =
     (if length (concat cs) > mx then Inl (too_large J)
      else
        (case e of
           Some x \<Rightarrow> Inl (js_body_error x)
         | None \<Rightarrow> Inr (if cs = [] then None else Some (concat cs))))"

lemma read_rest_buffered:
  assumes "supplies nxt s cs e" "length buf \<le> mx"
  shows "read_rest J nxt mx buf s =
    Some (if length (buf @ concat cs) > mx then Inl (too_large J)
      else (case e of Some x \<Rightarrow> Inl (js_body_error x) | None \<Rightarrow> Inr (buf @ concat cs)))"
  using assms
proof (induction arbitrary: buf rule: supplies.induct)
  case (supplies_more s c s' cs e)
  show ?case
  proof (cases "length (buf @ c) > mx")
    case False
    then show ?thesis using supplies_more.hyps(1) supplies_more.IH [of "buf @ c"]
      by (subst read_rest.simps) (simp add: check_limit_def split: option.splits)
  qed (use supplies_more.hyps(1) in \<open>subst read_rest.simps, simp add: check_limit_def too_large_def\<close>)
qed (subst read_rest.simps, simp)+

lemma read_body_buffered:
  assumes "supplies nxt s cs e"
  shows "read_body J nxt mx s = Some (buffered J mx cs e)"
  using assms
proof (cases rule: supplies.cases)
  case (supplies_more c s1 cs1)
  show ?thesis
  proof (cases "length c > mx")
    case False
    note first = supplies_more(1,2) False
    from supplies_more(3) show ?thesis
    proof (cases rule: supplies.cases)
      case (supplies_more d s2 cs2)
      show ?thesis
      proof (cases "length (c @ d) > mx")
        case f: False
        then show ?thesis using first supplies_more read_rest_buffered [OF supplies_more(3), of "c @ d" mx J]
          by (auto simp: read_body_def check_limit_def buffered_def split: option.splits)
      qed (use first supplies_more in \<open>simp add: read_body_def check_limit_def buffered_def too_large_def\<close>)
    qed (use first in \<open>simp_all add: read_body_def check_limit_def buffered_def too_large_def\<close>)
  qed (use supplies_more in \<open>simp add: read_body_def check_limit_def buffered_def too_large_def\<close>)
qed (simp_all add: read_body_def buffered_def)

text \<open>The browser's headers, appended one by one.\<close>

fun appended :: "('v, 'hs, 'q, 'ac, 'rd, 'p, 'h, 'w) js_api \<Rightarrow> (string \<times> string) list \<Rightarrow> 'hs \<Rightarrow> 'hs \<Rightarrow> bool" where
  "appended J [] h h' \<longleftrightarrow> h' = h"
| "appended J ((n, v) # rest) h h' \<longleftrightarrow> (\<exists>t h1. js_to_str J v = Inr t \<and> js_append J h n t = Inr h1 \<and> appended J rest h1 h')"

lemma or_js_Inr [simp]: "or_js J r = Inr x \<longleftrightarrow> r = Inr x" and or_message_Inr [simp]: "or_message m = Inr y \<longleftrightarrow> m = Inr y"
  by (cases r; simp add: or_js_def) (cases m; simp add: or_message_def)

lemma append_request_headers_Inr:
  "append_request_headers J hs h = Inr h' \<longleftrightarrow> appended J (map (apfst fetch_header_name) hs) h h'"
  by (induction J hs h rule: append_request_headers.induct) (auto simp: and_then_Inr_iff)

lemma js_response_of_Inr:
  "js_response_of J ac r = Inr resp \<longleftrightarrow>
     (\<exists>h. js_status J (jr_status r) = Inr (rs_status resp) \<and> append_response_headers J (jr_entries r) (js_no_headers J) = Inr h \<and>
        resp = \<lparr>rs_status = rs_status resp, rs_headers = h,
          rs_body = \<lparr>jb_reader = jr_reader r, jb_pending = None, jb_guard = ac\<rparr>\<rparr>)"
  by (cases resp) (auto simp: js_response_of_def and_then_Inr_iff)

lemma js_send_cases:
  assumes "js_send J uri init w = (r, w')"
  obtains (no_controller) v where "js_abort_new J w = (Inl v, w')" "r = Inl (js_error_new J v)"
  | (aborted) ac w1 w2 e where "js_abort_new J w = (Inr ac, w1)" "r = Inl e" "w' = js_abort J ac w2"
  | (answered) ac w1 q raw resp where "js_abort_new J w = (Inr ac, w1)"
      "js_request_new J uri (init\<lparr>in_signal := Some ac\<rparr>) = Inr q" "js_fetch J q w1 = (Inr raw, w')"
      "js_response_of J ac raw = Inr resp" "r = Inr resp"
proof (cases "js_abort_new J w")
  case (Pair a w1)
  show ?thesis
  proof (cases a)
    case (Inl v)
    then show ?thesis using assms Pair by (intro no_controller) (auto simp: js_send_def)
  next
    case ac: (Inr ac)
    show ?thesis
    proof (cases "js_request_new J uri (init\<lparr>in_signal := Some ac\<rparr>)")
      case (Inl v)
      then show ?thesis using assms Pair ac by (intro aborted) (auto simp: js_send_def abort_guard_drop_def)
    next
      case q: (Inr q)
      obtain f w2 where f: "js_fetch J q w1 = (f, w2)" by fastforce
      show ?thesis
      proof (cases f)
        case (Inl v)
        then show ?thesis using assms Pair ac q f by (intro aborted) (auto simp: js_send_def abort_guard_drop_def)
      next
        case raw: (Inr raw)
        show ?thesis
        proof (cases "js_response_of J ac raw")
          case (Inl e)
          then show ?thesis using assms Pair ac q f raw
            by (intro aborted [of ac w1 e w2]) (auto simp: js_send_def abort_guard_drop_def)
        next
          case (Inr resp)
          then show ?thesis using assms Pair ac q f raw
            by (intro answered [of ac w1 q raw resp]) (auto simp: js_send_def)
        qed
      qed
    qed
  qed
qed

text \<open>C25: The browser client sends the whole body or nothing, and never leaves a failed transfer running. For a
  body whose data arrives in any chunks, the call returns; a response is only returned when the body
  ended without an error and holds at most 50 MiB, and then exactly one request was fetched, for the
  given URI, with the given method, all the data as its body or none when there was no chunk, and every
  header appended in order under its name, save the user agent, which browsers reserve and which goes
  as \<open>fetch-user-agent\<close>; the response has the browser's status and a body that owns the abort
  controller. When the call fails, nothing was started, or the controller was told to abort. Dropping the
  body aborts the transfer.\<close>

theorem js_call_all_or_nothing:
  assumes "supplies nxt (rq_body req) cs e"
  shows "\<exists>r w'. js_call J nxt req w = Some (r, w') \<and>
    (\<forall>resp. r = Inr resp \<longrightarrow>
       e = None \<and> length (concat cs) \<le> 50 * 1024 * 1024 \<and>
       (\<exists>h0 headers ac w1 q raw.
          js_headers_new J = Inr h0 \<and>
          appended J (map (\<lambda>(n, v). (if n = ''user-agent'' then ''fetch-user-agent'' else n, v))
            (js_entries J (rq_headers req))) h0 headers \<and>
          js_abort_new J w = (Inr ac, w1) \<and>
          js_request_new J (rq_uri req)
            \<lparr>in_method = rq_method req, in_headers = Some headers,
             in_body = (if cs = [] then None else Some (concat cs)), in_signal = Some ac\<rparr> = Inr q \<and>
          js_fetch J q w1 = (Inr raw, w') \<and> js_status J (jr_status raw) = Inr (rs_status resp) \<and>
          jb_reader (rs_body resp) = jr_reader raw \<and> jb_pending (rs_body resp) = None \<and>
          js_body_drop J (rs_body resp) w' = js_abort J ac w')) \<and>
    (\<forall>x. r = Inl x \<longrightarrow>
       w' = w \<or> (\<exists>v. js_abort_new J w = (Inl v, w')) \<or>
       (\<exists>ac w1 w2. js_abort_new J w = (Inr ac, w1) \<and> w' = js_abort J ac w2))"
proof -
  note body = read_body_buffered [OF assms, of J MAX_BODY_SIZE]
  have name: "apfst fetch_header_name = (\<lambda>(n, v :: string). (if n = ''user-agent'' then ''fetch-user-agent'' else n, v))"
    by (auto simp: fun_eq_iff fetch_header_name_def FETCH_USER_AGENT_def)
  let ?headers = "and_then (or_js J (js_headers_new J)) (append_request_headers J (js_entries J (rq_headers req)))"
  show ?thesis
  proof (cases ?headers)
    case (Inl x)
    then show ?thesis by (simp add: js_call_def)
  next
    case (Inr headers)
    then obtain h0 where h0: "js_headers_new J = Inr h0"
      "appended J (map (apfst fetch_header_name) (js_entries J (rq_headers req))) h0 headers"
      by (auto simp: and_then_Inr_iff append_request_headers_Inr)
    show ?thesis
    proof (cases "buffered J MAX_BODY_SIZE cs e")
      case (Inl x)
      with Inr body show ?thesis by (simp add: js_call_def)
    next
      case d: (Inr data)
      then have data: "e = None" "length (concat cs) \<le> 50 * 1024 * 1024" "data = (if cs = [] then None else Some (concat cs))"
        by (auto simp: buffered_def MAX_BODY_SIZE_def split: if_splits option.splits)
      let ?init = "\<lparr>in_method = rq_method req, in_headers = Some headers, in_body = data, in_signal = None\<rparr>"
      obtain r w' where s: "js_send J (rq_uri req) ?init w = (r, w')" by fastforce
      then have call: "js_call J nxt req w = Some (r, w')" using Inr body d by (simp add: js_call_def)
      from s show ?thesis
      proof (cases rule: js_send_cases)
        case (answered ac w1 q raw resp)
        then have "rs_body resp = \<lparr>jb_reader = jr_reader raw, jb_pending = None, jb_guard = ac\<rparr>"
          and st: "js_status J (jr_status raw) = Inr (rs_status resp)"
          by (auto simp: js_response_of_Inr) (metis response.select_convs(3))
        with call answered data h0 show ?thesis
          unfolding name by (auto simp: js_body_drop_def abort_guard_drop_def)
      qed (use call in auto)
    qed
  qed
qed

text \<open>C38: In the browser the error of a body's writer is lost. When the writer fails, the request's body ends in
  a \<open>RequestBodyError\<close>; the browser client keeps only its text, so the retry layer does not find it in the
  causes and takes the failure for the transport's: the caller gets that error and not the writer's,
  and an idempotent request is tried again. With the other client, whose errors keep their sources,
  the writer's error is the one returned.\<close>

theorem js_writer_error_lost:
  assumes "supplies nxt (rq_body req) cs (Some RequestBodyError)" "length (concat cs) \<le> MAX_BODY_SIZE"
    and "and_then (or_js J (js_headers_new J)) (append_request_headers J (js_entries J (rq_headers req))) = Inr headers"
    and "error_ok E"
  shows "\<exists>c. js_call J nxt req w = Some (Inl c, w) \<and>
    deconflict_errors E writer_error (internal_safe E (RawClientError c)) = internal_safe E (RawClientError c) \<and>
    classify E True (internal_safe E (RawClientError c)) = OutcomeRetry (internal_safe E (RawClientError c)) None \<and>
    deconflict_errors E writer_error (internal_safe E (RawClientError (Foreign m (Some RequestBodyError)))) = writer_error"
proof -
  let ?c = "js_body_error RequestBodyError"
  have "js_call J nxt req w = Some (Inl ?c, w)"
    using read_body_buffered [OF assms(1), of J MAX_BODY_SIZE] assms(2,3) by (simp add: js_call_def buffered_def)
  then show ?thesis
    using assms(4) by (intro exI [of _ ?c]) (simp add: deconflict_errors_def classify_def error_laws js_body_error_def
        message_error_def is_raw_client_error_def)
qed

subsection \<open>What the response's body yields\<close>

text \<open>A reader whose reads resolve, after any number of polls, to the given chunks and then report the end.\<close>

inductive resolves :: "('v, 'hs, 'q, 'ac, 'rd, 'p, 'h, 'w) js_api \<Rightarrow> 'p \<Rightarrow> read_result \<Rightarrow> bool" for J where
  resolves_now: "js_read_poll J p = (Ready (Inr c), p') \<Longrightarrow> resolves J p c"
| resolves_later: "js_read_poll J p = (Pending, p') \<Longrightarrow> resolves J p' c \<Longrightarrow> resolves J p c"

inductive hands_out :: "('v, 'hs, 'q, 'ac, 'rd, 'p, 'h, 'w) js_api \<Rightarrow> 'rd \<Rightarrow> byte list list \<Rightarrow> bool" for J where
  hands_end: "js_read J rd = (p, rd') \<Longrightarrow> resolves J p c \<Longrightarrow> rr_done c = Some True \<Longrightarrow> hands_out J rd []"
| hands_chunk: "js_read J rd = (p, rd') \<Longrightarrow> resolves J p c \<Longrightarrow> rr_done c \<noteq> Some True \<Longrightarrow> hands_out J rd' cs \<Longrightarrow>
    hands_out J rd (rr_value c # cs)"

lemma js_poll_pending:
  "js_read J rd = (p, rd') \<Longrightarrow>
     js_poll_frame J \<lparr>jb_reader = Some rd, jb_pending = None, jb_guard = g\<rparr> =
     js_poll_frame J \<lparr>jb_reader = Some rd', jb_pending = Some p, jb_guard = g\<rparr>"
  by (auto simp: js_poll_frame_def split: prod.splits poll.splits sum.splits)

lemma yields_same_poll: "yields B b s \<Longrightarrow> B b' = B b \<Longrightarrow> yields B b' s"
  by (cases rule: yields.cases) (auto intro: yields.intros)

lemma resolved_yields:
  assumes "resolves J p c"
    and "if rr_done c = Some True then s = []
      else \<exists>s'. s = Yield (DataFrame (rr_value c)) # s' \<and>
        yields (js_poll_frame J) \<lparr>jb_reader = Some rd, jb_pending = None, jb_guard = g\<rparr> s'"
  shows "\<exists>k. yields (js_poll_frame J) \<lparr>jb_reader = Some rd, jb_pending = Some p, jb_guard = g\<rparr> (replicate k Stall @ s)"
  using assms
proof (induction rule: resolves.induct)
  case (resolves_now p c p')
  let ?b = "\<lparr>jb_reader = Some rd, jb_pending = Some p, jb_guard = g\<rparr>"
  have "yields (js_poll_frame J) ?b s"
  proof (cases "rr_done c = Some True")
    case True
    then show ?thesis using resolves_now by (auto intro!: yields.yields_end simp: js_poll_frame_def)
  next
    case False
    then show ?thesis using resolves_now by (auto intro!: yields.yields_more simp: js_poll_frame_def)
  qed
  then show ?case by (intro exI [of _ 0]) simp
next
  case (resolves_later p p' c)
  then obtain k where "yields (js_poll_frame J) \<lparr>jb_reader = Some rd, jb_pending = Some p', jb_guard = g\<rparr> (replicate k Stall @ s)"
    by blast
  then have "yields (js_poll_frame J) \<lparr>jb_reader = Some rd, jb_pending = Some p, jb_guard = g\<rparr> (Stall # replicate k Stall @ s)"
    using resolves_later(1) by (intro yields.yields_more) (simp_all add: js_poll_frame_def)
  then show ?case by (intro exI [of _ "Suc k"]) simp
qed

lemma js_body_yields:
  assumes "hands_out J rd cs"
  shows "\<exists>s. yields (js_poll_frame J) \<lparr>jb_reader = Some rd, jb_pending = None, jb_guard = g\<rparr> s \<and>
    filter (\<lambda>x. x \<noteq> Stall) s = map (\<lambda>c. Yield (DataFrame c)) cs"
  using assms
proof (induction rule: hands_out.induct)
  case (hands_end rd p rd' c)
  then obtain k where "yields (js_poll_frame J) \<lparr>jb_reader = Some rd', jb_pending = Some p, jb_guard = g\<rparr> (replicate k Stall @ [])"
    using resolved_yields [of J p c "[]" rd' g] by auto
  from yields_same_poll [OF this js_poll_pending [OF hands_end(1)]] show ?case by fastforce
next
  case (hands_chunk rd p rd' c cs)
  then obtain s where s: "yields (js_poll_frame J) \<lparr>jb_reader = Some rd', jb_pending = None, jb_guard = g\<rparr> s"
    "filter (\<lambda>x. x \<noteq> Stall) s = map (\<lambda>c. Yield (DataFrame c)) cs" by blast
  obtain k where "yields (js_poll_frame J) \<lparr>jb_reader = Some rd', jb_pending = Some p, jb_guard = g\<rparr>
      (replicate k Stall @ Yield (DataFrame (rr_value c)) # s)"
    using resolved_yields [of J p c "Yield (DataFrame (rr_value c)) # s" rd' g] hands_chunk(2,3) s(1) by auto
  from yields_same_poll [OF this js_poll_pending [OF hands_chunk(1)]] s(2) show ?case by fastforce
qed

subsection \<open>A browser\<close>

text \<open>It keeps its headers in a list and counts the requests it was given and the transfers it was told to abort.\<close>

definition list_next :: "(cause + byte list) list \<Rightarrow> (cause + byte list) option \<times> (cause + byte list) list" where
  "list_next s = (case s of [] \<Rightarrow> (None, []) | x # rest \<Rightarrow> (Some x, rest))"

definition demo_browser ::
  "(string, (string \<times> string) list, string \<times> ((string \<times> string) list, unit) js_init, unit, unit, unit,
    (string \<times> string) list, nat \<times> nat) js_api" where
  "demo_browser =
     \<lparr>js_debug = (\<lambda>v. v), js_string = (\<lambda>s. s), js_headers_new = Inr [], js_append = (\<lambda>h k v. Inr (h @ [(k, v)])),
      js_request_new = (\<lambda>u i. Inr (u, i)), js_abort_new = (\<lambda>w. (Inr (), w)), js_abort = (\<lambda>_ (n, a). (n, a + 1)),
      js_fetch = (\<lambda>q (n, a). (Inr \<lparr>jr_status = 204, jr_entries = [Inr (''x'', ''y'')], jr_reader = None\<rparr>, (n + 1, a))),
      js_read = (\<lambda>_. ((), ())), js_read_poll = (\<lambda>_. (Pending, ())), js_to_str = Inr, js_status = Inr,
      js_header_name = Inr, js_header_value = Inr, js_entries = (\<lambda>h. h), js_no_headers = [],
      js_header_append = (\<lambda>h k v. h @ [(k, v)])\<rparr>"

definition browser_request :: "(cause + byte list) list \<Rightarrow> ((string \<times> string) list, (cause + byte list) list) request" where
  "browser_request body =
     \<lparr>rq_method = ''PUT'', rq_uri = ''http://a/b'', rq_headers = [(''user-agent'', ''app''), (''accept'', ''json'')],
      rq_endpoint = None, rq_node = None, rq_body = body\<rparr>"

lemma list_next_supplies: "supplies list_next (map Inr cs) cs None" "supplies list_next (map Inr cs @ [Inl e]) cs (Some e)"
  by (induction cs) (auto intro: supplies.intros simp: list_next_def)

theorem js_call_all_or_nothing_witness:
  "\<exists>resp. js_call demo_browser list_next (browser_request [Inr [1], Inr [], Inr [2, 3]]) (0, 0) = Some (Inr resp, (1, 0)) \<and>
     rs_status resp = 204 \<and> js_body_drop demo_browser (rs_body resp) (1, 0) = (1, 1)"
proof -
  let ?req = "browser_request [Inr [1], Inr [], Inr [2, 3]]"
  have s: "supplies list_next (rq_body ?req) [[1], [], [2, 3]] None"
    using list_next_supplies(1) [of "[[1], [], [2, 3]]"] by (simp add: browser_request_def)
  obtain r w' where c: "js_call demo_browser list_next ?req (0, 0) = Some (r, w')"
    using js_call_all_or_nothing [OF s, of demo_browser "(0, 0)"] by blast
  moreover have "buffered demo_browser MAX_BODY_SIZE [[1], [], [2, 3]] None = Inr (Some [1, 2, 3])"
    by (simp add: buffered_def MAX_BODY_SIZE_def)
  ultimately have "\<exists>resp. r = Inr resp \<and> w' = (1, 0)"
    using read_body_buffered [OF s, of demo_browser MAX_BODY_SIZE]
    by (auto simp: js_call_def js_send_def js_response_of_def demo_browser_def browser_request_def or_js_def or_message_def)
  with c js_call_all_or_nothing [OF s, of demo_browser "(0, 0)"] show ?thesis
    by (fastforce simp: demo_browser_def)
qed

theorem js_writer_error_lost_witness:
  "\<exists>c. js_call demo_browser list_next (browser_request [Inr [1], Inl RequestBodyError]) (0, 0) = Some (Inl c, (0, 0)) \<and>
     classify std_errors True (internal_safe std_errors (RawClientError c)) =
       OutcomeRetry (internal_safe std_errors (RawClientError c)) None"
proof -
  let ?req = "browser_request [Inr [1], Inl RequestBodyError]"
  have s: "supplies list_next (rq_body ?req) [[1]] (Some RequestBodyError)"
    using list_next_supplies(2) [of "[[1]]" RequestBodyError] by (simp add: browser_request_def)
  have h: "and_then (or_js demo_browser (js_headers_new demo_browser))
      (append_request_headers demo_browser (js_entries demo_browser (rq_headers ?req))) =
      Inr [(''fetch-user-agent'', ''app''), (''accept'', ''json'')]"
    by (simp add: demo_browser_def browser_request_def or_js_def or_message_def fetch_header_name_def FETCH_USER_AGENT_def)
  have "length (concat [[1 :: 8 word]]) \<le> MAX_BODY_SIZE" by (simp add: MAX_BODY_SIZE_def)
  from js_writer_error_lost [OF s this h std_errors_ok, of "(0, 0)"] show ?thesis by blast
qed

end
