(* ===== verification/Spec2Isabelle.thy ===== *)
theory Spec2Isabelle
  imports SemaphoreSystem CiadSystem BalancedSystem AtomicF64 LimiterRuns PerHostClients Blocking ClientStack JsClient
begin

text \<open>
  Verification of \<^verbatim>\<open>conjure-runtime\<close>, an HTTP client runtime for Conjure-defined services, and of its
  configuration crate \<^verbatim>\<open>conjure-runtime-config\<close>.

  \<^bold>\<open>The program.\<close> A client factory (\<^verbatim>\<open>client_factory.rs\<close>) turns a service's configuration into a builder
  (\<^verbatim>\<open>builder.rs\<close>) and keeps the client states it builds in a cache of weak references
  (\<^verbatim>\<open>weak_cache.rs\<close>). A client state (\<^verbatim>\<open>client.rs\<close>) is a stack of layers. From the caller down: the
  public response body, a timer and a span around the call, retries, the mapping of responses to
  errors, spans around an attempt, the selection of a node, the node's URI and metrics, the proxy, trace,
  user agent and error format headers, gzip, and the mapping of transport errors, above the raw
  client, which speaks HTTP over TCP, the proxy and TLS. A node admits a request only with permits of two
  concurrency limiters, and a limiter hands out its permits through a fair semaphore whose number of
  permits may fall below those in use. The blocking client runs the same stack from a thread, and in a
  browser the raw client is one over the fetch API.

  \<^bold>\<open>The theories\<close>, each with the files under \<^verbatim>\<open>src/conjure-runtime/src\<close> it models.
  \<^item> \<^verbatim>\<open>Prelude\<close>: machine integers, results and panics as sums, polls and \<open>await\<close>, which polls a future to its
    end. \<^verbatim>\<open>Decimal\<close> and \<^verbatim>\<open>Float64\<close>: printing and parsing of numbers, and rounding to 53 significant
    bits, for the parts of the standard library the sources use. \<^verbatim>\<open>AtomicF64\<close> (\<^verbatim>\<open>util/atomic_f64.rs\<close>): the bits of
    doubles, and threads that update one in an atomic word, which is as if they did so one at a time.
  \<^item> \<^verbatim>\<open>Semaphore\<close> and \<^verbatim>\<open>SemaphoreSystem\<close> (\<^verbatim>\<open>service/node/limiter/deficit_semaphore.rs\<close>): the intrusive list of
    waiters in a heap of nodes, and any number of tasks that acquire, cancel and release. The code refines a
    queue: it is first come first served, it never faults, and no wakeup is lost. What the limiter relies
    on is the locale \<open>permit_pool\<close>.
  \<^item> \<^verbatim>\<open>Ciad\<close> and \<^verbatim>\<open>CiadSystem\<close> (\<^verbatim>\<open>service/node/limiter/ciad.rs\<close>): the limit in floating point, and the steps of
    threads that update it. Permits are conserved, and updates that do not overlap never fault; two that
    overlap can.
  \<^item> \<^verbatim>\<open>Limiter\<close>, \<^verbatim>\<open>Node\<close>, \<^verbatim>\<open>HostMetrics\<close> (\<^verbatim>\<open>service/node/limiter/mod.rs\<close>, \<^verbatim>\<open>util/weak_reducing_gauge.rs\<close>,
    \<^verbatim>\<open>service/node/mod.rs\<close>, \<^verbatim>\<open>uri.rs\<close>, \<^verbatim>\<open>metrics.rs\<close>, \<^verbatim>\<open>host_metrics.rs\<close>): the two levels of limiters,
    requests that wait, are cancelled or go through, and the registry of host metrics.
  \<^item> \<^verbatim>\<open>CiadRoles\<close>, \<^verbatim>\<open>LimiterSystem\<close>, \<^verbatim>\<open>LimiterRuns\<close> (\<^verbatim>\<open>service/node/limiter\<close> once more): many requests at one
    node, one atomic action at a time. Every limiter inside is in a state \<^verbatim>\<open>CiadSystem\<close> reaches, and its semaphore
    in one \<^verbatim>\<open>SemaphoreSystem\<close> reaches, so their theorems hold there; the permits out are exactly those the
    requests hold, whoever is cancelled where, and nobody waits for capacity that is there. The whole
    operations of \<^verbatim>\<open>Limiter\<close> are the uninterrupted runs of these steps.
  \<^item> \<^verbatim>\<open>PinUntilError\<close>, \<^verbatim>\<open>BalancedSelector\<close>, \<^verbatim>\<open>BalancedSystem\<close>, \<^verbatim>\<open>Reservoir\<close>, \<^verbatim>\<open>Selector\<close>
    (\<^verbatim>\<open>service/node/selector\<close>): the selection strategies. \<^verbatim>\<open>BalancedSystem\<close> has many requests at once, whose counts
    stay exact through returns, panics and cancellations; \<^verbatim>\<open>Reservoir\<close> has many threads at one failure reservoir, access by
    access, one of which panics when another overtakes its reading of the clock. The two node lists of the pinning selector are instances of the locale \<open>node_list\<close>; \<^verbatim>\<open>Selector\<close>
    shows for all strategies together that calls stay on the configured nodes.
  \<^item> \<^verbatim>\<open>Errors\<close>, \<^verbatim>\<open>HttpError\<close>, \<^verbatim>\<open>Retry\<close> (\<^verbatim>\<open>errors.rs\<close>, \<^verbatim>\<open>service/map_error.rs\<close>, \<^verbatim>\<open>service/http_error.rs\<close>,
    \<^verbatim>\<open>service/retry.rs\<close>): the causes of errors, responses as errors, and the attempts of one call, as a trace of what
    the transport reported and the loop did: which failures are repeated, how often, after which pause, and that a
    body is reset if and only if it was written to.
  \<^item> \<^verbatim>\<open>Config\<close>, \<^verbatim>\<open>UserAgent\<close>, \<^verbatim>\<open>Builder\<close>, \<^verbatim>\<open>WeakCache\<close>, \<^verbatim>\<open>ClientFactory\<close>, \<^verbatim>\<open>PerHostClients\<close> (\<^verbatim>\<open>conjure-runtime-config/src/lib.rs\<close>,
    \<^verbatim>\<open>user_agent.rs\<close>, \<^verbatim>\<open>builder.rs\<close>, \<^verbatim>\<open>weak_cache.rs\<close>, \<^verbatim>\<open>client_factory.rs\<close>, \<^verbatim>\<open>per_host_clients.rs\<close>): from
    configuration to clients. The cache is transparent: a client is always built from the settings in
    force, and the per-host clients follow the configuration as long as every client could be built; the
    configuration of one that could not be built goes stale, which \<open>failed_refresh_goes_stale\<close> shows.
  \<^item> \<^verbatim>\<open>Http\<close>, \<^verbatim>\<open>Body\<close>, \<^verbatim>\<open>RequestBody\<close>, \<^verbatim>\<open>Blocking\<close>, \<^verbatim>\<open>Gzip\<close> (\<^verbatim>\<open>body.rs\<close>, \<^verbatim>\<open>service/raw/body.rs\<close>, \<^verbatim>\<open>blocking\<close>,
    \<^verbatim>\<open>service/gzip/hyper.rs\<close>): requests, responses and the streaming of their bodies. A server that saw a
    body end has all of it; the caller gets the data of the response, decoded. Bodies that wrap bodies are
    instances of the locale \<open>body_layer\<close>.
  \<^item> \<^verbatim>\<open>Proxy\<close>, \<^verbatim>\<open>Outbound\<close>, \<^verbatim>\<open>RawClient\<close> (\<^verbatim>\<open>service/proxy/hyper\<close>, \<^verbatim>\<open>service/user_agent.rs\<close>,
    \<^verbatim>\<open>service/trace_propagation.rs\<close>, \<^verbatim>\<open>service/error_parameter_format.rs\<close>, \<^verbatim>\<open>service/mod.rs\<close>, \<^verbatim>\<open>service/raw/hyper.rs\<close>,
    \<^verbatim>\<open>service/raw/provider.rs\<close>, \<^verbatim>\<open>service/timeout.rs\<close>, \<^verbatim>\<open>service/tls_metrics.rs\<close>): the headers that reach the wire,
    where proxy credentials go, and which servers TLS accepts.
  \<^item> \<^verbatim>\<open>Instrumentation\<close> (\<^verbatim>\<open>service/metrics.rs\<close>, \<^verbatim>\<open>util/spans.rs\<close>, \<^verbatim>\<open>service/root_span.rs\<close>,
    \<^verbatim>\<open>service/wait_for_spans.rs\<close>, \<^verbatim>\<open>service/response_body.rs\<close>): timers, spans and what their tags say.
  \<^item> \<^verbatim>\<open>ClientStack\<close> (\<^verbatim>\<open>client.rs\<close>): the construction of a client and its fifteen layers composed over one world, with
    the states a client reaches by calls. A call sends what was asked for to configured nodes only, as
    often as retries allow, and returns the decoded answer to the last request, an error, or a panic where the balanced
    bookkeeping or the backoff overflows.
  \<^item> \<^verbatim>\<open>JsClient\<close> (\<^verbatim>\<open>service/raw/js.rs\<close>, \<^verbatim>\<open>service/gzip/js.rs\<close>, \<^verbatim>\<open>service/proxy/js.rs\<close>, \<^verbatim>\<open>rt/js.rs\<close>): the client in a
    browser, which sends a whole body or nothing and aborts what failed; the error of a body's writer is lost
    there.
  \<^item> This theory: what a caller reads, through the layers of the response together.

  \<^bold>\<open>How code becomes definitions.\<close> A struct is a record and an enum a datatype. A function that may panic
  returns a sum with the panic on the left; a \<^verbatim>\<open>Result\<close> is a sum with the error on the left. A layer is a
  function of the service below it, and a service takes a request and the state of the world to a result and the
  next state. A poll takes a state to \<open>Ready\<close> or \<open>Pending\<close> and the next state. Integers keep their width
  where the code depends on it; durations are numbers of nanoseconds. Code of other crates is a
  parameter: a record of the operations the sources call (\<open>error_api\<close>, \<open>http_api\<close>, \<open>header_api\<close>, \<open>gz_api\<close>,
  \<open>tls_api\<close> and others), with a predicate that says what they promise; each has an instance that
  satisfies it. Randomness is a parameter that rearranges a list or returns a number in range.

  \<^bold>\<open>Loops.\<close> The retry loop terminates by the measure of the attempts left. Loops that may not
  end, such as waiting for a future, are partial functions with \<open>None\<close> for not returning, and that they
  return is proved where it holds. The eviction loop of the cache takes at most as many rounds as the map
  has entries, which is the fuel it is given.

  \<^bold>\<open>Not modelled.\<close> Module declarations, the test drivers of \<^verbatim>\<open>conjure-verification\<close> and the build scripts that
  generate bindings; the getters of builders and configurations, which are the fields of the records; the
  derived deserialization of configurations and the durations' text form, which are generated or other
  crates'; sockets, HTTP, TLS and the browser themselves; memory orderings weaker than sequential
  consistency. The composition of the client's layers is sequential, one call after the other, and leaves out the
  wait for a node's permit, which \<^verbatim>\<open>LimiterSystem\<close> is about; interleavings are modelled where state is
  shared: the semaphore, the limit, a node's two levels of
  permits, the cache, the balanced selector's counters, the failure reservoir and atomic doubles. The ids of the cache are
  numbers without bound, and a blocking writer's caller stops at its first failed write.
\<close>

text \<open>C24: What a caller reads is what the server sent. A response goes up through the gzip layer, the spans
  around its body and the public body type: reading its stream to the end returns, however the
  transport cuts and stalls the body; unless an event on the way was an error, the bytes are the
  decoded content when the server said gzip, and otherwise the content as it came.\<close>

theorem response_reaches_caller:
  fixes B :: "('b, 'e, 'h) body_poll" and G :: "'d gz_api" and r :: "('m, 'b) response"
  assumes laws: "gz_ok G gunzip" "honest B is_end" "header_ok A" "returning (decoded_poll G B is_end into) D"
    and raw: "raw (accept_gzip A req) w = (Inr r, w')" and body: "yields B (rs_body r) s" "framed s"
  shows "\<exists>r' out rb. response_body_call (wait_for_spans_call c1 c2 (\<lambda>_. gzip_call A G raw)) req (w, ended) =
      (Inr r', (w', ended @ [\<lparr>sp_context = c1, sp_name = ''conjure-runtime: wait-for-headers'', sp_tags = []\<rparr>])) \<and>
    rs_status r' = rs_status r \<and> yields D (rs_body (decode_response A G r)) out \<and>
    reader_run (wait_for_spans_poll D) (replicate (Suc (length out)) Next) (rs_body r') =
      Some (Inr ((content out, True), rb)) \<and>
    ((\<forall>e. Failure e \<notin> set out) \<longrightarrow>
       content out = (if hd_get A (rs_headers r) ''content-encoding'' = Some ''gzip'' then gunzip (content s) else content s))"
proof -
  let ?span = "\<lparr>sp_context = c2, sp_name = ''conjure-runtime: wait-for-body'', sp_tags = []\<rparr>"
  let ?d = "decode_response A G r :: ('m, ('b, 'd, 'h) decoded_body) response"
  obtain out where out: "produces (decoded_poll G B is_end into) (rs_body ?d) out"
    "(\<forall>e. Failure e \<notin> set out) \<longrightarrow>
       content out = (if hd_get A (rs_headers r) ''content-encoding'' = Some ''gzip'' then gunzip (content s) else content s)"
  proof (cases "hd_get A (rs_headers r) ''content-encoding'' = Some ''gzip''")
    case True
    then show ?thesis
      using decompressing_produces [OF laws(1,2) body, of into "gz_new G"] gz_laws(1,2) [OF laws(1)] that
      by (auto simp: decode_response_def decodes_def)
  next
    case False
    then show ?thesis using done_produces [OF body(1), of G is_end into] that by (auto simp: decode_response_def)
  qed
  define r' where "r' = \<lparr>rs_status = rs_status ?d, rs_headers = rs_headers ?d,
    rs_body = response_body_new \<lparr>wb_body = rs_body ?d, wb_span = ?span\<rparr>\<rparr>"
  from waiting.read_through [OF produces_yields [OF out(1) laws(4)], of ?span] obtain rb where
    "reader_run (wait_for_spans_poll D) (replicate (Suc (length out)) Next) (rs_body r') =
      Some (Inr ((content out, True), rb))"
    unfolding r'_def response.select_convs by blast
  moreover have "response_body_call (wait_for_spans_call c1 c2 (\<lambda>_. gzip_call A G raw)) req (w, ended) =
      (Inr r', (w', ended @ [\<lparr>sp_context = c1, sp_name = ''conjure-runtime: wait-for-headers'', sp_tags = []\<rparr>]))"
    using raw by (simp add: r'_def response_body_call_def wait_for_spans_call_def gzip_call_def Let_def)
  moreover have "rs_status r' = rs_status r" by (simp add: r'_def decode_response_def)
  moreover have "yields D (rs_body ?d) out" by (rule produces_yields [OF out(1) laws(4)])
  ultimately show ?thesis using out(2) by blast
qed

definition demo_response :: "(string \<rightharpoonup> string, (unit, nat) item list) response" where
  "demo_response =
     \<lparr>rs_status = 200, rs_headers = [''content-encoding'' \<mapsto> ''gzip''],
      rs_body = [Yield (DataFrame [1, 2]), Stall, Yield (DataFrame [3]), Yield (TrailersFrame 7)]\<rparr>"

definition demo_decoded ::
  "(((unit, nat) item list, byte list \<times> byte list, nat) decoded_body, cause, nat) body_poll" where
  "demo_decoded db =
     (case decoded_poll copy_gz script (\<lambda>s. s = []) (\<lambda>_ :: unit. Foreign ''io'' None) db of
        Some x \<Rightarrow> x
      | None \<Rightarrow> (Pending, db))"

theorem response_reaches_caller_witness:
  "\<exists>r' (out :: (cause, nat) item list) rb. response_body_call (wait_for_spans_call 1 2
       (\<lambda>_. gzip_call map_headers copy_gz (\<lambda>_ (w :: unit). (Inr demo_response :: cause + _, w)))) demo_request ((), []) =
     (Inr r', ((), [\<lparr>sp_context = 1, sp_name = ''conjure-runtime: wait-for-headers'', sp_tags = []\<rparr>])) \<and>
    reader_run (wait_for_spans_poll demo_decoded) (replicate (Suc (length out)) Next) (rs_body r') =
      Some (Inr ((content out, True), rb)) \<and>
    ((\<forall>e. Failure e \<notin> set out) \<longrightarrow> content out = [1, 2, 3])"
proof -
  have D: "returning (decoded_poll copy_gz script (\<lambda>s. s = []) (\<lambda>_ :: unit. Foreign ''io'' None)) demo_decoded"
    by (simp add: returning_def demo_decoded_def)
  have b: "yields script (rs_body demo_response) (rs_body demo_response)" "framed (rs_body demo_response)"
    by (rule yields_script, simp add: demo_response_def)
  have c: "content (rs_body demo_response) = [1, 2, 3]" "rs_headers demo_response ''content-encoding'' = Some ''gzip''"
    by (simp_all add: demo_response_def)
  from response_reaches_caller [OF copy_gz_ok script_honest map_headers_ok D _ b,
      of "\<lambda>_ (w :: unit). (Inr demo_response :: cause + _, w)" demo_request "()" "()" 1 2 "[]"] c
  show ?thesis by (auto simp: map_headers_def)
qed

end
